(* ===== verification/GoPrelude.thy ===== *)
theory GoPrelude
  imports Main "HOL-Library.Word" "HOL-Library.Sublist" "HOL-Library.Signed_Division"
begin

text \<open>
  The part of the Go language and of its standard library that the modelled code uses, with the
  lemmas the component theories share.

  \<^item> Strings are byte sequences (\<^typ>\<open>string\<close>, one \<^typ>\<open>char\<close> per byte). Case mapping
    (\<open>strings.ToLower\<close>, \<open>strings.ToUpper\<close>, \<open>strings.EqualFold\<close>) is the mapping of the ASCII letters;
    a byte outside ASCII is kept. \<open>strings.TrimSpace\<close> removes every white-space character of
    Unicode, by its UTF-8 encoding.
  \<^item> Search and cutting (\<open>HasPrefix\<close>, \<open>HasSuffix\<close>, \<open>TrimPrefix\<close>, \<open>TrimSuffix\<close>, \<open>Index\<close>,
    \<open>Split\<close> at one byte) and decimal numbers (\<open>strconv.Itoa\<close>, \<open>strconv.ParseInt\<close>).
  \<^item> \<open>time.Time\<close> is an instant in nanoseconds and \<open>time.Duration\<close> a signed 64-bit number of
    nanoseconds; \<open>Time.Sub\<close> saturates as in Go. Both are read as \<^typ>\<open>int\<close>; where wrap-around
    matters the component uses \<^typ>\<open>64 word\<close>. Go's integer division truncates (\<open>sdiv\<close>, \<open>smod\<close>).
  \<^item> A fallible function returns a sum: \<open>Inl\<close> the error, \<open>Inr\<close> the result. A nil pointer is
    \<open>None\<close>.
\<close>

named_theorems go_str \<open>evaluation and algebra of the string operations\<close>
named_theorems go_def \<open>unfolding of constants and small wrappers\<close>

section \<open>Case mapping\<close>

definition lower_char :: "char \<Rightarrow> char" where
  "lower_char c = (if 65 \<le> (of_char c :: nat) \<and> (of_char c :: nat) \<le> 90
                   then char_of ((of_char c :: nat) + 32) else c)"

definition upper_char :: "char \<Rightarrow> char" where
  "upper_char c = (if 97 \<le> (of_char c :: nat) \<and> (of_char c :: nat) \<le> 122
                   then char_of ((of_char c :: nat) - 32) else c)"

definition ToLower :: "string \<Rightarrow> string" where
  "ToLower s = map lower_char s"

definition ToUpper :: "string \<Rightarrow> string" where
  "ToUpper s = map upper_char s"

definition EqualFold :: "string \<Rightarrow> string \<Rightarrow> bool" where
  "EqualFold s t \<longleftrightarrow> ToLower s = ToLower t"

lemma of_char_lower_char:
  "(of_char (lower_char c) :: nat) =
     (if 65 \<le> (of_char c :: nat) \<and> (of_char c :: nat) \<le> 90 then of_char c + 32 else of_char c)"
  by (simp add: lower_char_def)

lemma lower_char_idem [simp]: "lower_char (lower_char c) = lower_char c"
  by (auto simp: lower_char_def)

lemma ToLower_idem [simp]: "ToLower (ToLower s) = ToLower s"
  by (simp add: ToLower_def)

lemma ToLower_append [simp]: "ToLower (s @ t) = ToLower s @ ToLower t"
  by (simp add: ToLower_def)

lemma ToLower_Nil [simp]: "ToLower [] = []"
  by (simp add: ToLower_def)

lemma ToLower_Cons: "ToLower (c # s) = lower_char c # ToLower s"
  by (simp add: ToLower_def)

lemma length_ToLower [simp]: "length (ToLower s) = length s"
  by (simp add: ToLower_def)

lemma ToLower_eq_Nil_iff [simp]: "ToLower s = [] \<longleftrightarrow> s = []"
  by (simp add: ToLower_def)

section \<open>Prefixes, suffixes and search\<close>

definition HasPrefix :: "string \<Rightarrow> string \<Rightarrow> bool" where
  "HasPrefix s p \<longleftrightarrow> take (length p) s = p"

definition HasSuffix :: "string \<Rightarrow> string \<Rightarrow> bool" where
  "HasSuffix s p \<longleftrightarrow> length p \<le> length s \<and> drop (length s - length p) s = p"

definition TrimPrefix :: "string \<Rightarrow> string \<Rightarrow> string" where
  "TrimPrefix s p = (if HasPrefix s p then drop (length p) s else s)"

definition TrimSuffix :: "string \<Rightarrow> string \<Rightarrow> string" where
  "TrimSuffix s p = (if HasSuffix s p then take (length s - length p) s else s)"

lemma HasPrefix_iff: "HasPrefix s p \<longleftrightarrow> prefix p s"
proof
  assume "HasPrefix s p"
  then have "s = p @ drop (length p) s"
    by (metis HasPrefix_def append_take_drop_id)
  then show "prefix p s" by (rule prefixI)
qed (auto simp: HasPrefix_def prefix_def)

lemma HasSuffix_iff: "HasSuffix s p \<longleftrightarrow> suffix p s"
proof
  assume "HasSuffix s p"
  then have "s = take (length s - length p) s @ p"
    by (metis HasSuffix_def append_take_drop_id)
  then show "suffix p s" by (rule suffixI)
qed (auto simp: HasSuffix_def suffix_def)

lemma HasPrefix_append [simp]: "HasPrefix (p @ s) p"
  by (simp add: HasPrefix_iff)

lemma HasPrefix_Nil [simp]: "HasPrefix s []"
  by (simp add: HasPrefix_iff)

lemma HasSuffix_Nil [simp]: "HasSuffix s []"
  by (simp add: HasSuffix_iff)

lemma HasPrefix_split: "HasPrefix s p \<longleftrightarrow> (\<exists>t. s = p @ t)"
  by (auto simp: HasPrefix_iff prefix_def)

lemma HasSuffix_split: "HasSuffix s p \<longleftrightarrow> (\<exists>t. s = t @ p)"
  by (auto simp: HasSuffix_iff suffix_def)

text \<open>\<open>strings.Index\<close>: the leftmost occurrence; Go's \<open>-1\<close> is \<open>None\<close>.\<close>

fun Index :: "string \<Rightarrow> string \<Rightarrow> nat option" where
  "Index [] sub = (if sub = [] then Some 0 else None)"
| "Index (c # cs) sub =
     (if HasPrefix (c # cs) sub then Some 0 else map_option Suc (Index cs sub))"

definition Contains :: "string \<Rightarrow> string \<Rightarrow> bool" where
  "Contains s sub \<longleftrightarrow> Index s sub \<noteq> None"

lemma Index_Some_split:
  "Index s sub = Some i \<Longrightarrow> i + length sub \<le> length s \<and> s = take i s @ sub @ drop (i + length sub) s"
proof (induction s sub arbitrary: i rule: Index.induct)
  case (1 sub)
  then show ?case by (auto split: if_splits)
next
  case (2 c cs sub)
  show ?case
  proof (cases "HasPrefix (c # cs) sub")
    case True
    with 2 have "i = 0" by simp
    moreover from True obtain t where t: "c # cs = sub @ t" by (auto simp: HasPrefix_split)
    ultimately show ?thesis by (simp only: t) simp
  next
    case False
    with 2 obtain j where j: "Index cs sub = Some j" "i = Suc j" by auto
    from 2(1)[OF False j(1)] j(2) show ?thesis by simp
  qed
qed

lemma Index_HasPrefix: "HasPrefix s sub \<Longrightarrow> Index s sub = Some 0"
  by (cases s) (simp_all add: HasPrefix_split)

lemma Index_least:
  "s = u @ sub @ v \<Longrightarrow> \<exists>i. Index s sub = Some i \<and> i \<le> length u"
proof (induction u arbitrary: s)
  case Nil
  then have "HasPrefix s sub" by simp
  then show ?case by (simp add: Index_HasPrefix)
next
  case (Cons c u)
  then obtain i where "Index (u @ sub @ v) sub = Some i" "i \<le> length u" by blast
  with Cons.prems show ?case by auto
qed

lemma Contains_iff: "Contains s sub \<longleftrightarrow> sublist sub s"
proof
  assume "Contains s sub"
  then obtain i where "Index s sub = Some i" by (auto simp: Contains_def)
  from Index_Some_split[OF this] show "sublist sub s" by (metis sublist_def)
next
  assume "sublist sub s"
  then obtain u v where "s = u @ sub @ v" by (auto simp: sublist_def)
  from Index_least[OF this] show "Contains s sub" by (auto simp: Contains_def)
qed

text \<open>\<open>strings.Split\<close> at a separator of one byte.\<close>

fun Split :: "char \<Rightarrow> string \<Rightarrow> string list" where
  "Split sep [] = [[]]"
| "Split sep (c # cs) =
     (if c = sep then [] # Split sep cs
      else (case Split sep cs of [] \<Rightarrow> [[c]] | p # ps \<Rightarrow> (c # p) # ps))"

fun Join :: "string \<Rightarrow> string list \<Rightarrow> string" where
  "Join sep [] = []"
| "Join sep [p] = p"
| "Join sep (p # q # ps) = p @ sep @ Join sep (q # ps)"

lemma Split_not_Nil [simp]: "Split sep s \<noteq> []"
  by (induction sep s rule: Split.induct) (auto split: list.splits)

lemma Split_no_sep: "p \<in> set (Split sep s) \<Longrightarrow> sep \<notin> set p"
proof (induction sep s arbitrary: p rule: Split.induct)
  case (2 sep c cs)
  then show ?case by (auto split: list.splits if_splits)
qed simp

lemma Join_Split [simp]: "Join [sep] (Split sep s) = s"
proof (induction sep s rule: Split.induct)
  case (2 sep c cs)
  obtain p ps where "Split sep cs = p # ps"
    by (cases "Split sep cs") auto
  with 2 show ?case by (cases ps) auto
qed simp

lemma Split_single: "Split sep s = [p] \<Longrightarrow> p = s"
  using Join_Split[of sep s] by simp

lemma Split_length_one_iff: "length (Split sep s) = 1 \<longleftrightarrow> sep \<notin> set s"
proof (induction sep s rule: Split.induct)
  case (2 sep c cs)
  then show ?case by (auto split: list.splits)
qed simp

section \<open>White space\<close>

text \<open>The UTF-8 encodings of the characters for which \<open>unicode.IsSpace\<close> holds.\<close>

definition space_seqs :: "string list" where
  "space_seqs =
     [[CHR 0x20], [CHR 0x09], [CHR 0x0A], [CHR 0x0B], [CHR 0x0C], [CHR 0x0D],
      [CHR 0xC2, CHR 0x85], [CHR 0xC2, CHR 0xA0], [CHR 0xE1, CHR 0x9A, CHR 0x80],
      [CHR 0xE2, CHR 0x80, CHR 0x80], [CHR 0xE2, CHR 0x80, CHR 0x81], [CHR 0xE2, CHR 0x80, CHR 0x82],
      [CHR 0xE2, CHR 0x80, CHR 0x83], [CHR 0xE2, CHR 0x80, CHR 0x84], [CHR 0xE2, CHR 0x80, CHR 0x85],
      [CHR 0xE2, CHR 0x80, CHR 0x86], [CHR 0xE2, CHR 0x80, CHR 0x87], [CHR 0xE2, CHR 0x80, CHR 0x88],
      [CHR 0xE2, CHR 0x80, CHR 0x89], [CHR 0xE2, CHR 0x80, CHR 0x8A], [CHR 0xE2, CHR 0x80, CHR 0xA8],
      [CHR 0xE2, CHR 0x80, CHR 0xA9], [CHR 0xE2, CHR 0x80, CHR 0xAF], [CHR 0xE2, CHR 0x81, CHR 0x9F],
      [CHR 0xE3, CHR 0x80, CHR 0x80]]"

function TrimLeftWith :: "string list \<Rightarrow> string \<Rightarrow> string" where
  "TrimLeftWith pats s =
     (case find (\<lambda>p. p \<noteq> [] \<and> HasPrefix s p) pats of
        None \<Rightarrow> s
      | Some p \<Rightarrow> TrimLeftWith pats (drop (length p) s))"
  by pat_completeness auto
termination
proof (relation "measure (\<lambda>(pats, s). length s)")
  fix pats :: "string list" and s p :: string
  assume "find (\<lambda>p. p \<noteq> [] \<and> HasPrefix s p) pats = Some p"
  then have "p \<noteq> []" "HasPrefix s p"
    by (auto simp: find_Some_iff)
  then have "0 < length p" "length p \<le> length s"
    by (auto simp: HasPrefix_split)
  then have "length s - length p < length s" by linarith
  then show "((pats, drop (length p) s), (pats, s)) \<in> measure (\<lambda>(pats, s). length s)"
    by simp
qed simp

declare TrimLeftWith.simps [simp del]

definition TrimSpace :: "string \<Rightarrow> string" where
  "TrimSpace s = rev (TrimLeftWith (map rev space_seqs) (rev (TrimLeftWith space_seqs s)))"

definition no_left :: "string list \<Rightarrow> string \<Rightarrow> bool" where
  "no_left pats s \<longleftrightarrow> (\<forall>p \<in> set pats. p \<noteq> [] \<longrightarrow> \<not> HasPrefix s p)"

lemma TrimLeftWith_fix: "no_left pats s \<Longrightarrow> TrimLeftWith pats s = s"
proof -
  assume "no_left pats s"
  then have "find (\<lambda>p. p \<noteq> [] \<and> HasPrefix s p) pats = None"
    by (auto simp: no_left_def find_None_iff)
  then show ?thesis by (subst TrimLeftWith.simps) simp
qed

lemma TrimLeftWith_no_left: "no_left pats (TrimLeftWith pats s)"
proof (induction pats s rule: TrimLeftWith.induct)
  case (1 pats s)
  show ?case
  proof (cases "find (\<lambda>p. p \<noteq> [] \<and> HasPrefix s p) pats")
    case None
    then have "TrimLeftWith pats s = s" by (subst TrimLeftWith.simps) simp
    moreover from None have "no_left pats s" by (auto simp: find_None_iff no_left_def)
    ultimately show ?thesis by simp
  next
    case (Some p)
    with 1[OF Some] show ?thesis by (subst TrimLeftWith.simps) simp
  qed
qed

lemma TrimLeftWith_suffix: "suffix (TrimLeftWith pats s) s"
proof (induction pats s rule: TrimLeftWith.induct)
  case (1 pats s)
  show ?case
  proof (cases "find (\<lambda>p. p \<noteq> [] \<and> HasPrefix s p) pats")
    case None
    then show ?thesis by (subst TrimLeftWith.simps) simp
  next
    case (Some p)
    from 1[OF Some] have "suffix (TrimLeftWith pats (drop (length p) s)) s"
      using suffix_drop suffix_order.order_trans by blast
    with Some show ?thesis by (subst TrimLeftWith.simps) simp
  qed
qed

lemma no_left_prefix: "no_left pats s \<Longrightarrow> prefix t s \<Longrightarrow> no_left pats t"
  by (meson no_left_def HasPrefix_iff prefix_order.order_trans)

lemma TrimSpace_prefix: "prefix (TrimSpace s) (TrimLeftWith space_seqs s)"
proof -
  have "suffix (TrimLeftWith (map rev space_seqs) (rev (TrimLeftWith space_seqs s)))
          (rev (TrimLeftWith space_seqs s))"
    by (rule TrimLeftWith_suffix)
  then show ?thesis by (simp add: TrimSpace_def suffix_to_prefix)
qed

lemma TrimSpace_idem [simp]: "TrimSpace (TrimSpace s) = TrimSpace s"
proof -
  have "no_left space_seqs (TrimSpace s)"
    using no_left_prefix[OF TrimLeftWith_no_left TrimSpace_prefix] .
  then have l: "TrimLeftWith space_seqs (TrimSpace s) = TrimSpace s"
    by (rule TrimLeftWith_fix)
  have "no_left (map rev space_seqs) (rev (TrimSpace s))"
    by (simp add: TrimSpace_def TrimLeftWith_no_left)
  then have "TrimLeftWith (map rev space_seqs) (rev (TrimSpace s)) = rev (TrimSpace s)"
    by (rule TrimLeftWith_fix)
  with l show ?thesis by (subst TrimSpace_def) simp
qed

lemma TrimSpace_sublist: "sublist (TrimSpace s) s"
proof -
  obtain u where u: "s = u @ TrimLeftWith space_seqs s"
    using TrimLeftWith_suffix[of space_seqs s] by (auto simp: suffix_def)
  obtain v where v: "TrimLeftWith space_seqs s = TrimSpace s @ v"
    using TrimSpace_prefix[of s] by (auto simp: prefix_def)
  from u v have "s = u @ TrimSpace s @ v" by simp
  then show ?thesis by (metis sublist_def)
qed

lemma TrimSpace_Nil [simp]: "TrimSpace [] = []"
  using TrimSpace_sublist[of "[]"] by simp

text \<open>A visible ASCII character is no part of a white-space encoding.\<close>

definition visible :: "char \<Rightarrow> bool" where
  "visible c \<longleftrightarrow> 33 \<le> (of_char c :: nat) \<and> (of_char c :: nat) \<le> 126"

lemma TrimSpace_visible:
  assumes "s \<noteq> []" and "visible (hd s)" and "visible (last s)"
  shows "TrimSpace s = s"
proof -
  have 1: "no_left space_seqs s"
    using assms(1,2) by (cases s) (auto simp: no_left_def space_seqs_def HasPrefix_def visible_def)
  obtain t c where t: "rev s = c # t" "visible c"
    using assms(1,3) by (cases s rule: rev_cases) auto
  then have 2: "no_left (map rev space_seqs) (rev s)"
    by (auto simp: no_left_def space_seqs_def HasPrefix_def visible_def)
  from 1 2 show ?thesis
    by (simp add: TrimSpace_def TrimLeftWith_fix)
qed


lemma TrimLeftWith_visible_last:
  "s \<noteq> [] \<Longrightarrow> visible (last s) \<Longrightarrow> \<forall>p \<in> set pats. p \<noteq> [] \<longrightarrow> \<not> visible (last p) \<Longrightarrow>
   TrimLeftWith pats s \<noteq> [] \<and> last (TrimLeftWith pats s) = last s"
proof (induction pats s rule: TrimLeftWith.induct)
  case (1 pats s)
  show ?case
  proof (cases "find (\<lambda>p. p \<noteq> [] \<and> HasPrefix s p) pats")
    case None
    with "1.prems"(1) show ?thesis by (subst (1 2) TrimLeftWith.simps) simp
  next
    case (Some p)
    then have p: "p \<in> set pats" "p \<noteq> []" "HasPrefix s p" by (auto simp: find_Some_iff)
    then obtain u where u: "s = p @ u" by (auto simp: HasPrefix_split)
    with p "1.prems"(2,3) have "u \<noteq> []" by auto
    with 1(1)[OF Some] "1.prems"(2,3) u Some show ?thesis by (subst (1 2) TrimLeftWith.simps) simp
  qed
qed

lemma TrimSpace_visible_last:
  assumes "s \<noteq> []" and "visible (last s)"
  shows "TrimSpace s \<noteq> []"
proof -
  have seqs: "\<forall>p \<in> set space_seqs. p \<noteq> [] \<longrightarrow> \<not> visible (last p)" by (simp add: space_seqs_def visible_def)
  note l = TrimLeftWith_visible_last[OF assms seqs]
  let ?t = "TrimLeftWith space_seqs s"
  obtain c r where r: "rev ?t = c # r" "visible c"
    using l assms(2) by (cases ?t rule: rev_cases) auto
  then have "no_left (map rev space_seqs) (rev ?t)"
    by (auto simp: no_left_def space_seqs_def HasPrefix_def visible_def)
  then have "TrimSpace s = ?t" by (simp add: TrimSpace_def TrimLeftWith_fix)
  with l show ?thesis by simp
qed

section \<open>Decimal numbers\<close>

definition digit_char :: "nat \<Rightarrow> char" where
  "digit_char d = char_of (48 + d)"

definition digit_val :: "char \<Rightarrow> nat option" where
  "digit_val c = (if 48 \<le> (of_char c :: nat) \<and> (of_char c :: nat) \<le> 57
                  then Some ((of_char c :: nat) - 48) else None)"

fun digits_of :: "nat \<Rightarrow> string" where
  "digits_of n = (if n < 10 then [digit_char n] else digits_of (n div 10) @ [digit_char (n mod 10)])"

declare digits_of.simps [simp del]

definition Itoa :: "int \<Rightarrow> string" where
  "Itoa n = (if n < 0 then CHR ''-'' # digits_of (nat (- n)) else digits_of (nat n))"

fun parse_digits :: "nat \<Rightarrow> string \<Rightarrow> nat option" where
  "parse_digits acc [] = Some acc"
| "parse_digits acc (c # cs) =
     (case digit_val c of None \<Rightarrow> None | Some d \<Rightarrow> parse_digits (10 * acc + d) cs)"

definition parse_uint :: "string \<Rightarrow> nat option" where
  "parse_uint s = (if s = [] then None else parse_digits 0 s)"

text \<open>A decimal integer of any size, with an optional sign.\<close>

definition parse_int :: "string \<Rightarrow> int option" where
  "parse_int s =
     (case s of
        [] \<Rightarrow> None
      | c # cs \<Rightarrow>
          (if c = CHR ''-'' then map_option (\<lambda>n. - int n) (parse_uint cs)
           else if c = CHR ''+'' then map_option int (parse_uint cs)
           else map_option int (parse_uint s)))"

definition in_int64 :: "int \<Rightarrow> bool" where
  "in_int64 n \<longleftrightarrow> - (2 ^ 63) \<le> n \<and> n \<le> 2 ^ 63 - 1"

text \<open>\<open>strconv.ParseInt(s, 10, 64)\<close>: a syntax or a range error is \<open>None\<close>.\<close>

definition ParseInt64 :: "string \<Rightarrow> int option" where
  "ParseInt64 s =
     (case parse_int s of None \<Rightarrow> None | Some n \<Rightarrow> if in_int64 n then Some n else None)"

lemma digit_val_digit_char [simp]: "d < 10 \<Longrightarrow> digit_val (digit_char d) = Some d"
  by (auto simp: digit_val_def digit_char_def)

lemma digits_of_not_Nil [simp]: "digits_of n \<noteq> []"
  by (subst digits_of.simps) simp

lemma parse_digits_append:
  "parse_digits acc (s @ t) =
     (case parse_digits acc s of None \<Rightarrow> None | Some a \<Rightarrow> parse_digits a t)"
  by (induction s arbitrary: acc) (auto split: option.splits)

lemma parse_digits_of: "parse_digits 0 (digits_of n) = Some n"
proof (induction n rule: digits_of.induct)
  case (1 n)
  show ?case
  proof (cases "n < 10")
    case True
    then show ?thesis by (subst digits_of.simps) simp
  next
    case False
    with 1 have "parse_digits 0 (digits_of (n div 10)) = Some (n div 10)" by simp
    with False show ?thesis
      by (subst digits_of.simps) (simp add: parse_digits_append)
  qed
qed

lemma hd_digits_of: "\<exists>d < 10. hd (digits_of n) = digit_char d"
proof (induction n rule: digits_of.induct)
  case (1 n)
  show ?case
  proof (cases "n < 10")
    case True
    then show ?thesis by (subst digits_of.simps) auto
  next
    case False
    with 1 show ?thesis by (subst digits_of.simps) simp
  qed
qed

lemma last_digits_of: "\<exists>d < 10. last (digits_of n) = digit_char d"
  by (subst digits_of.simps) (auto intro: exI [of _ "n mod 10"])

lemma visible_digit_char [simp]: "d < 10 \<Longrightarrow> visible (digit_char d)"
  by (auto simp: visible_def digit_char_def)

lemma digit_char_no_sign: "d < 10 \<Longrightarrow> digit_char d \<noteq> CHR ''-'' \<and> digit_char d \<noteq> CHR ''+''"
proof -
  assume "d < 10"
  then have "(of_char (digit_char d) :: nat) = 48 + d" by (simp add: digit_char_def)
  moreover have "(of_char (CHR ''-'') :: nat) = 45" "(of_char (CHR ''+'') :: nat) = 43" by simp_all
  ultimately show ?thesis by auto
qed

lemma Itoa_not_Nil [simp]: "Itoa n \<noteq> []"
  by (simp add: Itoa_def)

lemma parse_int_Itoa [simp]: "parse_int (Itoa n) = Some n"
proof (cases "n < 0")
  case True
  then show ?thesis by (simp add: parse_int_def Itoa_def parse_uint_def parse_digits_of)
next
  case False
  obtain d cs where d: "digits_of (nat n) = digit_char d # cs" "d < 10"
    using hd_digits_of[of "nat n"] by (metis digits_of_not_Nil list.collapse)
  have "parse_digits 0 (digit_char d # cs) = Some (nat n)"
    using parse_digits_of[of "nat n"] d(1) by simp
  with False d digit_char_no_sign[OF d(2)] show ?thesis
    by (simp add: parse_int_def Itoa_def parse_uint_def)
qed

lemma ParseInt64_Itoa [simp]: "in_int64 n \<Longrightarrow> ParseInt64 (Itoa n) = Some n"
  by (simp add: ParseInt64_def)

lemma TrimSpace_Itoa [simp]: "TrimSpace (Itoa n) = Itoa n"
proof (rule TrimSpace_visible)
  show "Itoa n \<noteq> []" by (simp add: Itoa_def)
  show "visible (hd (Itoa n))"
    using hd_digits_of[of "nat n"] by (auto simp: Itoa_def) (simp add: visible_def)
  show "visible (last (Itoa n))"
    using last_digits_of[of "nat n"] last_digits_of[of "nat (- n)"] by (auto simp: Itoa_def)
qed

section \<open>Calls over the network\<close>

text \<open>
  What becomes of a command sent to a server: it was executed and answered; it was not executed; it was executed, but the
  caller got an error, as when its deadline passed before the answer.
\<close>

datatype round_trip = Answered | NotSent | ReplyLost

section \<open>Instants and durations\<close>

type_synonym gotime = int \<comment> \<open>nanoseconds\<close>
type_synonym duration = int \<comment> \<open>nanoseconds, a signed 64-bit value\<close>

definition Millisecond :: duration where [go_def]: "Millisecond = 1000000"
definition Second :: duration where [go_def]: "Second = 1000000000"
definition Minute :: duration where [go_def]: "Minute = 60000000000"
definition Hour :: duration where [go_def]: "Hour = 3600000000000"

definition max_duration :: duration where "max_duration = 2 ^ 63 - 1"
definition min_duration :: duration where "min_duration = - (2 ^ 63)"

text \<open>A product or sum of 64-bit signed integers wraps around.\<close>

definition wrap64 :: "int \<Rightarrow> int" where
  "wrap64 n = (n + 2 ^ 63) mod 2 ^ 64 - 2 ^ 63"

lemma wrap64_exact: "in_int64 n \<Longrightarrow> wrap64 n = n"
proof -
  assume "in_int64 n"
  then have "0 \<le> n + 2 ^ 63" "n + 2 ^ 63 < 2 ^ 64" by (auto simp: in_int64_def)
  then show ?thesis by (simp add: wrap64_def)
qed

lemma in_int64_wrap64: "in_int64 (wrap64 n)"
proof -
  have "0 \<le> (n + 2 ^ 63) mod 2 ^ 64" "(n + 2 ^ 63) mod 2 ^ 64 < (2 ^ 64 :: int)" by simp_all
  then show ?thesis by (simp add: wrap64_def in_int64_def)
qed

text \<open>\<open>Time.Sub\<close> returns the nearest representable duration.\<close>

definition time_sub :: "gotime \<Rightarrow> gotime \<Rightarrow> duration" where
  "time_sub t u = max min_duration (min max_duration (t - u))"

lemma time_sub_exact: "in_int64 (t - u) \<Longrightarrow> time_sub t u = t - u"
  by (auto simp: time_sub_def in_int64_def max_duration_def min_duration_def)

lemma time_sub_le_zero_iff: "time_sub t u \<le> 0 \<longleftrightarrow> t \<le> u"
  by (auto simp: time_sub_def max_duration_def min_duration_def)

lemma sdiv_nonneg: "0 \<le> a \<Longrightarrow> 0 < b \<Longrightarrow> (a :: int) sdiv b = a div b"
  by (cases "a = 0") (simp_all add: signed_divide_int_def)

lemma smod_nonneg: "0 \<le> a \<Longrightarrow> 0 < b \<Longrightarrow> (a :: int) smod b = a mod b"
  by (cases "a = 0") (simp_all add: signed_modulo_int_def)

section \<open>Results and options\<close>

definition is_err :: "('e + 'a) \<Rightarrow> bool" where
  "is_err r = (case r of Inl _ \<Rightarrow> True | Inr _ \<Rightarrow> False)"

definition bind_res :: "('e + 'a) \<Rightarrow> ('a \<Rightarrow> ('e + 'b)) \<Rightarrow> ('e + 'b)" where
  "bind_res r f = (case r of Inl e \<Rightarrow> Inl e | Inr a \<Rightarrow> f a)"

lemma bind_res_simps [simp]: "bind_res (Inl e) f = Inl e" "bind_res (Inr a) f = f a"
  by (simp_all add: bind_res_def)

lemma bind_res_Inr_iff: "bind_res r f = Inr b \<longleftrightarrow> (\<exists>a. r = Inr a \<and> f a = Inr b)"
  by (cases r) auto

text \<open>A least element of a list under a strict comparison: the shape of the selection loops.\<close>

fun fold_best :: "('a \<Rightarrow> 'a \<Rightarrow> bool) \<Rightarrow> 'a option \<Rightarrow> 'a list \<Rightarrow> 'a option" where
  "fold_best better b [] = b"
| "fold_best better None (x # xs) = fold_best better (Some x) xs"
| "fold_best better (Some b) (x # xs) =
     fold_best better (Some (if better x b then x else b)) xs"

lemma fold_best_None_iff: "fold_best better b xs = None \<longleftrightarrow> b = None \<and> xs = []"
  by (induction better b xs rule: fold_best.induct) auto

lemma fold_best_member:
  "fold_best better b xs = Some r \<Longrightarrow> r \<in> set_option b \<union> set xs"
  by (induction better b xs rule: fold_best.induct) (auto split: if_splits)

lemma fold_best_optimal:
  assumes asym: "\<And>x y. better x y \<Longrightarrow> \<not> better y x"
    and negtrans: "\<And>x y z. \<not> better x y \<Longrightarrow> \<not> better y z \<Longrightarrow> \<not> better x z"
  shows "fold_best better b xs = Some r \<Longrightarrow> y \<in> set_option b \<union> set xs \<Longrightarrow> \<not> better y r"
proof (induction xs arbitrary: b y)
  case Nil
  then have "y = r" by auto
  then show ?case using asym by blast
next
  case (Cons x xs)
  show ?case
  proof (cases b)
    case None
    with Cons show ?thesis by auto
  next
    case (Some c)
    let ?b' = "if better x c then x else c"
    have rest: "fold_best better (Some ?b') xs = Some r" using Cons.prems(1) Some by simp
    have new: "\<not> better ?b' r" using Cons.IH[OF rest] by simp
    have "\<not> better c r \<and> \<not> better x r"
    proof (cases "better x c")
      case True
      with new have "\<not> better x r" by simp
      with negtrans[OF asym[OF True]] show ?thesis by blast
    next
      case False
      with new have "\<not> better c r" by simp
      with negtrans[OF False] show ?thesis by blast
    qed
    then show ?thesis using Cons.IH[OF rest] Cons.prems(2) Some by auto
  qed
qed

section \<open>Stable sorting by a strict comparison\<close>

text \<open>\<open>sort.SliceStable\<close>: for a strict weak order every stable sort gives the same list.\<close>

fun insert_by :: "('a \<Rightarrow> 'a \<Rightarrow> bool) \<Rightarrow> 'a \<Rightarrow> 'a list \<Rightarrow> 'a list" where
  "insert_by lt x [] = [x]"
| "insert_by lt x (y # ys) = (if lt y x then y # insert_by lt x ys else x # y # ys)"

definition sort_by :: "('a \<Rightarrow> 'a \<Rightarrow> bool) \<Rightarrow> 'a list \<Rightarrow> 'a list" where
  "sort_by lt xs = foldr (insert_by lt) xs []"

lemma sort_by_simps [simp]:
  "sort_by lt [] = []" "sort_by lt (x # xs) = insert_by lt x (sort_by lt xs)"
  by (simp_all add: sort_by_def)

lemma set_insert_by [simp]: "set (insert_by lt x xs) = insert x (set xs)"
  by (induction xs) auto

lemma set_sort_by [simp]: "set (sort_by lt xs) = set xs"
  by (induction xs) auto

lemma length_insert_by [simp]: "length (insert_by lt x xs) = Suc (length xs)"
  by (induction xs) auto

lemma length_sort_by [simp]: "length (sort_by lt xs) = length xs"
  by (induction xs) auto

lemma sort_by_Nil_iff [simp]: "sort_by lt xs = [] \<longleftrightarrow> xs = []"
  by (metis length_0_conv length_sort_by)

lemma distinct_insert_by [simp]: "distinct (insert_by lt x xs) \<longleftrightarrow> x \<notin> set xs \<and> distinct xs"
  by (induction xs) auto

lemma distinct_sort_by [simp]: "distinct (sort_by lt xs) \<longleftrightarrow> distinct xs"
  by (induction xs) auto

definition strict_weak :: "('a \<Rightarrow> 'a \<Rightarrow> bool) \<Rightarrow> bool" where
  "strict_weak lt \<longleftrightarrow>
     (\<forall>x y. lt x y \<longrightarrow> \<not> lt y x) \<and> (\<forall>x y z. \<not> lt x y \<longrightarrow> \<not> lt y z \<longrightarrow> \<not> lt x z)"

lemma hd_sort_by_optimal:
  assumes "strict_weak lt" and "z \<in> set xs"
  shows "\<not> lt z (hd (sort_by lt xs))"
proof -
  have asym: "\<And>a b. lt a b \<Longrightarrow> \<not> lt b a"
    and negtrans: "\<And>a b c. \<not> lt a b \<Longrightarrow> \<not> lt b c \<Longrightarrow> \<not> lt a c"
    using assms(1) unfolding strict_weak_def by blast+
  from assms(2) show ?thesis
  proof (induction xs)
    case (Cons x xs)
    show ?case
    proof (cases "sort_by lt xs")
      case Nil
      with Cons.prems have "z = x" by simp
      with Nil asym[of x x] show ?thesis by auto
    next
      case sorted: (Cons y ys)
      have h: "hd (sort_by lt (x # xs)) = (if lt y x then y else x)" using sorted by simp
      show ?thesis
      proof (cases "z = x")
        case True
        with h asym[of y x] asym[of x x] show ?thesis by auto
      next
        case False
        with Cons sorted have "\<not> lt z y" by simp
        with h negtrans[of z y x] show ?thesis by auto
      qed
    qed
  qed simp
qed

lemma hd_sort_by_in: "xs \<noteq> [] \<Longrightarrow> hd (sort_by lt xs) \<in> set xs"
  by (metis list.set_sel(1) set_sort_by sort_by_Nil_iff)

lemma strict_weak_key: "strict_weak (\<lambda>x y. (f x :: 'b :: linorder) < f y)"
  by (auto simp: strict_weak_def)

section \<open>Valid UTF-8\<close>

definition byte_in :: "nat \<Rightarrow> nat \<Rightarrow> char \<Rightarrow> bool" where
  "byte_in lo hi c \<longleftrightarrow> lo \<le> (of_char c :: nat) \<and> (of_char c :: nat) \<le> hi"

text \<open>The length of the well-formed encoding a string starts with; 0 when there is none.\<close>

definition rune_len :: "string \<Rightarrow> nat" where
  "rune_len s =
     (case s of
        [] \<Rightarrow> 0
      | a # r \<Rightarrow>
          (let tail = (\<lambda>lo hi n. n \<le> length r \<and> byte_in lo hi (hd r) \<and> list_all (byte_in 0x80 0xBF) (take (n - 1) (tl r)))
           in if byte_in 0 0x7F a then 1
              else if byte_in 0xC2 0xDF a then (if tail 0x80 0xBF 1 then 2 else 0)
              else if byte_in 0xE0 0xE0 a then (if tail 0xA0 0xBF 2 then 3 else 0)
              else if byte_in 0xE1 0xEC a \<or> byte_in 0xEE 0xEF a then (if tail 0x80 0xBF 2 then 3 else 0)
              else if byte_in 0xED 0xED a then (if tail 0x80 0x9F 2 then 3 else 0)
              else if byte_in 0xF0 0xF0 a then (if tail 0x90 0xBF 3 then 4 else 0)
              else if byte_in 0xF1 0xF3 a then (if tail 0x80 0xBF 3 then 4 else 0)
              else if byte_in 0xF4 0xF4 a then (if tail 0x80 0x8F 3 then 4 else 0)
              else 0))"

function ValidString :: "string \<Rightarrow> bool" where
  "ValidString s =
     (if s = [] then True else if rune_len s = 0 then False else ValidString (drop (rune_len s) s))"
  by pat_completeness auto
termination
  by (relation "measure length") auto

declare ValidString.simps [simp del]

lemma ValidString_Nil [simp]: "ValidString []"
  by (subst ValidString.simps) simp

lemma rune_len_bounds: "rune_len s \<le> length s \<and> rune_len s \<le> 4"
  by (auto simp: rune_len_def Let_def split: list.splits)

end
