(* ===== verification/RedisStore.thy ===== *)
theory RedisStore
  imports GoPrelude "HOL-Library.AList"
begin

text \<open>
  The Redis commands that the Lua scripts and the Go code issue on hashes, as the command
  reference documents them. A key holds a hash (fields and values are byte strings) and an optional
  expiry instant in milliseconds; a key whose expiry is not in the future is absent, and a hash
  that loses its last field is removed with its expiry. One script runs atomically at one reading
  of the server clock, which every command takes as its argument \<open>now\<close>.
\<close>

record redis_entry =
  hfields :: "(string \<times> string) list"
  expire_at :: "int option"

type_synonym redis = "string \<rightharpoonup> redis_entry"

definition live :: "int \<Rightarrow> redis \<Rightarrow> string \<Rightarrow> redis_entry option" where
  "live now db k =
     (case db k of
        None \<Rightarrow> None
      | Some e \<Rightarrow>
          (case expire_at e of
             None \<Rightarrow> Some e
           | Some t \<Rightarrow> if t \<le> now then None else Some e))"

definition HGET :: "int \<Rightarrow> redis \<Rightarrow> string \<Rightarrow> string \<Rightarrow> string option" where
  "HGET now db k f =
     (case live now db k of None \<Rightarrow> None | Some e \<Rightarrow> map_of (hfields e) f)"

definition HSET :: "int \<Rightarrow> redis \<Rightarrow> string \<Rightarrow> (string \<times> string) list \<Rightarrow> redis" where
  "HSET now db k fvs =
     (let e = (case live now db k of None \<Rightarrow> \<lparr>hfields = [], expire_at = None\<rparr> | Some e \<Rightarrow> e)
      in db(k \<mapsto> e\<lparr>hfields := fold (\<lambda>(f, v). AList.update f v) fvs (hfields e)\<rparr>))"

definition HDEL :: "int \<Rightarrow> redis \<Rightarrow> string \<Rightarrow> string list \<Rightarrow> redis" where
  "HDEL now db k fs =
     (case live now db k of
        None \<Rightarrow> db(k := None)
      | Some e \<Rightarrow>
          (let al = fold AList.delete fs (hfields e)
           in if al = [] then db(k := None) else db(k \<mapsto> e\<lparr>hfields := al\<rparr>)))"

definition PEXPIRE :: "int \<Rightarrow> redis \<Rightarrow> string \<Rightarrow> int \<Rightarrow> redis" where
  "PEXPIRE now db k ms =
     (case live now db k of
        None \<Rightarrow> db(k := None)
      | Some e \<Rightarrow> if ms \<le> 0 then db(k := None) else db(k \<mapsto> e\<lparr>expire_at := Some (now + ms)\<rparr>))"

section \<open>What a read returns after a write\<close>

lemma HGET_other [simp]:
  "k' \<noteq> k \<Longrightarrow> HGET now (HSET t db k fvs) k' f = HGET now db k' f"
  "k' \<noteq> k \<Longrightarrow> HGET now (HDEL t db k fs) k' f = HGET now db k' f"
  "k' \<noteq> k \<Longrightarrow> HGET now (PEXPIRE t db k ms) k' f = HGET now db k' f"
  by (auto simp: HGET_def HSET_def HDEL_def PEXPIRE_def live_def Let_def split: option.splits)

lemma map_of_fold_update:
  "map_of (fold (\<lambda>(f, v). AList.update f v) fvs al) f =
     (case map_of (rev fvs) f of Some v \<Rightarrow> Some v | None \<Rightarrow> map_of al f)"
proof (induction fvs arbitrary: al)
  case (Cons p fvs)
  then show ?case
    by (cases p) (auto simp: AList.update_conv' map_add_def split: option.splits)
qed simp

lemma map_of_fold_delete:
  "map_of (fold AList.delete fs al) f = (if f \<in> set fs then None else map_of al f)"
  by (induction fs arbitrary: al) (auto simp: delete_conv')

lemma HGET_HSET_same:
  "HGET now (HSET now db k fvs) k f =
     (case map_of (rev fvs) f of Some v \<Rightarrow> Some v | None \<Rightarrow> HGET now db k f)"
  by (auto simp: HGET_def HSET_def live_def Let_def map_of_fold_update split: option.splits)

lemma HGET_HDEL_same:
  "HGET now (HDEL now db k fs) k f = (if f \<in> set fs then None else HGET now db k f)"
proof (cases "live now db k")
  case None
  then show ?thesis by (simp add: HGET_def HDEL_def live_def)
next
  case (Some e)
  then show ?thesis
    using map_of_fold_delete[of fs "hfields e" f]
    by (auto simp: HGET_def HDEL_def live_def Let_def split: option.splits if_splits)
qed

lemma HGET_PEXPIRE_later:
  "0 < ms \<Longrightarrow> HGET t (PEXPIRE now db k ms) k f = (if t < now + ms then HGET now db k f else None)"
  by (auto simp: HGET_def PEXPIRE_def live_def split: option.splits)


definition base_fields :: "int \<Rightarrow> redis \<Rightarrow> string \<Rightarrow> (string \<times> string) list" where
  "base_fields now db k = (case live now db k of None \<Rightarrow> [] | Some e \<Rightarrow> hfields e)"

lemma HGET_base: "HGET now db k f = map_of (base_fields now db k) f"
  by (simp add: HGET_def base_fields_def split: option.splits)

text \<open>The idiom of every script that writes: set fields, then give the key a new time to live.\<close>

lemma PEXPIRE_HSET:
  assumes "0 < ms"
  shows "PEXPIRE now (HSET now db k fvs) k ms =
    db(k \<mapsto> \<lparr>hfields = fold (\<lambda>(f, v). AList.update f v) fvs (base_fields now db k),
              expire_at = Some (now + ms)\<rparr>)"
  using assms
  by (auto simp: PEXPIRE_def HSET_def live_def base_fields_def Let_def split: option.splits)

lemma live_cases:
  "live now db k = Some e \<Longrightarrow> db k = Some e"
  by (auto simp: live_def split: option.splits if_splits)

lemma HDEL_entry:
  "HDEL now db k fs k' = Some e' \<Longrightarrow>
     (k' \<noteq> k \<and> db k' = Some e') \<or>
     (k' = k \<and> (\<exists>e. db k = Some e \<and> expire_at e' = expire_at e \<and> hfields e' = fold AList.delete fs (hfields e)))"
  by (auto simp: HDEL_def Let_def split: option.splits if_splits dest: live_cases)

end
