(* ===== verification/KiroCooldown.thy ===== *)
theory KiroCooldown
  imports RedisStore
begin

text \<open>
  The cooldown store of Kiro tokens, \<open>internal/pkg/kirocooldown/store.go\<close>, and the wrappers of
  \<open>internal/service/kiro_runtime_state.go\<close>: four Lua scripts over one Redis hash per token, the Go
  methods that run them and parse their replies, and the computation of the backoff. The digest of
  a token key (SHA-256, hexadecimal) is the parameter \<open>h\<close>; whether a call to Redis fails is an
  argument of each method.
\<close>

section \<open>Constants and data\<close>

definition CooldownReason429 :: string where "CooldownReason429 = ''rate_limit_exceeded''"
definition CooldownReasonSuspended :: string where "CooldownReasonSuspended = ''account_suspended''"

definition ShortCooldown :: duration where "ShortCooldown = Minute"
definition MaxCooldown :: duration where "MaxCooldown = 5 * Minute"
definition LongCooldown :: duration where "LongCooldown = 24 * Hour"
definition activeTTL :: duration where "activeTTL = 10 * Second"
definition stateTTL :: duration where "stateTTL = 25 * Hour"
definition keyPrefix :: string where "keyPrefix = ''kiro:cooldown:''"

definition Milliseconds :: "duration \<Rightarrow> int" where
  "Milliseconds d = d sdiv Millisecond"

lemma cooldown_millis [simp]:
  "Milliseconds ShortCooldown = 60000" "Milliseconds MaxCooldown = 300000"
  "Milliseconds LongCooldown = 86400000" "Milliseconds activeTTL = 10000"
  "Milliseconds stateTTL = 90000000"
  by (simp_all add: Milliseconds_def ShortCooldown_def MaxCooldown_def LongCooldown_def
      activeTTL_def stateTTL_def go_def sdiv_nonneg)

text \<open>A value of a Redis reply as the client library hands it to Go.\<close>

datatype lua_val = LInt int | LStr string | LBytes string | LNil | LOther

datatype cd_error =
    ErrStoreUnavailable
  | ErrRedis string              \<comment> \<open>the call failed; the wrapped operation\<close>
  | ErrReply string              \<comment> \<open>a reply of the wrong shape or with an unreadable number\<close>
  | ErrCooldown duration string  \<comment> \<open>the type \<open>kirocooldown.Error\<close>: remaining time and reason\<close>

record State =
  Active :: bool
  Reason :: string
  CooldownUntil :: gotime
  Remaining :: duration
  FailCount :: int

definition RedisKey :: "(string \<Rightarrow> string) \<Rightarrow> string \<Rightarrow> string" where
  "RedisKey h tokenKey = keyPrefix @ ''{'' @ h (TrimSpace tokenKey) @ ''}''"

lemma RedisKey_Trim [simp]: "RedisKey h (TrimSpace tk) = RedisKey h tk"
  by (simp add: RedisKey_def)

definition ActiveTTL :: duration where "ActiveTTL = activeTTL"
definition StateTTL :: duration where "StateTTL = stateTTL"

definition luaInt64 :: "lua_val \<Rightarrow> cd_error + int" where
  "luaInt64 v =
     (case v of
        LInt n \<Rightarrow> Inr n
      | LStr s \<Rightarrow> (case ParseInt64 (TrimSpace s) of None \<Rightarrow> Inl (ErrReply ''parse'') | Some n \<Rightarrow> Inr n)
      | LBytes s \<Rightarrow> (case ParseInt64 (TrimSpace s) of None \<Rightarrow> Inl (ErrReply ''parse'') | Some n \<Rightarrow> Inr n)
      | LNil \<Rightarrow> Inl (ErrReply ''unsupported lua numeric type'')
      | LOther \<Rightarrow> Inl (ErrReply ''unsupported lua numeric type''))"

definition luaString :: "lua_val \<Rightarrow> cd_error + string" where
  "luaString v =
     (case v of
        LStr s \<Rightarrow> Inr s
      | LBytes s \<Rightarrow> Inr s
      | LNil \<Rightarrow> Inr []
      | LInt _ \<Rightarrow> Inl (ErrReply ''unsupported lua string type'')
      | LOther \<Rightarrow> Inl (ErrReply ''unsupported lua string type''))"

text \<open>The receiver: \<open>None\<close> a nil store, \<open>Some False\<close> a store without a client.\<close>

definition validate :: "bool option \<Rightarrow> cd_error option" where
  "validate s = (case s of Some True \<Rightarrow> None | _ \<Rightarrow> Some ErrStoreUnavailable)"

section \<open>The backoff computed in Go, on 64-bit signed integers\<close>

definition Calculate429Cooldown :: "64 word \<Rightarrow> 64 word" where
  "Calculate429Cooldown retryCount =
     (let retryCount = (if retryCount <s 0 then 0 else retryCount);
          cooldown = word_of_int ShortCooldown * push_bit (unat retryCount) 1
      in if word_of_int MaxCooldown <s cooldown then word_of_int MaxCooldown else cooldown)"

section \<open>The Lua scripts\<close>

text \<open>
  \<open>tonumber\<close> is modelled on decimal integers, the only numbers the scripts store; any other text
  raises the script's error. The clock is the pair returned by \<open>TIME\<close>.
\<close>

definition redis_now_ms :: "int \<times> int \<Rightarrow> int" where
  "redis_now_ms t = fst t * 1000 + snd t div 1000"

definition get_or :: "string \<Rightarrow> string option \<Rightarrow> string" where
  "get_or d v = (case v of None \<Rightarrow> d | Some s \<Rightarrow> s)"

definition checkCooldownScript :: "int \<Rightarrow> redis \<Rightarrow> string \<Rightarrow> redis \<times> (cd_error + lua_val list)" where
  "checkCooldownScript now_ms db k =
     (let until = parse_int (get_or ''0'' (HGET now_ms db k ''cooldown_until_ms''));
          reason = get_or [] (HGET now_ms db k ''cooldown_reason'');
          db1 = HDEL now_ms db k [''last_request_ms'']
      in case until of
           None \<Rightarrow> (db1, Inl (ErrRedis ''script''))
         | Some u \<Rightarrow>
             if u > now_ms then (db1, Inr [LInt 1, LInt (u - now_ms), LStr reason])
             else (if u > 0 then HDEL now_ms db1 k [''cooldown_until_ms'', ''cooldown_reason''] else db1,
                   Inr [LInt 0, LInt 0, LStr []]))"

definition mark429Script ::
    "int \<Rightarrow> redis \<Rightarrow> string \<Rightarrow> int \<Rightarrow> int \<Rightarrow> int \<Rightarrow> string \<Rightarrow> redis \<times> (cd_error + lua_val)" where
  "mark429Script now_ms db k short_ms max_ms ttl_ms reason =
     (case parse_int (get_or ''0'' (HGET now_ms db k ''fail_count'')) of
        None \<Rightarrow> (db, Inl (ErrRedis ''script''))
      | Some n \<Rightarrow>
          (let fail_count = n + 1;
               raw = short_ms * 2 ^ nat (fail_count - 1);
               cooldown_ms = (if raw > max_ms then max_ms else raw);
               db1 = HSET now_ms db k
                       [(''fail_count'', Itoa fail_count),
                        (''cooldown_until_ms'', Itoa (now_ms + cooldown_ms)),
                        (''cooldown_reason'', reason)]
           in (PEXPIRE now_ms db1 k ttl_ms, Inr (LInt cooldown_ms))))"

definition markSuccessScript :: "int \<Rightarrow> redis \<Rightarrow> string \<Rightarrow> int \<Rightarrow> redis \<times> lua_val" where
  "markSuccessScript now_ms db k ttl_ms =
     (let db1 = HSET now_ms db k
                  [(''fail_count'', Itoa 0), (''cooldown_until_ms'', Itoa 0), (''cooldown_reason'', [])]
      in (PEXPIRE now_ms db1 k ttl_ms, LInt 1))"

definition markSuspendedScript ::
    "int \<Rightarrow> redis \<Rightarrow> string \<Rightarrow> int \<Rightarrow> int \<Rightarrow> string \<Rightarrow> redis \<times> lua_val" where
  "markSuspendedScript now_ms db k cooldown_ms ttl_ms reason =
     (let db1 = HSET now_ms db k
                  [(''fail_count'', Itoa 0),
                   (''cooldown_until_ms'', Itoa (now_ms + cooldown_ms)),
                   (''cooldown_reason'', reason)]
      in (PEXPIRE now_ms db1 k ttl_ms, LInt cooldown_ms))"

section \<open>The methods of the store\<close>

text \<open>\<open>fault\<close> is the outcome of the network call: \<open>True\<close> when Redis returned an error.\<close>

definition parse_check_reply :: "lua_val list \<Rightarrow> cd_error option" where
  "parse_check_reply parts =
     (if length parts \<noteq> 3 then Some (ErrReply ''unexpected response'')
      else case luaInt64 (parts ! 0) of
             Inl e \<Rightarrow> Some e
           | Inr state \<Rightarrow>
               (case luaInt64 (parts ! 1) of
                  Inl e \<Rightarrow> Some e
                | Inr waitMS \<Rightarrow>
                    (case luaString (parts ! 2) of
                       Inl e \<Rightarrow> Some e
                     | Inr reason \<Rightarrow>
                         if state = 1 then Some (ErrCooldown (wrap64 (waitMS * Millisecond)) reason)
                         else None)))"

definition CheckCooldown ::
    "(string \<Rightarrow> string) \<Rightarrow> bool option \<Rightarrow> bool \<Rightarrow> int \<times> int \<Rightarrow> redis \<Rightarrow> string \<Rightarrow> redis \<times> cd_error option" where
  "CheckCooldown h s fault t db tokenKey =
     (case validate s of
        Some e \<Rightarrow> (db, Some e)
      | None \<Rightarrow>
          if fault then (db, Some (ErrRedis ''check''))
          else (case checkCooldownScript (redis_now_ms t) db (RedisKey h tokenKey) of
                  (db', Inl e) \<Rightarrow> (db', Some e)
                | (db', Inr parts) \<Rightarrow> (db', parse_check_reply parts)))"

definition MarkSuccess ::
    "(string \<Rightarrow> string) \<Rightarrow> bool option \<Rightarrow> bool \<Rightarrow> int \<times> int \<Rightarrow> redis \<Rightarrow> string \<Rightarrow> redis \<times> cd_error option" where
  "MarkSuccess h s fault t db tokenKey =
     (case validate s of
        Some e \<Rightarrow> (db, Some e)
      | None \<Rightarrow>
          if fault then (db, Some (ErrRedis ''mark success''))
          else (fst (markSuccessScript (redis_now_ms t) db (RedisKey h tokenKey) (Milliseconds activeTTL)),
                None))"

definition Mark429 ::
    "(string \<Rightarrow> string) \<Rightarrow> bool option \<Rightarrow> bool \<Rightarrow> int \<times> int \<Rightarrow> redis \<Rightarrow> string \<Rightarrow> redis \<times> (cd_error + duration)" where
  "Mark429 h s fault t db tokenKey =
     (case validate s of
        Some e \<Rightarrow> (db, Inl e)
      | None \<Rightarrow>
          if fault then (db, Inl (ErrRedis ''mark 429''))
          else (case mark429Script (redis_now_ms t) db (RedisKey h tokenKey)
                       (Milliseconds ShortCooldown) (Milliseconds MaxCooldown)
                       (Milliseconds stateTTL) CooldownReason429 of
                  (db', Inl e) \<Rightarrow> (db', Inl e)
                | (db', Inr v) \<Rightarrow>
                    (db', (case luaInt64 v of Inl e \<Rightarrow> Inl e
                           | Inr ms \<Rightarrow> Inr (wrap64 (ms * Millisecond))))))"

definition MarkSuspended ::
    "(string \<Rightarrow> string) \<Rightarrow> bool option \<Rightarrow> bool \<Rightarrow> int \<times> int \<Rightarrow> redis \<Rightarrow> string \<Rightarrow> redis \<times> (cd_error + duration)" where
  "MarkSuspended h s fault t db tokenKey =
     (case validate s of
        Some e \<Rightarrow> (db, Inl e)
      | None \<Rightarrow>
          if fault then (db, Inl (ErrRedis ''mark suspended''))
          else (case markSuspendedScript (redis_now_ms t) db (RedisKey h tokenKey)
                       (Milliseconds LongCooldown) (Milliseconds stateTTL) CooldownReasonSuspended of
                  (db', v) \<Rightarrow>
                    (db', (case luaInt64 v of Inl e \<Rightarrow> Inl e
                           | Inr ms \<Rightarrow> Inr (wrap64 (ms * Millisecond))))))"

text \<open>The three values of \<open>HMGET\<close>, and the reading of a number that may be absent.\<close>

definition HMGET3 :: "int \<Rightarrow> redis \<Rightarrow> string \<Rightarrow> lua_val list" where
  "HMGET3 now_ms db k =
     map (\<lambda>f. case HGET now_ms db k f of None \<Rightarrow> LNil | Some v \<Rightarrow> LStr v)
       [''cooldown_until_ms'', ''cooldown_reason'', ''fail_count'']"

definition luaInt64_or0 :: "lua_val \<Rightarrow> cd_error + int" where
  "luaInt64_or0 v = (case luaInt64 v of Inr n \<Rightarrow> Inr n | Inl e \<Rightarrow> if v = LNil then Inr 0 else Inl e)"

definition read_state :: "lua_val list \<Rightarrow> cd_error + (int \<times> string \<times> int)" where
  "read_state vs =
     (if length vs \<noteq> 3 then Inl (ErrReply ''unexpected response length'')
      else bind_res (luaInt64_or0 (vs ! 0)) (\<lambda>u.
           bind_res (luaString (vs ! 1)) (\<lambda>reason.
           bind_res (luaInt64_or0 (vs ! 2)) (\<lambda>n. Inr (u, reason, n)))))"

definition GetState ::
    "(string \<Rightarrow> string) \<Rightarrow> bool option \<Rightarrow> bool \<Rightarrow> int \<times> int \<Rightarrow> gotime \<Rightarrow> redis \<Rightarrow> string
       \<Rightarrow> cd_error + State option" where
  "GetState h s fault t now db tokenKey =
     (case validate s of
        Some e \<Rightarrow> Inl e
      | None \<Rightarrow>
          if fault then Inl (ErrRedis ''get state'')
          else bind_res (read_state (HMGET3 (redis_now_ms t) db (RedisKey h tokenKey)))
                 (\<lambda>(u, reason, n).
                    if u \<le> 0 then Inr None
                    else let cooldownUntil = u * Millisecond; remaining = time_sub cooldownUntil now
                         in if remaining \<le> 0 then Inr None
                            else Inr (Some \<lparr>Active = True, Reason = reason, CooldownUntil = cooldownUntil,
                                            Remaining = remaining, FailCount = n\<rparr>)))"

text \<open>\<open>ClearEarliestTransientCooldown\<close>: the keys without repetition, the scan, the choice, the clearing.\<close>

fun unique_keys :: "(string \<Rightarrow> string) \<Rightarrow> string list \<Rightarrow> string list \<Rightarrow> string list" where
  "unique_keys h seen [] = []"
| "unique_keys h seen (tk # tks) =
     (let tk' = TrimSpace tk; rk = RedisKey h tk'
      in if tk' = [] then unique_keys h seen tks
         else if rk \<in> set seen then unique_keys h seen tks
         else rk # unique_keys h (rk # seen) tks)"

record candidate =
  redisKey :: string
  cooldownUntilMS :: int
  failCount :: int

definition better_candidate :: "candidate \<Rightarrow> candidate \<Rightarrow> bool" where
  "better_candidate c b \<longleftrightarrow>
     cooldownUntilMS c < cooldownUntilMS b \<or>
     (cooldownUntilMS c = cooldownUntilMS b \<and> failCount c < failCount b)"

fun scan_candidates ::
    "int \<Rightarrow> (string \<Rightarrow> lua_val list) \<Rightarrow> candidate option \<Rightarrow> string list \<Rightarrow> cd_error + candidate option" where
  "scan_candidates now read best [] = Inr best"
| "scan_candidates now read best (k # ks) =
     (case read_state (read k) of
        Inl e \<Rightarrow> Inl e
      | Inr (u, reason, n) \<Rightarrow>
          if u \<le> now \<or> reason \<noteq> CooldownReason429 then scan_candidates now read best ks
          else let c = \<lparr>redisKey = k, cooldownUntilMS = u, failCount = n\<rparr>
               in scan_candidates now read
                    (case best of
                       None \<Rightarrow> Some c
                     | Some b \<Rightarrow> Some (if better_candidate c b then c else b)) ks)"

text \<open>
  The function makes one round trip to read every key, one to delete and one to renew the life of the chosen key;
  other processes run between them. A job is what is left to do: the keys still to read with what was read so far
  (\<open>now\<close> is the clock of the process), the deletion, the expiry, or the result.
\<close>

datatype clear_job =
    ClearScan int "string list" "(string \<times> lua_val list) list"
  | ClearDel int "(string \<times> lua_val list) list" string
  | ClearExpire string
  | ClearDone "cd_error + bool"

definition ClearEarliestTransientCooldown ::
    "(string \<Rightarrow> string) \<Rightarrow> bool option \<Rightarrow> int \<Rightarrow> string list \<Rightarrow> clear_job" where
  "ClearEarliestTransientCooldown h s now tokenKeys =
     (case validate s of
        Some e \<Rightarrow> ClearDone (Inl e)
      | None \<Rightarrow>
          (let ks = unique_keys h [] tokenKeys
           in if ks = [] then ClearDone (Inr False) else ClearScan now ks []))"

definition scan_done :: "int \<Rightarrow> (string \<times> lua_val list) list \<Rightarrow> clear_job" where
  "scan_done now reads =
     (case scan_candidates now (\<lambda>k. the (map_of reads k)) None (map fst reads) of
        Inl e \<Rightarrow> ClearDone (Inl e)
      | Inr None \<Rightarrow> ClearDone (Inr False)
      | Inr (Some b) \<Rightarrow> ClearDel now reads (redisKey b))"

text \<open>One round trip, at the clock \<open>r\<close> of Redis. A command whose reply is lost is an error for the caller, but it was
  executed; an error in the pipeline ends the scan.\<close>

fun clear_next :: "round_trip \<Rightarrow> int \<Rightarrow> redis \<times> clear_job \<Rightarrow> redis \<times> clear_job" where
  "clear_next trip r (db, ClearScan now [] reads) = (db, scan_done now reads)"
| "clear_next trip r (db, ClearScan now (k # ks) reads) =
     (if trip \<noteq> Answered then (db, ClearDone (Inl (ErrRedis ''clear transient scan'')))
      else (let reads = reads @ [(k, HMGET3 r db k)]
            in (db, if ks = [] then scan_done now reads else ClearScan now ks reads)))"
| "clear_next trip r (db, ClearDel now reads k) =
     ((if trip = NotSent then db else HDEL r db k [''cooldown_until_ms'', ''cooldown_reason'']),
      (if trip = Answered then ClearExpire k else ClearDone (Inl (ErrRedis ''clear transient''))))"
| "clear_next trip r (db, ClearExpire k) =
     ((if trip = NotSent then db else PEXPIRE r db k (Milliseconds activeTTL)),
      ClearDone (if trip = Answered then Inr True else Inl (ErrRedis ''clear transient ttl'')))"
| "clear_next trip r (db, ClearDone v) = (db, ClearDone v)"

section \<open>The representation invariant\<close>

text \<open>
  The numeric fields hold decimal numerals. A key covers its cooldown when its life does not end before the cooldown
  it stores.
\<close>

definition wf_num :: "string \<Rightarrow> bool" where
  "wf_num v \<longleftrightarrow> (case parse_int v of None \<Rightarrow> False | Some n \<Rightarrow> 0 \<le> n \<and> v = Itoa n)"

definition covers :: "int option \<Rightarrow> int \<Rightarrow> bool" where
  "covers x u \<longleftrightarrow> (case x of None \<Rightarrow> False | Some t \<Rightarrow> u \<le> t)"

definition wf_entry :: "redis_entry \<Rightarrow> bool" where
  "wf_entry e \<longleftrightarrow>
     (case map_of (hfields e) ''fail_count'' of None \<Rightarrow> True | Some v \<Rightarrow> wf_num v) \<and>
     (case map_of (hfields e) ''cooldown_until_ms'' of None \<Rightarrow> True | Some v \<Rightarrow> wf_num v)"

definition covered :: "redis_entry \<Rightarrow> bool" where
  "covered e \<longleftrightarrow>
     (case map_of (hfields e) ''cooldown_until_ms'' of
        None \<Rightarrow> True
      | Some v \<Rightarrow> v = Itoa 0 \<or> covers (expire_at e) (the (parse_int v)))"

definition wf_db :: "redis \<Rightarrow> bool" where
  "wf_db db \<longleftrightarrow> (\<forall>k e. db k = Some e \<longrightarrow> wf_entry e)"

lemma wf_num_Itoa [simp]: "wf_num (Itoa n) \<longleftrightarrow> 0 \<le> n"
  by (simp add: wf_num_def)

lemma wf_numE: "wf_num v \<Longrightarrow> \<exists>n\<ge>0. v = Itoa n"
  by (auto simp: wf_num_def split: option.splits)

lemma wf_db_upd: "wf_db db \<Longrightarrow> wf_entry e \<Longrightarrow> wf_db (db(k \<mapsto> e))"
  by (simp add: wf_db_def)

lemma wf_dbD: "wf_db db \<Longrightarrow> db k = Some e \<Longrightarrow> wf_entry e"
  by (simp add: wf_db_def)

lemma wf_entry_fail: "wf_entry e \<Longrightarrow> map_of (hfields e) ''fail_count'' = Some v \<Longrightarrow> wf_num v"
  by (simp add: wf_entry_def)

lemma wf_entry_until:
  "wf_entry e \<Longrightarrow> map_of (hfields e) ''cooldown_until_ms'' = Some v \<Longrightarrow> wf_num v"
  by (simp add: wf_entry_def)

lemma wf_db_HDEL: "wf_db db \<Longrightarrow> wf_db (HDEL now db k fs)"
proof -
  assume wf: "wf_db db"
  have "wf_entry e'" if new: "HDEL now db k fs k' = Some e'" for k' e'
  proof (cases "k' = k")
    case False
    with HDEL_entry[OF new] wf show ?thesis by (blast intro: wf_dbD)
  next
    case True
    with HDEL_entry[OF new] obtain e where e: "db k = Some e" "expire_at e' = expire_at e"
      "hfields e' = fold AList.delete fs (hfields e)" by blast
    from wf_dbD[OF wf e(1)] show ?thesis
      by (auto simp: wf_entry_def e(2,3) map_of_fold_delete split: option.split)
  qed
  then show ?thesis by (simp add: wf_db_def)
qed

lemma parse_int_zero [simp]: "parse_int ''0'' = Some 0"
  by (simp add: parse_int_def parse_uint_def digit_val_def)

lemma number_read:
  assumes "wf_db db" and "f = ''fail_count'' \<or> f = ''cooldown_until_ms''"
  shows "\<exists>n\<ge>0. parse_int (get_or ''0'' (HGET now db k f)) = Some n"
proof (cases "HGET now db k f")
  case None
  then show ?thesis by (simp add: get_or_def)
next
  case (Some v)
  then obtain e where e: "live now db k = Some e" "map_of (hfields e) f = Some v"
    by (auto simp: HGET_def split: option.splits)
  from wf_dbD[OF assms(1) live_cases[OF e(1)]] e(2) assms(2) have "wf_num v"
    by (auto dest: wf_entry_fail wf_entry_until)
  then obtain n where "n \<ge> 0" "v = Itoa n" using wf_numE by blast
  with Some show ?thesis by (simp add: get_or_def)
qed

section \<open>What each operation does\<close>

text \<open>The stored failure count and end of cooldown, as the scripts read them.\<close>

definition fails :: "int \<Rightarrow> redis \<Rightarrow> string \<Rightarrow> int" where
  "fails now db k = the (parse_int (get_or ''0'' (HGET now db k ''fail_count'')))"

definition until_ms :: "int \<Rightarrow> redis \<Rightarrow> string \<Rightarrow> int" where
  "until_ms now db k = the (parse_int (get_or ''0'' (HGET now db k ''cooldown_until_ms'')))"

definition reason_of :: "int \<Rightarrow> redis \<Rightarrow> string \<Rightarrow> string" where
  "reason_of now db k = get_or [] (HGET now db k ''cooldown_reason'')"

lemma fails_read:
  "wf_db db \<Longrightarrow> parse_int (get_or ''0'' (HGET now db k ''fail_count'')) = Some (fails now db k) \<and> 0 \<le> fails now db k"
  using number_read[of db "''fail_count''" now k] by (auto simp: fails_def)

lemma until_read:
  "wf_db db \<Longrightarrow> parse_int (get_or ''0'' (HGET now db k ''cooldown_until_ms'')) = Some (until_ms now db k)
     \<and> 0 \<le> until_ms now db k"
  using number_read[of db "''cooldown_until_ms''" now k] by (auto simp: until_ms_def)

text \<open>The backoff: it doubles with every failure and is capped.\<close>

definition backoff_ms :: "int \<Rightarrow> int" where
  "backoff_ms n = min 300000 (60000 * 2 ^ nat n)"

lemma backoff_bounds: "60000 \<le> backoff_ms n \<and> backoff_ms n \<le> 300000"
proof -
  have "(1::int) \<le> 2 ^ nat n" by simp
  then show ?thesis by (simp add: backoff_ms_def)
qed

lemma backoff_mono: "m \<le> n \<Longrightarrow> backoff_ms m \<le> backoff_ms n"
proof -
  assume "m \<le> n"
  then have "(2::int) ^ nat m \<le> 2 ^ nat n" by (intro power_increasing) auto
  then have "60000 * (2::int) ^ nat m \<le> 60000 * 2 ^ nat n" by simp
  then show ?thesis unfolding backoff_ms_def by linarith
qed

definition written :: "int \<Rightarrow> redis \<Rightarrow> string \<Rightarrow> int \<Rightarrow> int \<Rightarrow> string \<Rightarrow> int \<Rightarrow> redis" where
  "written now db k n u reason ttl =
     db(k \<mapsto> \<lparr>hfields = fold (\<lambda>(f, v). AList.update f v)
                 [(''fail_count'', Itoa n), (''cooldown_until_ms'', Itoa u), (''cooldown_reason'', reason)]
                 (base_fields now db k),
               expire_at = Some (now + ttl)\<rparr>)"

lemma mark429Script_eq:
  assumes "wf_db db"
  shows "mark429Script now db k 60000 300000 90000000 reason =
    (written now db k (fails now db k + 1) (now + backoff_ms (fails now db k)) reason 90000000,
     Inr (LInt (backoff_ms (fails now db k))))"
  by (auto simp: mark429Script_def fails_read[OF assms] Let_def PEXPIRE_HSET written_def
      backoff_ms_def min_def)

lemma markSuccessScript_eq:
  "markSuccessScript now db k 10000 = (written now db k 0 0 [] 10000, LInt 1)"
  by (simp add: markSuccessScript_def Let_def PEXPIRE_HSET written_def)

lemma markSuspendedScript_eq:
  "markSuspendedScript now db k 86400000 90000000 reason =
     (written now db k 0 (now + 86400000) reason 90000000, LInt 86400000)"
  by (simp add: markSuspendedScript_def Let_def PEXPIRE_HSET written_def)

lemma written_fields:
  "map_of (hfields (the (written now db k n u reason ttl k))) ''fail_count'' = Some (Itoa n)"
  "map_of (hfields (the (written now db k n u reason ttl k))) ''cooldown_until_ms'' = Some (Itoa u)"
  "map_of (hfields (the (written now db k n u reason ttl k))) ''cooldown_reason'' = Some reason"
  by (simp_all add: written_def map_of_fold_update AList.update_conv')

lemma live_written:
  "live t (written now db k n u reason ttl) k =
     (if t < now + ttl then written now db k n u reason ttl k else None)"
  by (auto simp: live_def written_def)

lemma HGET_written:
  "t < now + ttl \<Longrightarrow> HGET t (written now db k n u reason ttl) k f =
     map_of (hfields (the (written now db k n u reason ttl k))) f"
  by (simp add: HGET_def live_written) (simp add: written_def)

lemma read_written:
  assumes "t < now + ttl"
  shows "fails t (written now db k n u reason ttl) k = n"
    and "until_ms t (written now db k n u reason ttl) k = u"
    and "reason_of t (written now db k n u reason ttl) k = reason"
  using assms by (simp_all add: fails_def until_ms_def reason_of_def HGET_written written_fields get_or_def)

lemma read_written_expired:
  assumes "now + ttl \<le> t"
  shows "HGET t (written now db k n u reason ttl) k f = None"
  using assms by (simp add: HGET_def live_written)

lemma written_other: "k' \<noteq> k \<Longrightarrow> written now db k n u reason ttl k' = db k'"
  by (simp add: written_def)

lemma wf_db_written:
  assumes "wf_db db" "0 \<le> n" "0 \<le> u"
  shows "wf_db (written now db k n u reason ttl)"
proof -
  let ?e = "the (written now db k n u reason ttl k)"
  have "wf_entry ?e"
    using assms(2,3) by (simp add: wf_entry_def written_fields)
  then show ?thesis
    using assms(1) by (auto simp: wf_db_def written_def)
qed


text \<open>\<open>CheckCooldown\<close> on a well-formed store: an error exactly while the cooldown lasts.\<close>

lemma parse_check_reply_on [simp]:
  "parse_check_reply [LInt 1, LInt w, LStr r] = Some (ErrCooldown (wrap64 (w * Millisecond)) r)"
  "parse_check_reply [LInt 0, LInt w, LStr r] = None"
  by (simp_all add: parse_check_reply_def luaInt64_def luaString_def)

lemma CheckCooldown_result:
  assumes "wf_db db" and now: "redis_now_ms t = now" and k: "RedisKey h tk = k"
  shows "snd (CheckCooldown h (Some True) False t db tk) =
    (if now < until_ms now db k
     then Some (ErrCooldown (wrap64 ((until_ms now db k - now) * Millisecond)) (reason_of now db k))
     else None)"
  by (simp add: CheckCooldown_def validate_def now k checkCooldownScript_def until_read[OF assms(1)]
      Let_def reason_of_def)

lemma CheckCooldown_wf:
  "wf_db db \<Longrightarrow> wf_db (fst (CheckCooldown h s f t db tk))"
  by (auto simp: CheckCooldown_def checkCooldownScript_def Let_def wf_db_HDEL
      split: option.splits prod.splits sum.splits if_splits)

lemma CheckCooldown_other:
  "k \<noteq> RedisKey h tk \<Longrightarrow> fst (CheckCooldown h s f t db tk) k = db k"
  by (auto simp: CheckCooldown_def checkCooldownScript_def Let_def HDEL_def
      split: option.splits prod.splits sum.splits if_splits)

lemma Mark429_eq:
  assumes "wf_db db" and now: "redis_now_ms t = now" and k: "RedisKey h tk = k"
  shows "Mark429 h (Some True) False t db tk =
    (written now db k (fails now db k + 1) (now + backoff_ms (fails now db k)) CooldownReason429 90000000,
     Inr (backoff_ms (fails now db k) * Millisecond))"
proof -
  have "in_int64 (backoff_ms (fails now db k) * Millisecond)"
    using backoff_bounds[of "fails now db k"] by (simp add: in_int64_def go_def)
  then show ?thesis
    by (simp add: Mark429_def validate_def now k mark429Script_eq[OF assms(1)] luaInt64_def wrap64_exact)
qed

lemma MarkSuccess_eq:
  assumes now: "redis_now_ms t = now" and k: "RedisKey h tk = k"
  shows "MarkSuccess h (Some True) False t db tk = (written now db k 0 0 [] 10000, None)"
  by (simp add: MarkSuccess_def validate_def now k markSuccessScript_eq)

lemma MarkSuspended_eq:
  assumes now: "redis_now_ms t = now" and k: "RedisKey h tk = k"
  shows "MarkSuspended h (Some True) False t db tk =
    (written now db k 0 (now + 86400000) CooldownReasonSuspended 90000000, Inr LongCooldown)"
proof -
  have "wrap64 (86400000 * Millisecond) = LongCooldown"
    by (simp add: wrap64_exact in_int64_def go_def LongCooldown_def)
  then show ?thesis
    by (simp add: MarkSuspended_def validate_def now k markSuspendedScript_eq luaInt64_def)
qed

text \<open>A failing call, or a store without a client, changes nothing.\<close>

lemma store_failure_frame:
  assumes "s \<noteq> Some True \<or> f"
  shows "fst (CheckCooldown h s f t db tk) = db" "snd (CheckCooldown h s f t db tk) \<noteq> None"
    "fst (MarkSuccess h s f t db tk) = db" "snd (MarkSuccess h s f t db tk) \<noteq> None"
    "fst (Mark429 h s f t db tk) = db" "is_err (snd (Mark429 h s f t db tk))"
    "fst (MarkSuspended h s f t db tk) = db" "is_err (snd (MarkSuspended h s f t db tk))"
  using assms
  by (auto simp: CheckCooldown_def MarkSuccess_def Mark429_def MarkSuspended_def validate_def is_err_def
      split: option.splits bool.splits)

section \<open>Clearing the earliest transient cooldown\<close>

lemma unique_keys_seen: "k \<in> set (unique_keys h seen tks) \<Longrightarrow> k \<notin> set seen"
  by (induction h seen tks rule: unique_keys.induct) (auto simp: Let_def split: if_splits)

lemma distinct_unique_keys: "distinct (unique_keys h seen tks)"
proof (induction h seen tks rule: unique_keys.induct)
  case (2 h seen tk tks)
  then show ?case using unique_keys_seen by (auto simp: Let_def) (metis list.set_intros(1))
qed simp


text \<open>The loop is a selection of a least element among the transient cooldowns still running.\<close>

definition transient :: "int \<Rightarrow> (string \<Rightarrow> lua_val list) \<Rightarrow> string \<Rightarrow> candidate list" where
  "transient now read k =
     (case read_state (read k) of
        Inl _ \<Rightarrow> []
      | Inr (u, reason, n) \<Rightarrow>
          if u \<le> now \<or> reason \<noteq> CooldownReason429 then []
          else [\<lparr>redisKey = k, cooldownUntilMS = u, failCount = n\<rparr>])"

lemma scan_candidates_best:
  "scan_candidates now read best ks = Inr r \<Longrightarrow>
     r = fold_best better_candidate best (concat (map (transient now read) ks))"
proof (induction ks arbitrary: best)
  case (Cons k ks)
  then obtain u reason n where rs: "read_state (read k) = Inr (u, reason, n)"
    by (auto split: sum.splits)
  with Cons show ?case
    by (cases best) (auto simp: transient_def Let_def split: if_splits)
qed simp

lemma better_candidate_order:
  "better_candidate x y \<Longrightarrow> \<not> better_candidate y x"
  "\<not> better_candidate x y \<Longrightarrow> \<not> better_candidate y z \<Longrightarrow> \<not> better_candidate x z"
  by (auto simp: better_candidate_def)

lemma scan_candidates_least:
  assumes "scan_candidates now read None ks = Inr (Some b)"
  shows "b \<in> set (concat (map (transient now read) ks))"
    and "c \<in> set (concat (map (transient now read) ks)) \<Longrightarrow> \<not> better_candidate c b"
  using fold_best_member[OF scan_candidates_best[OF assms, symmetric]]
    fold_best_optimal[OF better_candidate_order scan_candidates_best[OF assms, symmetric]]
  by auto

lemma number_field:
  assumes "wf_db db" and "f = ''fail_count'' \<or> f = ''cooldown_until_ms''"
  shows "HGET now db k f = None \<or> (\<exists>n\<ge>0. HGET now db k f = Some (Itoa n))"
proof (cases "HGET now db k f")
  case (Some v)
  then obtain e where e: "live now db k = Some e" "map_of (hfields e) f = Some v"
    by (auto simp: HGET_def split: option.splits)
  from wf_dbD[OF assms(1) live_cases[OF e(1)]] e(2) assms(2) have "wf_num v"
    by (auto dest: wf_entry_fail wf_entry_until)
  with Some show ?thesis using wf_numE by blast
qed simp

lemma read_number:
  assumes "HGET now db k f = None \<or> (\<exists>n\<ge>0. HGET now db k f = Some (Itoa n))"
    and "n = the (parse_int (get_or ''0'' (HGET now db k f)))"
  shows "luaInt64_or0 (case HGET now db k f of None \<Rightarrow> LNil | Some v \<Rightarrow> LStr v) =
    (if in_int64 n then Inr n else Inl (ErrReply ''parse''))"
  using assms
  by (auto simp: luaInt64_or0_def luaInt64_def get_or_def ParseInt64_def)
     (simp_all add: in_int64_def)

lemma read_state_HMGET3:
  assumes "wf_db db"
  shows "read_state (HMGET3 now db k) =
    (if in_int64 (until_ms now db k) \<and> in_int64 (fails now db k)
     then Inr (until_ms now db k, reason_of now db k, fails now db k)
     else Inl (ErrReply ''parse''))"
proof -
  have u: "luaInt64_or0 (case HGET now db k ''cooldown_until_ms'' of None \<Rightarrow> LNil | Some v \<Rightarrow> LStr v) =
      (if in_int64 (until_ms now db k) then Inr (until_ms now db k) else Inl (ErrReply ''parse''))"
    by (rule read_number[OF number_field[OF assms]]) (simp_all add: until_ms_def)
  have n: "luaInt64_or0 (case HGET now db k ''fail_count'' of None \<Rightarrow> LNil | Some v \<Rightarrow> LStr v) =
      (if in_int64 (fails now db k) then Inr (fails now db k) else Inl (ErrReply ''parse''))"
    by (rule read_number[OF number_field[OF assms]]) (simp_all add: fails_def)
  have r: "luaString (case HGET now db k ''cooldown_reason'' of None \<Rightarrow> LNil | Some v \<Rightarrow> LStr v) =
      Inr (reason_of now db k)"
    by (simp add: luaString_def reason_of_def get_or_def split: option.split)
  show ?thesis by (simp add: read_state_def HMGET3_def u n r)
qed

lemma scan_candidates_readable:
  "scan_candidates now read best ks = Inr x \<Longrightarrow> k \<in> set ks \<Longrightarrow> \<exists>y. read_state (read k) = Inr y"
proof (induction ks arbitrary: best)
  case (Cons k' ks)
  then show ?case by (auto simp: Let_def split: sum.splits if_splits prod.splits)
qed simp

lemma transient_iff:
  assumes "wf_db db" and "scan_candidates now (HMGET3 r db) None ks = Inr x" and "k \<in> set ks"
  shows "c \<in> set (transient now (HMGET3 r db) k) \<longleftrightarrow>
    now < until_ms r db k \<and> reason_of r db k = CooldownReason429 \<and>
    c = \<lparr>redisKey = k, cooldownUntilMS = until_ms r db k, failCount = fails r db k\<rparr>"
proof -
  obtain y where "read_state (HMGET3 r db k) = Inr y"
    using scan_candidates_readable[OF assms(2,3)] by blast
  then have "read_state (HMGET3 r db k) = Inr (until_ms r db k, reason_of r db k, fails r db k)"
    using read_state_HMGET3[OF assms(1), of r k] by (auto split: if_splits)
  then show ?thesis by (auto simp: transient_def)
qed

text \<open>The key a scan chooses: among the keys read it is the rate-limit cooldown still running that ends first.\<close>

definition chosen :: "int \<Rightarrow> (string \<times> lua_val list) list \<Rightarrow> string \<Rightarrow> bool" where
  "chosen now reads k \<longleftrightarrow>
     (\<exists>v u n. map_of reads k = Some v \<and> read_state v = Inr (u, CooldownReason429, n) \<and> now < u \<and>
        (\<forall>(k', v') \<in> set reads. \<forall>u' n'. read_state v' = Inr (u', CooldownReason429, n') \<and> now < u' \<longrightarrow> u \<le> u'))"

lemma transient_reads:
  "c \<in> set (transient now read k) \<longleftrightarrow>
     (\<exists>u n. read_state (read k) = Inr (u, CooldownReason429, n) \<and> now < u \<and>
        c = \<lparr>redisKey = k, cooldownUntilMS = u, failCount = n\<rparr>)"
proof (cases "read_state (read k)")
  case (Inr y)
  obtain u reason n where "y = (u, reason, n)" by (cases y) auto
  with Inr show ?thesis by (auto simp: transient_def not_le)
qed (simp add: transient_def)

lemma scan_done_cases:
  assumes "distinct (map fst reads)"
  shows "(\<exists>v. scan_done now reads = ClearDone v) \<or> (\<exists>k. scan_done now reads = ClearDel now reads k \<and> chosen now reads k)"
proof -
  let ?read = "\<lambda>k. the (map_of reads k)" and ?ks = "map fst reads"
  show ?thesis
  proof (cases "\<exists>b. scan_candidates now ?read None ?ks = Inr (Some b)")
    case False
    then show ?thesis by (auto simp: scan_done_def split: sum.splits option.splits)
  next
    case True
    then obtain b where b: "scan_candidates now ?read None ?ks = Inr (Some b)" by blast
    note least = scan_candidates_least[OF b]
    obtain k u n where k: "k \<in> set ?ks" "read_state (?read k) = Inr (u, CooldownReason429, n)" "now < u"
        "b = \<lparr>redisKey = k, cooldownUntilMS = u, failCount = n\<rparr>"
      using least(1) by (auto simp: transient_reads)
    have min: "u \<le> u'"
      if c: "(k', v') \<in> set reads" "read_state v' = Inr (u', CooldownReason429, n')" "now < u'" for k' v' u' n'
    proof -
      let ?c = "\<lparr>redisKey = k', cooldownUntilMS = u', failCount = n'\<rparr>"
      have "map_of reads k' = Some v'" using assms c(1) by simp
      then have "?c \<in> set (transient now ?read k')" using c(2,3) by (simp add: transient_reads)
      moreover have "k' \<in> set ?ks" using c(1) by force
      ultimately have "\<not> better_candidate ?c b" by (intro least(2)) auto
      then show ?thesis by (auto simp: better_candidate_def k(4))
    qed
    obtain v where v: "map_of reads k = Some v" using k(1) by (auto simp: map_of_eq_None_iff dest: weak_map_of_SomeI)
    have "chosen now reads k"
      unfolding chosen_def using v k(2,3) min by (intro exI[of _ v] exI[of _ u] exI[of _ n]) auto
    then show ?thesis using b k(4) by (auto simp: scan_done_def)
  qed
qed

section \<open>The store as a transition system\<close>

text \<open>
  A state is the clock of Redis in milliseconds, the database, the clearings that are under way, and the keys whose life
  a clearing shortened although they held a cooldown again, until they are marked anew. Requests of any processes interleave: each script and each
  round trip of a clearing is one atomic step at the current clock, failing or not, and the clock only moves forward.
\<close>

definition cooling :: "int \<Rightarrow> redis \<Rightarrow> string \<Rightarrow> bool" where
  "cooling now db k \<longleftrightarrow> HGET now db k ''cooldown_until_ms'' \<notin> {None, Some (Itoa 0)}"

definition shortens :: "round_trip \<Rightarrow> int \<Rightarrow> redis \<Rightarrow> clear_job \<Rightarrow> string set" where
  "shortens trip now db j = (case j of ClearExpire k \<Rightarrow> if trip \<noteq> NotSent \<and> cooling now db k then {k} else {} | _ \<Rightarrow> {})"

definition marked :: "(string \<Rightarrow> string) \<Rightarrow> bool option \<Rightarrow> bool \<Rightarrow> string \<Rightarrow> string set" where
  "marked h s f tk = (if s = Some True \<and> \<not> f then {RedisKey h tk} else {})"

type_synonym cd_state = "int \<times> redis \<times> clear_job list \<times> string set"

inductive cd_step :: "(string \<Rightarrow> string) \<Rightarrow> cd_state \<Rightarrow> cd_state \<Rightarrow> bool" for h where
  tick: "now \<le> now' \<Longrightarrow> cd_step h (now, db, js, late) (now', db, js, late)"
| check: "redis_now_ms t = now \<Longrightarrow> cd_step h (now, db, js, late) (now, fst (CheckCooldown h s f t db tk), js, late)"
| success: "redis_now_ms t = now \<Longrightarrow>
    cd_step h (now, db, js, late) (now, fst (MarkSuccess h s f t db tk), js, late - marked h s f tk)"
| mark429: "redis_now_ms t = now \<Longrightarrow>
    cd_step h (now, db, js, late) (now, fst (Mark429 h s f t db tk), js, late - marked h s f tk)"
| suspend: "redis_now_ms t = now \<Longrightarrow>
    cd_step h (now, db, js, late) (now, fst (MarkSuspended h s f t db tk), js, late - marked h s f tk)"
| clear: "cd_step h (now, db, js, late) (now, db, js @ [ClearEarliestTransientCooldown h s gonow tks], late)"
| clearing: "i < length js \<Longrightarrow> clear_next trip now (db, js ! i) = (db', j) \<Longrightarrow>
    cd_step h (now, db, js, late) (now, db', js[i := j], late \<union> shortens trip now db (js ! i))"

inductive cd_reachable :: "(string \<Rightarrow> string) \<Rightarrow> cd_state \<Rightarrow> bool" for h where
  start: "0 \<le> now \<Longrightarrow> cd_reachable h (now, Map.empty, [], {})"
| step: "cd_reachable h a \<Longrightarrow> cd_step h a b \<Longrightarrow> cd_reachable h b"

lemma MarkSuccess_wf: "wf_db db \<Longrightarrow> wf_db (fst (MarkSuccess h s f t db tk))"
  by (auto simp: MarkSuccess_def markSuccessScript_eq wf_db_written split: option.splits)

lemma Mark429_wf:
  assumes "wf_db db" "0 \<le> redis_now_ms t"
  shows "wf_db (fst (Mark429 h s f t db tk))"
proof -
  note b = backoff_bounds[of "fails (redis_now_ms t) db (RedisKey h tk)"]
  note n = fails_read[OF assms(1), of "redis_now_ms t" "RedisKey h tk"]
  show ?thesis
  proof (cases "s = Some True \<and> \<not> f")
    case True
    with assms n b show ?thesis by (simp add: Mark429_eq wf_db_written)
  next
    case False
    with assms(1) show ?thesis using store_failure_frame(5) by simp
  qed
qed

lemma MarkSuspended_wf:
  assumes "wf_db db" "0 \<le> redis_now_ms t"
  shows "wf_db (fst (MarkSuspended h s f t db tk))"
proof (cases "s = Some True \<and> \<not> f")
  case True
  with assms show ?thesis by (simp add: MarkSuspended_eq wf_db_written)
next
  case False
  with assms(1) show ?thesis using store_failure_frame(7) by simp
qed

lemma wf_entry_expire: "wf_entry (e\<lparr>expire_at := x\<rparr>) = wf_entry e"
  by (simp add: wf_entry_def)

lemma wf_db_PEXPIRE: "wf_db db \<Longrightarrow> wf_db (PEXPIRE r db k ms)"
  by (auto simp: PEXPIRE_def wf_db_def wf_entry_expire split: option.splits if_splits dest: live_cases)

lemma clear_next_wf: "wf_db db \<Longrightarrow> wf_db (fst (clear_next trip r (db, j)))"
  by (cases "(trip, r, db, j)" rule: clear_next.cases) (simp_all add: Let_def wf_db_HDEL wf_db_PEXPIRE)

text \<open>What a key holds is covered, unless a clearing shortened its life.\<close>

lemma covered_HDEL:
  assumes "\<And>e. db k' = Some e \<Longrightarrow> covered e" "HDEL now db k fs k' = Some e'"
  shows "covered e'"
proof (cases "k' = k")
  case False
  with HDEL_entry[OF assms(2)] assms(1) show ?thesis by simp
next
  case True
  then obtain e where e: "db k' = Some e" "expire_at e' = expire_at e" "hfields e' = fold AList.delete fs (hfields e)"
    using HDEL_entry[OF assms(2)] by blast
  show ?thesis
    using assms(1)[OF e(1)]
    by (cases "''cooldown_until_ms'' \<in> set fs") (auto simp: covered_def e(2,3) map_of_fold_delete split: option.splits)
qed

lemma covered_written:
  assumes "written now db k n u reason ttl k' = Some e'" "\<And>e. db k' = Some e \<Longrightarrow> k' \<noteq> k \<Longrightarrow> covered e" "u = 0 \<or> u \<le> now + ttl"
  shows "covered e'"
proof (cases "k' = k")
  case True
  then have e': "e' = the (written now db k n u reason ttl k)" using assms(1) by simp
  have "expire_at e' = Some (now + ttl)" unfolding e' by (simp add: written_def)
  then show ?thesis using assms(3) by (auto simp: covered_def covers_def e' written_fields)
qed (use assms in \<open>simp add: written_other\<close>)

lemma covered_PEXPIRE:
  assumes "PEXPIRE r db k ms k' = Some e'" "\<And>e. db k' = Some e \<Longrightarrow> covered e" "k' = k \<Longrightarrow> \<not> cooling r db k"
  shows "covered e'"
proof (cases "k' = k")
  case False
  then show ?thesis using assms(1,2) by (auto simp: PEXPIRE_def split: option.splits if_splits)
next
  case True
  then obtain e where e: "live r db k = Some e" "e' = e\<lparr>expire_at := Some (r + ms)\<rparr>"
    using assms(1) by (auto simp: PEXPIRE_def split: option.splits if_splits)
  have "map_of (hfields e) ''cooldown_until_ms'' \<in> {None, Some (Itoa 0)}"
    using assms(3)[OF True] e(1) by (simp add: cooling_def HGET_def)
  then show ?thesis by (auto simp: covered_def e(2))
qed

definition all_covered :: "redis \<Rightarrow> string set \<Rightarrow> bool" where
  "all_covered db late \<longleftrightarrow> (\<forall>k e. db k = Some e \<and> k \<notin> late \<longrightarrow> covered e)"

lemma all_coveredI: "(\<And>k e. db k = Some e \<Longrightarrow> k \<notin> late \<Longrightarrow> covered e) \<Longrightarrow> all_covered db late"
  unfolding all_covered_def by blast

lemma all_coveredD: "all_covered db late \<Longrightarrow> db k = Some e \<Longrightarrow> k \<notin> late \<Longrightarrow> covered e"
  by (simp add: all_covered_def)

lemma all_covered_HDEL: "all_covered db late \<Longrightarrow> all_covered (HDEL now db k fs) late"
  by (rule all_coveredI) (erule covered_HDEL[rotated], auto dest: all_coveredD)

lemma all_covered_written:
  "all_covered db late \<Longrightarrow> u = 0 \<or> u \<le> now + ttl \<Longrightarrow> all_covered (written now db k n u reason ttl) (late - {k})"
  by (rule all_coveredI) (erule covered_written, auto dest: all_coveredD)

lemma all_covered_check: "all_covered db late \<Longrightarrow> all_covered (fst (CheckCooldown h s f t db tk)) late"
  by (auto simp: CheckCooldown_def checkCooldownScript_def Let_def all_covered_HDEL
      split: option.splits prod.splits sum.splits if_splits)

lemma all_covered_success:
  "all_covered db late \<Longrightarrow> all_covered (fst (MarkSuccess h s f t db tk)) (late - marked h s f tk)"
  by (cases s) (auto simp: MarkSuccess_def markSuccessScript_eq all_covered_written validate_def marked_def split: bool.splits)

lemma all_covered_429:
  assumes "wf_db db" "all_covered db late"
  shows "all_covered (fst (Mark429 h s f t db tk)) (late - marked h s f tk)"
proof (cases "s = Some True \<and> \<not> f")
  case True
  have "backoff_ms n \<le> 90000000" for n using backoff_bounds[of n] by simp
  with True assms show ?thesis by (simp add: Mark429_eq all_covered_written marked_def)
next
  case False
  then show ?thesis using assms store_failure_frame(5)[of s f] by (auto simp: marked_def)
qed

lemma all_covered_suspended:
  assumes "all_covered db late"
  shows "all_covered (fst (MarkSuspended h s f t db tk)) (late - marked h s f tk)"
proof (cases "s = Some True \<and> \<not> f")
  case True
  with assms show ?thesis by (simp add: MarkSuspended_eq all_covered_written marked_def)
next
  case False
  then show ?thesis using assms store_failure_frame(7)[of s f] by (auto simp: marked_def)
qed

lemma all_covered_clear:
  assumes "all_covered db late"
  shows "all_covered (fst (clear_next trip r (db, j))) (late \<union> shortens trip r db j)"
proof (cases j)
  case (ClearScan now ks reads)
  then show ?thesis using assms by (cases ks) (simp_all add: shortens_def Let_def)
next
  case (ClearDel now reads k)
  then show ?thesis using assms all_covered_HDEL by (simp add: shortens_def)
next
  case (ClearExpire k)
  show ?thesis
  proof (cases "trip = NotSent")
    case True
    then show ?thesis using assms by (auto simp: ClearExpire all_covered_def)
  next
    case False
    have "all_covered (PEXPIRE r db k ms) (late \<union> shortens trip r db j)" for ms
      by (rule all_coveredI, erule covered_PEXPIRE) (use assms False in \<open>auto simp: ClearExpire shortens_def dest: all_coveredD split: if_splits\<close>)
    then show ?thesis using False by (simp add: ClearExpire)
  qed
qed (use assms in \<open>simp add: shortens_def\<close>)

text \<open>What a clearing knows: it read every key in an earlier state of the store.\<close>

definition was_read :: "(string \<Rightarrow> string) \<Rightarrow> int \<Rightarrow> string \<times> lua_val list \<Rightarrow> bool" where
  "was_read h r kv \<longleftrightarrow> (\<exists>r0 db0 js0 late0. cd_reachable h (r0, db0, js0, late0) \<and> r0 \<le> r \<and> snd kv = HMGET3 r0 db0 (fst kv))"

definition job_ok :: "(string \<Rightarrow> string) \<Rightarrow> int \<Rightarrow> clear_job \<Rightarrow> bool" where
  "job_ok h r j \<longleftrightarrow>
     (case j of
        ClearScan now ks reads \<Rightarrow>
          (\<exists>tks. map fst reads @ ks = unique_keys h [] tks) \<and> (\<forall>kv \<in> set reads. was_read h r kv)
      | ClearDel now reads k \<Rightarrow>
          (\<exists>tks. map fst reads = unique_keys h [] tks) \<and> (\<forall>kv \<in> set reads. was_read h r kv) \<and> chosen now reads k
      | _ \<Rightarrow> True)"

lemma was_read_later: "was_read h r kv \<Longrightarrow> r \<le> r' \<Longrightarrow> was_read h r' kv"
  unfolding was_read_def by (meson order_trans)

lemma job_ok_later: "job_ok h r j \<Longrightarrow> r \<le> r' \<Longrightarrow> job_ok h r' j"
  unfolding job_ok_def using was_read_later by (cases j) (simp_all, blast+)

lemma job_ok_begin: "job_ok h r (ClearEarliestTransientCooldown h s now tks)"
  by (auto simp: ClearEarliestTransientCooldown_def job_ok_def Let_def split: option.splits)

lemma scan_done_ok:
  assumes "map fst reads = unique_keys h [] tks" "\<forall>kv \<in> set reads. was_read h r kv"
  shows "job_ok h r (scan_done now reads)"
proof -
  have "distinct (map fst reads)" using assms(1) distinct_unique_keys by simp
  from scan_done_cases[OF this, of now] show ?thesis using assms by (auto simp: job_ok_def)
qed

lemma job_ok_next:
  assumes "job_ok h r j" "cd_reachable h (r, db, js, late)" "clear_next trip r (db, j) = (db', j')"
  shows "job_ok h r j'"
proof (cases j)
  case (ClearScan now ks reads)
  note ok = assms(1)[unfolded ClearScan job_ok_def, simplified]
  show ?thesis
  proof (cases ks)
    case Nil
    then have "j' = scan_done now reads" using assms(3) by (simp add: ClearScan)
    then show ?thesis using ok Nil scan_done_ok by auto
  next
    case (Cons k ks')
    have new: "was_read h r (k, HMGET3 r db k)" using assms(2) by (auto simp: was_read_def)
    let ?reads = "reads @ [(k, HMGET3 r db k)]"
    have r: "\<forall>kv \<in> set ?reads. was_read h r kv" using ok new by auto
    obtain tks where tks: "map fst ?reads @ ks' = unique_keys h [] tks" using ok Cons by auto
    consider v where "j' = ClearDone v" | "ks' = []" "j' = scan_done now ?reads" | "j' = ClearScan now ks' ?reads"
      using assms(3) by (auto simp: ClearScan Cons Let_def split: if_splits)
    then show ?thesis
    proof cases
      case 1
      then show ?thesis by (simp add: job_ok_def)
    next
      case 2
      then show ?thesis using tks r scan_done_ok[of ?reads h tks r now] by simp
    next
      case 3
      then show ?thesis using tks r by (auto simp: job_ok_def)
    qed
  qed
qed (use assms(3) in \<open>auto simp: job_ok_def split: if_splits\<close>)

definition cd_inv :: "(string \<Rightarrow> string) \<Rightarrow> cd_state \<Rightarrow> bool" where
  "cd_inv h a \<longleftrightarrow>
     (case a of (now, db, js, late) \<Rightarrow> 0 \<le> now \<and> wf_db db \<and> all_covered db late \<and> (\<forall>j \<in> set js. job_ok h now j))"

lemma cd_step_inv:
  assumes "cd_step h a b" "cd_reachable h a" "cd_inv h a"
  shows "cd_inv h b"
  using assms
proof (induction rule: cd_step.induct)
  case (tick now now' db js late)
  then show ?case using job_ok_later by (auto simp: cd_inv_def)
next
  case (clearing i js trip now db db' j late)
  note inv = clearing.prems(2)[unfolded cd_inv_def, simplified]
  have "db' = fst (clear_next trip now (db, js ! i))" using clearing.hyps(2) by simp
  then have "wf_db db'" "all_covered db' (late \<union> shortens trip now db (js ! i))"
    using clear_next_wf[of db] all_covered_clear[of db late] inv by simp_all
  moreover have "job_ok h now j" using job_ok_next[OF _ clearing.prems(1) clearing.hyps(2)] inv clearing.hyps(1) by simp
  moreover have "set (js[i := j]) \<subseteq> insert j (set js)" by (rule set_update_subset_insert)
  ultimately show ?case using inv by (auto simp: cd_inv_def)
qed (auto simp: cd_inv_def CheckCooldown_wf all_covered_check MarkSuccess_wf all_covered_success Mark429_wf all_covered_429
    MarkSuspended_wf all_covered_suspended job_ok_begin)

lemma cd_reachable_inv0: "cd_reachable h a \<Longrightarrow> cd_inv h a"
proof (induction rule: cd_reachable.induct)
  case (start now)
  then show ?case by (simp add: cd_inv_def wf_db_def all_covered_def)
next
  case (step a b)
  then show ?case using cd_step_inv by blast
qed

lemma cd_reachable_inv:
  assumes "cd_reachable h (now, db, js, late)"
  shows "0 \<le> now" "wf_db db" "all_covered db late" "j \<in> set js \<Longrightarrow> job_ok h now j"
  using cd_reachable_inv0[OF assms] by (simp_all add: cd_inv_def)

section \<open>Properties\<close>

text \<open>A run of rate-limit responses for one token, at the given clock readings.\<close>

fun run429 :: "(string \<Rightarrow> string) \<Rightarrow> redis \<Rightarrow> string \<Rightarrow> (int \<times> int) list \<Rightarrow> (cd_error + duration) list" where
  "run429 h db tk [] = []"
| "run429 h db tk (t # ts) =
     (case Mark429 h (Some True) False t db tk of (db', d) \<Rightarrow> d # run429 h db' tk ts)"

fun close_times :: "int \<Rightarrow> (int \<times> int) list \<Rightarrow> bool" where
  "close_times now [] = True"
| "close_times now (t # ts) =
     (now \<le> redis_now_ms t \<and> redis_now_ms t < now + 90000000 \<and> close_times (redis_now_ms t) ts)"

lemma until_ms_dead: "HGET t db k ''cooldown_until_ms'' = None \<Longrightarrow> until_ms t db k = 0"
  by (simp add: until_ms_def get_or_def)

lemma fails_dead: "HGET t db k ''fail_count'' = None \<Longrightarrow> fails t db k = 0"
  by (simp add: fails_def get_or_def)

lemma check_after_write:
  assumes "wf_db (written now db k n u reason ttl)" and "k = RedisKey h tk"
    and "0 \<le> now" and "now \<le> redis_now_ms t" and "u \<le> now + ttl" and "u - now \<le> 86400000"
  shows "snd (CheckCooldown h (Some True) False t (written now db k n u reason ttl) tk) =
    (if redis_now_ms t < u then Some (ErrCooldown ((u - redis_now_ms t) * Millisecond) reason) else None)"
proof (cases "redis_now_ms t < now + ttl")
  case True
  have "in_int64 ((u - redis_now_ms t) * Millisecond)" if "redis_now_ms t < u"
    using that assms(4,6) by (simp add: in_int64_def go_def)
  then show ?thesis
    using CheckCooldown_result[OF assms(1) refl, of h tk k t] assms(2)
    by (auto simp: read_written[OF True] wrap64_exact)
next
  case False
  then have "HGET (redis_now_ms t) (written now db k n u reason ttl) k f = None" for f
    by (simp add: read_written_expired)
  then show ?thesis
    using CheckCooldown_result[OF assms(1) refl, of h tk k t] assms(2,3,4,5) False
    by (simp add: until_ms_dead)
qed

lemma run429_backoff:
  assumes "close_times now ts" "0 \<le> now" "wf_db db" "0 \<le> n"
    and "\<And>t. now \<le> t \<Longrightarrow> t < now + 90000000 \<Longrightarrow> fails t db (RedisKey h tk) = n"
  shows "run429 h db tk ts = map (\<lambda>i. Inr (backoff_ms (n + int i) * Millisecond)) [0..<length ts]"
  using assms
proof (induction ts arbitrary: now db n)
  case (Cons t ts)
  let ?k = "RedisKey h tk" and ?m = "redis_now_ms t"
  let ?db' = "written ?m db ?k (n + 1) (?m + backoff_ms n) CooldownReason429 90000000"
  from Cons.prems have m: "0 \<le> ?m" "fails ?m db ?k = n" by auto
  have eq: "Mark429 h (Some True) False t db tk = (?db', Inr (backoff_ms n * Millisecond))"
    using Mark429_eq[OF Cons.prems(3) refl refl, of h t tk] m by simp
  have "wf_db ?db'"
    using Mark429_wf[OF Cons.prems(3), of t h "Some True" False tk] m eq by simp
  moreover have "fails t' ?db' ?k = n + 1" if "t' < ?m + 90000000" for t'
    using read_written(1)[OF that] .
  ultimately have "run429 h ?db' tk ts =
      map (\<lambda>i. Inr (backoff_ms (n + 1 + int i) * Millisecond)) [0..<length ts]"
    using Cons.prems m by (intro Cons.IH[of ?m]) auto
  moreover have "[0..<length (t # ts)] = 0 # map Suc [0..<length ts]"
    by (simp add: map_Suc_upt upt_conv_Cons del: upt_Suc)
  ultimately show ?case
    by (simp add: eq comp_def algebra_simps del: upt_Suc)
qed simp

text \<open>
  C1. In every reachable state of the store, a rate-limit response puts its token into a cooldown
  whose length doubles with the recorded failures and is capped at five minutes, and at every later
  clock reading the gate \<open>CheckCooldown\<close> refuses the token with exactly the remaining time while the
  cooldown lasts and admits it from then on.
\<close>

theorem mark429_gates_token:
  assumes "cd_reachable h (now, db, js, late)" and "redis_now_ms t = now"
  shows "\<exists>db' d. Mark429 h (Some True) False t db tk = (db', Inr d) \<and>
    d = backoff_ms (fails now db (RedisKey h tk)) * Millisecond \<and>
    (\<forall>t'. now \<le> redis_now_ms t' \<longrightarrow>
       snd (CheckCooldown h (Some True) False t' db' tk) =
         (if (redis_now_ms t' - now) * Millisecond < d
          then Some (ErrCooldown (d - (redis_now_ms t' - now) * Millisecond) CooldownReason429)
          else None))"
proof -
  let ?k = "RedisKey h tk"
  let ?n = "fails now db ?k"
  let ?db' = "written now db ?k (?n + 1) (now + backoff_ms ?n) CooldownReason429 90000000"
  note inv = cd_reachable_inv(1,2)[OF assms(1)]
  have m: "Mark429 h (Some True) False t db tk = (?db', Inr (backoff_ms ?n * Millisecond))"
    using Mark429_eq[OF inv(2) assms(2) refl] by simp
  have wf: "wf_db ?db'"
    using Mark429_wf[OF inv(2), of t h "Some True" False tk] inv(1) assms(2) m by simp
  have "snd (CheckCooldown h (Some True) False t' ?db' tk) =
      (if redis_now_ms t' < now + backoff_ms ?n
       then Some (ErrCooldown ((now + backoff_ms ?n - redis_now_ms t') * Millisecond) CooldownReason429)
       else None)" if "now \<le> redis_now_ms t'" for t'
    using check_after_write[OF wf refl inv(1) that] backoff_bounds[of ?n] by simp
  then show ?thesis
    unfolding m by (auto simp: go_def algebra_simps)
qed

theorem mark429_gates_token_witness:
  "(cd_reachable id (0, Map.empty, [], {}) \<and> redis_now_ms (0, 0) = 0) \<and>
   (\<exists>db' d. Mark429 id (Some True) False (0, 0) Map.empty ''tok'' = (db', Inr d) \<and>
    d = backoff_ms (fails 0 Map.empty (RedisKey id ''tok'')) * Millisecond \<and>
    (\<forall>t'. 0 \<le> redis_now_ms t' \<longrightarrow>
       snd (CheckCooldown id (Some True) False t' db' ''tok'') =
         (if (redis_now_ms t' - 0) * Millisecond < d
          then Some (ErrCooldown (d - (redis_now_ms t' - 0) * Millisecond) CooldownReason429)
          else None)))"
proof -
  have r: "cd_reachable id (0, Map.empty, [], {})" by (rule cd_reachable.start) simp
  have n: "redis_now_ms (0, 0) = 0" by (simp add: redis_now_ms_def)
  show ?thesis using r n mark429_gates_token[OF r n, of "''tok''"] by blast
qed

text \<open>
  Consecutive rate-limit responses of one token, each less than 25 hours after the one before,
  wait 1, 2, 4 and then 5 minutes: the \<open>i\<close>-th wait is \<open>min (5 min) (1 min * 2^i)\<close>, starting from an
  empty store.
\<close>

theorem consecutive_429_backoff:
  assumes "close_times now ts" and "0 \<le> now"
  shows "run429 h Map.empty tk ts =
    map (\<lambda>i. Inr (min MaxCooldown (ShortCooldown * 2 ^ i))) [0..<length ts]"
proof -
  have "backoff_ms (int i) * Millisecond = min MaxCooldown (ShortCooldown * 2 ^ i)" for i
    by (simp add: backoff_ms_def MaxCooldown_def ShortCooldown_def go_def min_def)
  moreover have "fails t Map.empty k = 0" for t k
    by (rule fails_dead) (simp add: HGET_def live_def)
  ultimately show ?thesis
    using run429_backoff[OF assms, of Map.empty 0 h tk] by (simp add: wf_db_def)
qed

theorem consecutive_429_backoff_witness:
  "close_times 0 [(0, 0), (61, 0), (200, 0), (500, 0)] \<and>
   run429 id Map.empty ''tok'' [(0, 0), (61, 0), (200, 0), (500, 0)] =
     map Inr [1 * Minute, 2 * Minute, 4 * Minute, 5 * Minute]"
proof -
  have c: "close_times 0 [(0, 0), (61, 0), (200, 0), (500, 0)]" by (simp add: redis_now_ms_def)
  show ?thesis
    using c consecutive_429_backoff[OF c order_refl, of id "''tok''"]
    by (simp add: MaxCooldown_def ShortCooldown_def go_def)
qed



definition demo_db :: redis where
  "demo_db = fst (Mark429 id (Some True) False (1, 0) Map.empty ''tok'')"

definition demo_key :: string where "demo_key = RedisKey id ''tok''"

definition demo_reads :: "(string \<times> lua_val list) list" where
  "demo_reads = [(demo_key, HMGET3 1000 demo_db demo_key)]"

lemma clock_1000 [simp]: "redis_now_ms (1, 0) = 1000"
  by (simp add: redis_now_ms_def)

lemma marked_none [simp]: "{} - marked h s f tk = {}"
  by simp

lemma demo_db_reachable: "cd_reachable id (1000, demo_db, [], {})"
proof -
  have "cd_reachable id (1000, Map.empty, [], {})" by (rule cd_reachable.start) simp
  from cd_reachable.step[OF this cd_step.mark429[OF clock_1000, where s = "Some True" and f = False and tk = "''tok''"]]
  show ?thesis by (simp add: demo_db_def)
qed

lemma demo_db_eq:
  "demo_db = written 1000 Map.empty (RedisKey id ''tok'') 1 61000 CooldownReason429 90000000"
proof -
  have f: "fails 1000 Map.empty k = 0" for k by (rule fails_dead) (simp add: HGET_def live_def)
  have "wf_db Map.empty" by (simp add: wf_db_def)
  from Mark429_eq[OF this, of "(1, 0)" 1000 id "''tok''"] show ?thesis
    by (simp add: demo_db_def f backoff_ms_def)
qed

lemma demo_read: "read_state (HMGET3 1000 demo_db demo_key) = Inr (61000, CooldownReason429, 1)"
  using read_state_HMGET3[OF cd_reachable_inv(2)[OF demo_db_reachable], of 1000 demo_key]
  by (simp add: demo_db_eq demo_key_def read_written in_int64_def)

lemma demo_scan: "clear_next Answered 1000 (demo_db, ClearEarliestTransientCooldown id (Some True) 1000 [''tok'']) =
    (demo_db, ClearDel 1000 demo_reads demo_key)"
proof -
  have "TrimSpace ''tok'' = ''tok''" by (rule TrimSpace_visible) (simp_all add: visible_def)
  then have ks: "unique_keys id [] [''tok''] = [demo_key]" by (simp add: Let_def demo_key_def)
  show ?thesis
    by (simp add: ClearEarliestTransientCooldown_def validate_def ks Let_def scan_done_def demo_read demo_reads_def
        del: unique_keys.simps)
qed

text \<open>A clearing about to delete.\<close>

lemma demo_scanned: "cd_reachable id (1000, demo_db, [ClearDel 1000 demo_reads demo_key], {})"
proof -
  let ?j = "ClearEarliestTransientCooldown id (Some True) 1000 [''tok'']"
  have b: "cd_reachable id (1000, demo_db, [?j], {})"
    using cd_reachable.step[OF demo_db_reachable cd_step.clear[where s = "Some True" and gonow = 1000 and tks = "[''tok'']"]]
    by simp
  have "shortens Answered 1000 demo_db ?j = {}" by (auto simp: shortens_def ClearEarliestTransientCooldown_def Let_def split: option.splits)
  then show ?thesis
    using cd_reachable.step[OF b cd_step.clearing[where i = 0 and trip = Answered]] demo_scan by fastforce
qed


text \<open>
  A clearing can cut a suspension short. In a state in which a token has just been suspended for 24 hours, a clearing
  that scanned before deletes the suspension, and the token is admitted at once; a clearing that deleted before gives the
  key ten seconds to live, and the token is admitted after them.
\<close>

definition suspended_db :: "redis \<Rightarrow> redis" where
  "suspended_db db = fst (MarkSuspended id (Some True) False (1, 0) db ''tok'')"

definition deleted_db :: redis where
  "deleted_db = HDEL 1000 demo_db demo_key [''cooldown_until_ms'', ''cooldown_reason'']"

theorem clearing_cuts_suspension_short:
  "snd (MarkSuspended id (Some True) False (1, 0) demo_db ''tok'') = Inr LongCooldown \<and>
   (\<exists>js late db' js' late'. cd_reachable id (1000, suspended_db demo_db, js, late) \<and>
      cd_step id (1000, suspended_db demo_db, js, late) (1000, db', js', late') \<and>
      snd (CheckCooldown id (Some True) False (1, 0) db' ''tok'') = None) \<and>
   snd (MarkSuspended id (Some True) False (1, 0) deleted_db ''tok'') = Inr LongCooldown \<and>
   (\<exists>js late db' js' late'. cd_reachable id (1000, suspended_db deleted_db, js, late) \<and>
      cd_step id (1000, suspended_db deleted_db, js, late) (1000, db', js', late') \<and>
      snd (CheckCooldown id (Some True) False (11, 0) db' ''tok'') = None)"
proof -
  have sus: "suspended_db db = written 1000 db demo_key 0 86401000 CooldownReasonSuspended 90000000" for db
    using MarkSuspended_eq[OF clock_1000 refl, of id db "''tok''"] by (simp add: suspended_db_def demo_key_def)
  have r: "snd (MarkSuspended id (Some True) False (1, 0) db ''tok'') = Inr LongCooldown" for db
    using MarkSuspended_eq[OF clock_1000 refl, of id db "''tok''"] by simp
  have suspend: "cd_reachable id (1000, db, js, {}) \<Longrightarrow> cd_reachable id (1000, suspended_db db, js, {})" for db js
    using cd_reachable.step[OF _ cd_step.suspend[OF clock_1000, where s = "Some True" and f = False and tk = "''tok''"]]
    by (force simp: suspended_db_def)
  let ?del = "ClearDel 1000 demo_reads demo_key"
  let ?d1 = "HDEL 1000 (suspended_db demo_db) demo_key [''cooldown_until_ms'', ''cooldown_reason'']"
  have 1: "cd_reachable id (1000, suspended_db demo_db, [?del], {})" by (rule suspend[OF demo_scanned])
  have 2: "cd_step id (1000, suspended_db demo_db, [?del], {}) (1000, ?d1, [ClearExpire demo_key], {})"
    using cd_step.clearing[where i = 0 and js = "[?del]" and trip = Answered and now = 1000 and db = "suspended_db demo_db" and late = "{}"]
    by (simp add: shortens_def)
  have "until_ms 1000 ?d1 demo_key = 0" by (rule until_ms_dead) (simp add: HGET_HDEL_same)
  moreover have "wf_db ?d1" by (rule wf_db_HDEL[OF cd_reachable_inv(2)[OF 1]])
  ultimately have 3: "snd (CheckCooldown id (Some True) False (1, 0) ?d1 ''tok'') = None"
    using CheckCooldown_result[OF _ clock_1000 demo_key_def[symmetric]] by simp
  have del: "cd_reachable id (1000, deleted_db, [ClearExpire demo_key], {})"
    using cd_reachable.step[OF demo_scanned cd_step.clearing[where i = 0 and trip = Answered]]
    by (force simp: shortens_def deleted_db_def)
  let ?d2 = "PEXPIRE 1000 (suspended_db deleted_db) demo_key 10000"
  let ?late = "shortens Answered 1000 (suspended_db deleted_db) (ClearExpire demo_key)"
  have 4: "cd_reachable id (1000, suspended_db deleted_db, [ClearExpire demo_key], {})" by (rule suspend[OF del])
  have 5: "cd_step id (1000, suspended_db deleted_db, [ClearExpire demo_key], {}) (1000, ?d2, [ClearDone (Inr True)], ?late)"
    using cd_step.clearing[where i = 0 and js = "[ClearExpire demo_key]" and trip = Answered and now = 1000
        and db = "suspended_db deleted_db" and late = "{}"] by simp
  have c: "redis_now_ms (11, 0) = 11000" by (simp add: redis_now_ms_def)
  have "until_ms 11000 ?d2 demo_key = 0" by (rule until_ms_dead) (simp add: HGET_PEXPIRE_later)
  moreover have "wf_db ?d2" by (rule wf_db_PEXPIRE[OF cd_reachable_inv(2)[OF 4]])
  ultimately have 6: "snd (CheckCooldown id (Some True) False (11, 0) ?d2 ''tok'') = None"
    using CheckCooldown_result[OF _ c demo_key_def[symmetric]] by simp
  show ?thesis using r 1 2 3 4 5 6 by blast
qed

lemma word_of_sint_nat: "sint n = int k \<Longrightarrow> n = (word_of_nat k :: 64 word)"
proof -
  assume "sint n = int k"
  moreover have "word_of_int (sint n) = n" by simp
  ultimately show ?thesis by simp
qed

lemma Calculate429Cooldown_small:
  "\<forall>k \<in> set [0..<28]. sint (Calculate429Cooldown (word_of_nat k)) =
     min MaxCooldown (ShortCooldown * 2 ^ k)"
  by code_simp

text \<open>
  The retry delay computed in Go, on 64-bit signed integers: for every retry count up to 27 (and
  every negative one, read as 0) it is one minute doubled per retry and capped at five minutes.
\<close>

theorem Calculate429Cooldown_exact:
  assumes "sint n \<le> 27"
  shows "sint (Calculate429Cooldown n) = min MaxCooldown (ShortCooldown * 2 ^ nat (sint n))"
proof (cases "n <s 0")
  case True
  then have "Calculate429Cooldown n = Calculate429Cooldown (word_of_nat 0)"
    by (simp add: Calculate429Cooldown_def)
  moreover from True have "nat (sint n) = 0" by (simp add: word_sless_alt)
  ultimately show ?thesis using bspec[OF Calculate429Cooldown_small, of 0] by simp
next
  case False
  define k where "k = nat (sint n)"
  from False have "sint n = int k" by (simp add: k_def word_sless_alt)
  then have n: "n = word_of_nat k" by (rule word_of_sint_nat)
  have "k \<in> set [0..<28]" using assms by (simp add: k_def)
  from bspec[OF Calculate429Cooldown_small this] show ?thesis
    unfolding n[symmetric] by (simp add: k_def)
qed

theorem Calculate429Cooldown_exact_witness:
  "sint (10 :: 64 word) \<le> 27 \<and>
   sint (Calculate429Cooldown 10) = min MaxCooldown (ShortCooldown * 2 ^ nat (sint (10 :: 64 word)))"
proof -
  have h: "sint (10 :: 64 word) \<le> 27" by simp
  show ?thesis using h Calculate429Cooldown_exact[OF h] by simp
qed

text \<open>
  C3. From the retry count 28 the product overflows: the function returns a negative delay there, and
  no delay at all from 64 on, although the cap promises five minutes for every large count.
\<close>

theorem Calculate429Cooldown_overflow:
  "sint (Calculate429Cooldown 28) < 0 \<and> (\<forall>n. 64 \<le> sint n \<longrightarrow> Calculate429Cooldown n = 0)"
proof -
  have "Calculate429Cooldown n = 0" if "64 \<le> sint n" for n :: "64 word"
  proof -
    from that have nn: "\<not> n <s 0" by (simp add: word_sless_alt)
    define k where "k = nat (sint n)"
    from that have "sint n = int k" by (simp add: k_def)
    then have "n = word_of_nat k" by (rule word_of_sint_nat)
    moreover have "k < 2 ^ 64" "64 \<le> k" using that sint_lt[of n] by (simp_all add: k_def)
    ultimately have "64 \<le> unat n" by (simp add: unat_of_nat take_bit_nat_eq_self)
    then have z: "(2 :: 64 word) ^ unat n = 0" by simp
    with nn show ?thesis
      by (simp add: z Calculate429Cooldown_def Let_def MaxCooldown_def go_def word_sless_alt)
  qed
  moreover have "sint (Calculate429Cooldown 28) < 0" by code_simp
  ultimately show ?thesis by blast
qed

theorem Calculate429Cooldown_overflow_witness:
  "64 \<le> sint (100 :: 64 word) \<and> Calculate429Cooldown 100 = 0 \<and> sint (Calculate429Cooldown 28) < 0"
proof -
  have "64 \<le> sint (100 :: 64 word)" by simp
  with Calculate429Cooldown_overflow show ?thesis by blast
qed

text \<open>
  C4. In every reachable state the key of a token outlives the cooldown stored under it: the expiry of the key is not
  before the end of the cooldown, so that Redis cannot drop a cooldown that is still running. The exception are keys to
  which a clearing gave ten seconds although they had been marked again since it deleted; a new mark ends it. The numbers
  stored are always readable.
\<close>

theorem cooldown_never_expires_early:
  assumes "cd_reachable h (now, db, js, late)" and "db k = Some e"
    and "map_of (hfields e) ''cooldown_until_ms'' = Some v"
  shows "\<exists>u\<ge>0. parse_int v = Some u \<and> (0 < u \<and> k \<notin> late \<longrightarrow> (\<exists>x. expire_at e = Some x \<and> u \<le> x))"
proof -
  note inv = cd_reachable_inv[OF assms(1)]
  have "wf_entry e" using inv(2) assms(2) by (rule wf_dbD)
  then obtain u where u: "0 \<le> u" "v = Itoa u" using wf_numE wf_entry_until[OF _ assms(3)] by blast
  have "covers (expire_at e) u" if "k \<notin> late" "0 < u"
  proof -
    have "v \<noteq> Itoa 0" using u(2) that(2) parse_int_Itoa by (metis less_irrefl option.inject)
    then show ?thesis using all_coveredD[OF inv(3) assms(2) that(1)] assms(3) u(2) by (simp add: covered_def)
  qed
  then show ?thesis using u by (auto simp: covers_def split: option.splits)
qed

theorem cooldown_never_expires_early_witness:
  "\<exists>e. cd_reachable id (1000, demo_db, [], {}) \<and> demo_db (RedisKey id ''tok'') = Some e \<and>
     map_of (hfields e) ''cooldown_until_ms'' = Some (Itoa 61000) \<and>
     (\<exists>u\<ge>0. parse_int (Itoa 61000) = Some u \<and> (0 < u \<and> RedisKey id ''tok'' \<notin> {} \<longrightarrow> (\<exists>x. expire_at e = Some x \<and> u \<le> x)))"
proof -
  define e where "e = the (demo_db (RedisKey id ''tok''))"
  have e: "demo_db (RedisKey id ''tok'') = Some e" by (simp add: e_def demo_db_eq written_def)
  have u: "map_of (hfields e) ''cooldown_until_ms'' = Some (Itoa 61000)"
    by (simp add: e_def demo_db_eq written_fields)
  show ?thesis
    using demo_db_reachable e u cooldown_never_expires_early[OF demo_db_reachable e u] by blast
qed

text \<open>
  \<open>GetState\<close> and the gate agree: read at the same instant of a reachable store, \<open>GetState\<close>
  reports an active state exactly when \<open>CheckCooldown\<close> refuses the token, with the same reason and
  the same remaining time.
\<close>

theorem GetState_agrees_with_gate:
  assumes "cd_reachable h (now, db, js, late)" and "redis_now_ms t = now"
    and "until_ms now db (RedisKey h tk) < 2 ^ 40" and "fails now db (RedisKey h tk) < 2 ^ 40"
  shows "\<exists>st. GetState h (Some True) False t (now * Millisecond) db tk = Inr st \<and>
    snd (CheckCooldown h (Some True) False t db tk) =
      (case st of None \<Rightarrow> None | Some x \<Rightarrow> Some (ErrCooldown (Remaining x) (Reason x)))"
proof -
  let ?k = "RedisKey h tk"
  let ?u = "until_ms now db ?k"
  note inv = cd_reachable_inv(1,2)[OF assms(1)]
  have nn: "0 \<le> ?u" "0 \<le> fails now db ?k" using until_read[OF inv(2)] fails_read[OF inv(2)] by auto
  have rs: "read_state (HMGET3 now db ?k) = Inr (?u, reason_of now db ?k, fails now db ?k)"
    using read_state_HMGET3[OF inv(2), of now ?k] assms(3,4) nn by (simp add: in_int64_def)
  have ts: "time_sub (?u * Millisecond) (now * Millisecond) = (?u - now) * Millisecond
      \<and> wrap64 ((?u - now) * Millisecond) = (?u - now) * Millisecond" if "now < ?u"
  proof -
    have "in_int64 ((?u - now) * Millisecond)"
      using that inv(1) assms(3) by (simp add: in_int64_def go_def)
    then show ?thesis by (simp add: time_sub_exact wrap64_exact algebra_simps)
  qed
  have le: "time_sub (?u * Millisecond) (now * Millisecond) \<le> 0 \<longleftrightarrow> ?u \<le> now"
    by (simp add: time_sub_le_zero_iff go_def)
  show ?thesis
    using CheckCooldown_result[OF inv(2) assms(2) refl, of h tk] nn ts le inv(1)
    by (auto simp: GetState_def validate_def assms(2) rs Let_def)
qed

theorem GetState_agrees_with_gate_witness:
  "(cd_reachable id (1000, demo_db, [], {}) \<and> until_ms 1000 demo_db (RedisKey id ''tok'') < 2 ^ 40 \<and>
     fails 1000 demo_db (RedisKey id ''tok'') < 2 ^ 40) \<and>
   (\<exists>st. GetState id (Some True) False (1, 0) (1000 * Millisecond) demo_db ''tok'' = Inr st \<and>
      snd (CheckCooldown id (Some True) False (1, 0) demo_db ''tok'') =
        (case st of None \<Rightarrow> None | Some x \<Rightarrow> Some (ErrCooldown (Remaining x) (Reason x))))"
proof -
  note n = clock_1000
  have b: "until_ms 1000 demo_db (RedisKey id ''tok'') < 2 ^ 40" "fails 1000 demo_db (RedisKey id ''tok'') < 2 ^ 40"
    by (simp_all add: demo_db_eq read_written)
  show ?thesis using demo_db_reachable b GetState_agrees_with_gate[OF demo_db_reachable n b] by blast
qed

end
