(* ===== verification/KiroGateway.thy ===== *)
theory KiroGateway
  imports KiroCooldown
begin

text \<open>
  The gateway's use of the cooldown store, \<open>internal/service/kiro_runtime_state.go\<close>. The Go
  interface \<open>KiroCooldownStore\<close> is the locale \<open>cooldown_store\<close>; the wrappers of the gateway are
  functions of the store's operations, which also write the account's \<open>rate_limit_reset_at\<close> through
  the account repository. The locale's laws are discharged for the Redis store.
\<close>

section \<open>The gateway\<close>

record 'st kiro_gateway =
  cd_store :: "'st option"            \<comment> \<open>nil when no store is configured\<close>
  reset_at :: "int \<Rightarrow> gotime option"  \<comment> \<open>\<open>rate_limit_reset_at\<close> by account id\<close>

definition SetRateLimited :: "(int \<Rightarrow> gotime option) \<Rightarrow> int \<Rightarrow> gotime \<Rightarrow> (int \<Rightarrow> gotime option)" where
  "SetRateLimited accounts accountID resetAt = accounts(accountID \<mapsto> resetAt)"

definition checkKiroCooldown ::
    "('st \<Rightarrow> string \<Rightarrow> 'st \<times> cd_error option) \<Rightarrow> 'st kiro_gateway \<Rightarrow> string \<Rightarrow> 'st kiro_gateway \<times> cd_error option" where
  "checkKiroCooldown chk g tokenKey =
     (case cd_store g of
        None \<Rightarrow> (g, Some ErrStoreUnavailable)
      | Some s \<Rightarrow> (case chk s tokenKey of (s', e) \<Rightarrow> (g\<lparr>cd_store := Some s'\<rparr>, e)))"

definition markKiroSuccess ::
    "('st \<Rightarrow> string \<Rightarrow> 'st \<times> cd_error option) \<Rightarrow> bool \<Rightarrow> bool \<Rightarrow> 'st kiro_gateway \<Rightarrow> int \<Rightarrow> string
       \<Rightarrow> 'st kiro_gateway \<times> cd_error option" where
  "markKiroSuccess mok repo dbErr g accountID tokenKey =
     (case cd_store g of
        None \<Rightarrow> (g, Some ErrStoreUnavailable)
      | Some s \<Rightarrow>
          (case mok s tokenKey of
             (s', Some e) \<Rightarrow> (g\<lparr>cd_store := Some s'\<rparr>, Some e)
           | (s', None) \<Rightarrow>
               (if repo \<and> accountID > 0 \<and> \<not> dbErr
                then (g\<lparr>cd_store := Some s', reset_at := (reset_at g)(accountID := None)\<rparr>, None)
                else (g\<lparr>cd_store := Some s'\<rparr>, None))))"

definition markKiro429 ::
    "('st \<Rightarrow> string \<Rightarrow> 'st \<times> (cd_error + duration)) \<Rightarrow> bool \<Rightarrow> bool \<Rightarrow> gotime \<Rightarrow> 'st kiro_gateway \<Rightarrow> int \<Rightarrow> string
       \<Rightarrow> 'st kiro_gateway \<times> (cd_error + duration)" where
  "markKiro429 m429 repo dbErr now g accountID tokenKey =
     (case cd_store g of
        None \<Rightarrow> (g, Inl ErrStoreUnavailable)
      | Some s \<Rightarrow>
          (case m429 s tokenKey of
             (s', Inl e) \<Rightarrow> (g\<lparr>cd_store := Some s'\<rparr>, Inl e)
           | (s', Inr cooldown) \<Rightarrow>
               (if repo \<and> accountID > 0 \<and> cooldown > 0 \<and> \<not> dbErr
                then (g\<lparr>cd_store := Some s',
                        reset_at := SetRateLimited (reset_at g) accountID (now + cooldown)\<rparr>, Inr cooldown)
                else (g\<lparr>cd_store := Some s'\<rparr>, Inr cooldown))))"

definition markKiroSuspended ::
    "('st \<Rightarrow> string \<Rightarrow> 'st \<times> (cd_error + duration)) \<Rightarrow> 'st kiro_gateway \<Rightarrow> string
       \<Rightarrow> 'st kiro_gateway \<times> (cd_error + duration)" where
  "markKiroSuspended msus g tokenKey =
     (case cd_store g of
        None \<Rightarrow> (g, Inl ErrStoreUnavailable)
      | Some s \<Rightarrow> (case msus s tokenKey of (s', r) \<Rightarrow> (g\<lparr>cd_store := Some s'\<rparr>, r)))"

definition getKiroCooldownState ::
    "('st \<Rightarrow> string \<Rightarrow> cd_error + State option) \<Rightarrow> 'st kiro_gateway \<Rightarrow> string \<Rightarrow> cd_error + State option" where
  "getKiroCooldownState getst g tokenKey =
     (case cd_store g of None \<Rightarrow> Inl ErrStoreUnavailable | Some s \<Rightarrow> getst s tokenKey)"

text \<open>The status code of the failover error a cooldown turns into; other errors give none.\<close>

definition asKiroCooldownFailoverError :: "cd_error option \<Rightarrow> (int \<times> cd_error) option" where
  "asKiroCooldownFailoverError err =
     (case err of Some (ErrCooldown d r) \<Rightarrow> Some (429, ErrCooldown d r) | _ \<Rightarrow> None)"

definition kiroRuntimeStateSnapshot :: "State option \<Rightarrow> string \<times> string \<times> gotime option" where
  "kiroRuntimeStateSnapshot st =
     (case st of
        None \<Rightarrow> ([], [], None)
      | Some x \<Rightarrow>
          if \<not> Active x then ([], [], None)
          else if Reason x = CooldownReasonSuspended then (''suspended'', Reason x, Some (CooldownUntil x))
          else (''cooldown'', Reason x, Some (CooldownUntil x)))"

text \<open>The scheduler's filter on \<open>rate_limit_reset_at\<close> (\<open>Account.IsSchedulable\<close>).\<close>

definition rate_limited :: "'st kiro_gateway \<Rightarrow> gotime \<Rightarrow> int \<Rightarrow> bool" where
  "rate_limited g now accountID =
     (case reset_at g accountID of None \<Rightarrow> False | Some r \<Rightarrow> now < r)"

section \<open>The interface\<close>

locale cooldown_store =
  fixes inv :: "int \<Rightarrow> 'st \<Rightarrow> bool"
    and chk :: "int \<Rightarrow> 'st \<Rightarrow> string \<Rightarrow> 'st \<times> cd_error option"
    and mok :: "int \<Rightarrow> 'st \<Rightarrow> string \<Rightarrow> 'st \<times> cd_error option"
    and m429 :: "int \<Rightarrow> 'st \<Rightarrow> string \<Rightarrow> 'st \<times> (cd_error + duration)"
  assumes inv_chk: "inv now s \<Longrightarrow> inv now (fst (chk now s k))"
    and inv_mok: "inv now s \<Longrightarrow> inv now (fst (mok now s k))"
    and inv_m429: "inv now s \<Longrightarrow> inv now (fst (m429 now s k))"
    and inv_later: "inv now s \<Longrightarrow> now \<le> now' \<Longrightarrow> inv now' s"
    and m429_gates: "inv now s \<Longrightarrow> m429 now s k = (s', Inr d) \<Longrightarrow> now \<le> now' \<Longrightarrow>
      snd (chk now' s' k) \<noteq> None \<longleftrightarrow> (now' - now) * Millisecond < d"
    and m429_positive: "inv now s \<Longrightarrow> m429 now s k = (s', Inr d) \<Longrightarrow> 0 < d"
    and mok_admits: "inv now s \<Longrightarrow> mok now s k = (s', None) \<Longrightarrow> now \<le> now' \<Longrightarrow> snd (chk now' s' k) = None"
begin

lemma markKiro429_records:
  assumes "cd_store g = Some s" and "inv now s"
    and "markKiro429 (m429 now) repo dbErr gnow g accountID k = (g', Inr d)"
  shows "now \<le> now' \<Longrightarrow> snd (checkKiroCooldown (chk now') g' k) \<noteq> None \<longleftrightarrow> (now' - now) * Millisecond < d"
    and "rate_limited g' t a \<longleftrightarrow>
      (if a = accountID \<and> repo \<and> 0 < accountID \<and> \<not> dbErr then t < gnow + d else rate_limited g t a)"
proof -
  obtain s' where s': "m429 now s k = (s', Inr d)"
    using assms(1,3) by (auto simp: markKiro429_def split: prod.splits sum.splits if_splits)
  have d: "0 < d" using m429_positive[OF assms(2) s'] .
  have g': "g' = (if repo \<and> 0 < accountID \<and> \<not> dbErr
      then g\<lparr>cd_store := Some s', reset_at := SetRateLimited (reset_at g) accountID (gnow + d)\<rparr>
      else g\<lparr>cd_store := Some s'\<rparr>)"
    using assms(1,3) s' d by (auto simp: markKiro429_def split: if_splits)
  have st: "cd_store g' = Some s'" by (simp add: g')
  show "snd (checkKiroCooldown (chk now') g' k) \<noteq> None \<longleftrightarrow> (now' - now) * Millisecond < d" if "now \<le> now'"
    using m429_gates[OF assms(2) s' that] by (auto simp: checkKiroCooldown_def st split: prod.splits)
  show "rate_limited g' t a \<longleftrightarrow>
      (if a = accountID \<and> repo \<and> 0 < accountID \<and> \<not> dbErr then t < gnow + d else rate_limited g t a)"
    by (auto simp: g' rate_limited_def SetRateLimited_def)
qed

lemma markKiroSuccess_releases:
  assumes "cd_store g = Some s" and "inv now s" and "0 < accountID" and "now \<le> now'"
    and "markKiroSuccess (mok now) True False g accountID k = (g', None)"
  shows "\<not> rate_limited g' t accountID \<and> snd (checkKiroCooldown (chk now') g' k) = None"
proof -
  obtain s' where s': "mok now s k = (s', None)"
    using assms(1,5) by (auto simp: markKiroSuccess_def split: prod.splits option.splits if_splits)
  have "g' = g\<lparr>cd_store := Some s', reset_at := (reset_at g)(accountID := None)\<rparr>"
    using assms(1,3,5) s' by (simp add: markKiroSuccess_def)
  then show ?thesis
    using mok_admits[OF assms(2) s' assms(4)]
    by (auto simp: rate_limited_def checkKiroCooldown_def split: prod.splits)
qed

end

section \<open>The Redis store implements the interface\<close>

definition clock_of :: "int \<Rightarrow> int \<times> int" where
  "clock_of ms = (ms div 1000, ms mod 1000 * 1000)"

lemma redis_now_clock_of [simp]: "redis_now_ms (clock_of ms) = ms"
  by (simp add: redis_now_ms_def clock_of_def)

definition store_inv :: "int \<Rightarrow> redis \<Rightarrow> bool" where
  "store_inv now db \<longleftrightarrow> 0 \<le> now \<and> wf_db db"

definition store_check :: "(string \<Rightarrow> string) \<Rightarrow> int \<Rightarrow> redis \<Rightarrow> string \<Rightarrow> redis \<times> cd_error option" where
  "store_check h now = CheckCooldown h (Some True) False (clock_of now)"

definition store_success :: "(string \<Rightarrow> string) \<Rightarrow> int \<Rightarrow> redis \<Rightarrow> string \<Rightarrow> redis \<times> cd_error option" where
  "store_success h now = MarkSuccess h (Some True) False (clock_of now)"

definition store_429 :: "(string \<Rightarrow> string) \<Rightarrow> int \<Rightarrow> redis \<Rightarrow> string \<Rightarrow> redis \<times> (cd_error + duration)" where
  "store_429 h now = Mark429 h (Some True) False (clock_of now)"

lemma store_429_gates:
  assumes "store_inv now db" "store_429 h now db k = (db', Inr d)" "now \<le> now'"
  shows "snd (store_check h now' db' k) \<noteq> None \<longleftrightarrow> (now' - now) * Millisecond < d"
proof -
  let ?k = "RedisKey h k" and ?n = "fails now db (RedisKey h k)"
  have wf: "wf_db db" "0 \<le> now" using assms(1) by (simp_all add: store_inv_def)
  have eq: "db' = written now db ?k (?n + 1) (now + backoff_ms ?n) CooldownReason429 90000000"
    "d = backoff_ms ?n * Millisecond"
    using Mark429_eq[OF wf(1) redis_now_clock_of refl, of h now k] assms(2) by (simp_all add: store_429_def)
  have "wf_db db'"
    using Mark429_wf[OF wf(1), of "clock_of now" h "Some True" False k] wf(2) assms(2) by (simp add: store_429_def)
  with eq(1) have "snd (store_check h now' db' k) \<noteq> None \<longleftrightarrow> now' < now + backoff_ms ?n"
    using check_after_write[of now db ?k "?n + 1" "now + backoff_ms ?n" CooldownReason429 90000000 h k "clock_of now'"]
      backoff_bounds[of ?n] wf(2) assms(3) by (simp add: store_check_def)
  then show ?thesis by (auto simp: eq(2) go_def)
qed

interpretation kiro: cooldown_store store_inv "store_check h" "store_success h" "store_429 h" for h
proof
  fix now now' s k s' d
  show "store_inv now s \<Longrightarrow> store_inv now (fst (store_check h now s k))"
    by (simp add: store_inv_def store_check_def CheckCooldown_wf)
  show "store_inv now s \<Longrightarrow> store_inv now (fst (store_success h now s k))"
    by (simp add: store_inv_def store_success_def MarkSuccess_wf)
  show "store_inv now s \<Longrightarrow> store_inv now (fst (store_429 h now s k))"
    by (simp add: store_inv_def store_429_def Mark429_wf)
  show "store_inv now s \<Longrightarrow> now \<le> now' \<Longrightarrow> store_inv now' s"
    by (simp add: store_inv_def)
  show "store_inv now s \<Longrightarrow> store_429 h now s k = (s', Inr d) \<Longrightarrow> now \<le> now' \<Longrightarrow>
      snd (store_check h now' s' k) \<noteq> None \<longleftrightarrow> (now' - now) * Millisecond < d"
    by (rule store_429_gates)
  show "0 < d" if "store_inv now s" "store_429 h now s k = (s', Inr d)"
    using that Mark429_eq[OF _ redis_now_clock_of refl, of s h now k] backoff_bounds[of "fails now s (RedisKey h k)"]
    by (auto simp: store_inv_def store_429_def go_def)
  show "snd (store_check h now' s' k) = None"
    if "store_inv now s" "store_success h now s k = (s', None)" "now \<le> now'"
  proof -
    have s': "s' = written now s (RedisKey h k) 0 0 [] 10000"
      using that(2) MarkSuccess_eq[OF redis_now_clock_of refl] by (simp add: store_success_def)
    have "wf_db s'" using that(1) by (simp add: s' store_inv_def wf_db_written)
    with that show ?thesis
      using check_after_write[of now s "RedisKey h k" 0 0 "[]" 10000 h k "clock_of now'"]
      by (simp add: s' store_check_def store_inv_def)
  qed
qed

section \<open>Properties\<close>

text \<open>
  C5. What a recorded rate-limit response does to the two gates, each on its own clock. \<open>now\<close> is the clock of Redis in
  the script, \<open>gnow\<close> the clock of the process when it computes \<open>rate_limit_reset_at\<close>, after the round trip.
  The Redis gate refuses the token for exactly the returned duration from \<open>now\<close>. The scheduler filters the account for
  exactly the same duration from \<open>gnow\<close> when the row is written (a repository is configured, the account id is positive
  and the write succeeds); otherwise, and for every other account, the filter is unchanged. So, once written, the filter
  covers the gate: an account whose token the gate refuses is filtered, at every reading \<open>t\<close> of the process clock that
  is not further ahead of the clock of Redis than \<open>gnow\<close> was of \<open>now\<close>.
\<close>

theorem markKiro429_gates_agree:
  assumes "cd_store g = Some db" and "store_inv now db"
    and "markKiro429 (store_429 h now) repo dbErr gnow g accountID k = (g', Inr d)"
  shows "(\<forall>now' \<ge> now. snd (checkKiroCooldown (store_check h now') g' k) \<noteq> None \<longleftrightarrow>
        now' * Millisecond < now * Millisecond + d) \<and>
    (\<forall>t a. rate_limited g' t a \<longleftrightarrow>
        (if a = accountID \<and> repo \<and> 0 < accountID \<and> \<not> dbErr then t < gnow + d else rate_limited g t a)) \<and>
    (\<forall>now' \<ge> now. \<forall>t. repo \<and> 0 < accountID \<and> \<not> dbErr \<and>
        snd (checkKiroCooldown (store_check h now') g' k) \<noteq> None \<and>
        t - now' * Millisecond \<le> gnow - now * Millisecond \<longrightarrow> rate_limited g' t accountID)"
proof -
  note g = kiro.markKiro429_records[OF assms]
  have 1: "snd (checkKiroCooldown (store_check h now') g' k) \<noteq> None \<longleftrightarrow> now' * Millisecond < now * Millisecond + d"
    if "now \<le> now'" for now' using g(1)[OF that] by (auto simp: algebra_simps)
  show ?thesis using 1 g(2) by auto
qed

definition demo_gateway :: "redis kiro_gateway" where
  "demo_gateway = \<lparr>cd_store = Some Map.empty, reset_at = Map.empty\<rparr>"

lemma demo_gateway_store: "cd_store demo_gateway = Some Map.empty" "store_inv 0 Map.empty"
  by (simp_all add: demo_gateway_def store_inv_def wf_db_def)

theorem markKiro429_gates_agree_witness:
  "\<exists>g' d. markKiro429 (store_429 id 0) True False 5 demo_gateway 7 ''tok'' = (g', Inr d) \<and>
     (snd (checkKiroCooldown (store_check id 30000) g' ''tok'') \<noteq> None \<longleftrightarrow> 30000 * Millisecond < 0 * Millisecond + d) \<and>
     (rate_limited g' (4 + d) 7 \<longleftrightarrow> 4 + d < 5 + d)"
proof -
  have wf: "wf_db Map.empty" by (simp add: wf_db_def)
  obtain db' d where "store_429 id 0 Map.empty ''tok'' = (db', Inr d)"
    using Mark429_eq[OF wf redis_now_clock_of refl, of id 0 "''tok''"] by (simp add: store_429_def)
  then obtain g' where g': "markKiro429 (store_429 id 0) True False 5 demo_gateway 7 ''tok'' = (g', Inr d)"
    by (cases "0 < d") (simp_all add: markKiro429_def demo_gateway_store)
  from markKiro429_gates_agree[OF demo_gateway_store g']
  have "snd (checkKiroCooldown (store_check id 30000) g' ''tok'') \<noteq> None \<longleftrightarrow> 30000 * Millisecond < 0 * Millisecond + d"
    "rate_limited g' (4 + d) 7 \<longleftrightarrow> 4 + d < 5 + d" by simp_all
  with g' show ?thesis by blast
qed

text \<open>
  After a recorded success both gates are open: the account is not filtered by
  \<open>rate_limit_reset_at\<close> and the Redis gate admits the token, now and later, whatever was stored before
  (a rate-limit cooldown or a suspension).
\<close>

theorem markKiroSuccess_opens_gates:
  assumes "cd_store g = Some db" and "store_inv now db" and "0 < accountID" and "now \<le> now'"
    and "markKiroSuccess (store_success h now) True False g accountID k = (g', None)"
  shows "\<not> rate_limited g' t accountID \<and> snd (checkKiroCooldown (store_check h now') g' k) = None"
  using assms by (rule kiro.markKiroSuccess_releases)

theorem markKiroSuccess_opens_gates_witness:
  "\<exists>g'. markKiroSuccess (store_success id 0) True False demo_gateway 7 ''tok'' = (g', None) \<and>
     \<not> rate_limited g' 5 7 \<and> snd (checkKiroCooldown (store_check id 1) g' ''tok'') = None"
proof -
  obtain g' where g': "markKiroSuccess (store_success id 0) True False demo_gateway 7 ''tok'' = (g', None)"
    using MarkSuccess_eq[OF redis_now_clock_of refl, of id 0 Map.empty "''tok''"]
    by (simp add: markKiroSuccess_def store_success_def demo_gateway_store)
  have "(0::int) < 7" "(0::int) \<le> 1" by simp_all
  from g' markKiroSuccess_opens_gates[OF demo_gateway_store this g', of 5] show ?thesis by blast
qed

end
