(* ===== verification/Platforms.thy ===== *)
theory Platforms
  imports Complex_Main GoPrelude
begin

text \<open>
  The names of the platforms and of the subscription types (\<open>domain/constants.go\<close>), and the values of
  \<open>float64\<close> as the configuration checks see them: a finite number, kept exactly, an infinity or not a
  number.
\<close>

section \<open>Platforms\<close>

definition PlatformAnthropic :: string where "PlatformAnthropic = ''anthropic''"
definition PlatformOpenAI :: string where "PlatformOpenAI = ''openai''"
definition PlatformGemini :: string where "PlatformGemini = ''gemini''"
definition PlatformAntigravity :: string where "PlatformAntigravity = ''antigravity''"
definition PlatformKiro :: string where "PlatformKiro = ''kiro''"
definition PlatformGrok :: string where "PlatformGrok = ''grok''"
definition PlatformAdobe :: string where "PlatformAdobe = ''adobe''"
definition PlatformKimi :: string where "PlatformKimi = ''kimi''"
definition PlatformZhipu :: string where "PlatformZhipu = ''zhipu''"
definition PlatformDeepseek :: string where "PlatformDeepseek = ''deepseek''"
definition PlatformMiniMax :: string where "PlatformMiniMax = ''minimax''"
definition PlatformTypeSafe :: string where "PlatformTypeSafe = ''typesafe''"
definition PlatformOpenCodeGo :: string where "PlatformOpenCodeGo = ''opencode_go''"
definition PlatformComposite :: string where "PlatformComposite = ''composite''"

lemmas platform_defs [go_def] = PlatformAnthropic_def PlatformOpenAI_def PlatformGemini_def
  PlatformAntigravity_def PlatformKiro_def PlatformGrok_def PlatformAdobe_def PlatformKimi_def
  PlatformZhipu_def PlatformDeepseek_def PlatformMiniMax_def PlatformTypeSafe_def
  PlatformOpenCodeGo_def PlatformComposite_def

section \<open>Kinds of groups\<close>

definition SubscriptionTypeStandard :: string where "SubscriptionTypeStandard = ''standard''"
definition SubscriptionTypeSubscription :: string where "SubscriptionTypeSubscription = ''subscription''"
definition StatusActive :: string where "StatusActive = ''active''"

lemmas kind_defs [go_def] = SubscriptionTypeStandard_def SubscriptionTypeSubscription_def StatusActive_def

section \<open>Floating-point values\<close>

datatype float64 = Fin rat | PInf | NInf | NaN

definition IsNaN :: "float64 \<Rightarrow> bool" where "IsNaN x \<longleftrightarrow> x = NaN"
definition IsInf :: "float64 \<Rightarrow> bool" where "IsInf x \<longleftrightarrow> x = PInf \<or> x = NInf"

text \<open>The comparison \<open><\<close>: false as soon as one side is not a number.\<close>

fun flt :: "float64 \<Rightarrow> float64 \<Rightarrow> bool" where
  "flt (Fin x) (Fin y) \<longleftrightarrow> x < y"
| "flt NInf y \<longleftrightarrow> y \<noteq> NInf \<and> y \<noteq> NaN"
| "flt x PInf \<longleftrightarrow> x \<noteq> PInf \<and> x \<noteq> NaN"
| "flt _ _ \<longleftrightarrow> False"

fun feq :: "float64 \<Rightarrow> float64 \<Rightarrow> bool" where
  "feq NaN _ \<longleftrightarrow> False"
| "feq x y \<longleftrightarrow> x = y"

definition fle :: "float64 \<Rightarrow> float64 \<Rightarrow> bool" where
  "fle x y \<longleftrightarrow> flt x y \<or> feq x y"

text \<open>Addition; the sum of two finite numbers is exact.\<close>

fun fadd :: "float64 \<Rightarrow> float64 \<Rightarrow> float64" where
  "fadd (Fin x) (Fin y) = Fin (x + y)"
| "fadd NaN _ = NaN"
| "fadd _ NaN = NaN"
| "fadd PInf y = (if y = NInf then NaN else PInf)"
| "fadd NInf y = (if y = PInf then NaN else NInf)"
| "fadd (Fin _) y = y"

lemmas float_defs [go_def] = IsNaN_def IsInf_def fle_def

end
