(* ===== verification/CompositeRouting.thy ===== *)
theory CompositeRouting
  imports Platforms "HOL-Library.Product_Lexorder"
begin

text \<open>
  Routing of a request made through a composite group: the route data and its normalisation
  (\<open>service/composite_model_route.go\<close>), the resolver (\<open>service/composite_route_resolver.go\<close>), the
  detector of a provider from a model name and the request context
  (\<open>service/composite_platform.go\<close>), with the Adobe alias table the detector consults
  (\<open>pkg/adobe/catalog.go\<close>). The repository and the account catalogue the resolver calls are
  function arguments, as they are function and interface fields of its struct.
\<close>

section \<open>Routes\<close>

definition CompositeRouteMatchExact :: string where "CompositeRouteMatchExact = ''exact''"
definition CompositeRouteMatchPrefix :: string where "CompositeRouteMatchPrefix = ''prefix''"
definition CompositeRouteEndpointAny :: string where "CompositeRouteEndpointAny = ''any''"
definition CompositeRouteEndpointMessages :: string where "CompositeRouteEndpointMessages = ''messages''"
definition CompositeRouteEndpointCountTokens :: string where "CompositeRouteEndpointCountTokens = ''count_tokens''"
definition CompositeRouteEndpointResponses :: string where "CompositeRouteEndpointResponses = ''responses''"
definition CompositeRouteEndpointChatCompletions :: string where
  "CompositeRouteEndpointChatCompletions = ''chat_completions''"
definition CompositeRouteEndpointEmbeddings :: string where "CompositeRouteEndpointEmbeddings = ''embeddings''"
definition CompositeRouteEndpointImages :: string where "CompositeRouteEndpointImages = ''images''"
definition CompositeRouteEndpointGemini :: string where "CompositeRouteEndpointGemini = ''gemini''"
definition CompositeRouteSourceExplicit :: string where "CompositeRouteSourceExplicit = ''route''"
definition CompositeRouteSourceDetector :: string where "CompositeRouteSourceDetector = ''detector''"
definition CompositeRouteSourceAccount :: string where "CompositeRouteSourceAccount = ''account_model''"

lemmas match_defs [go_def] = CompositeRouteMatchExact_def CompositeRouteMatchPrefix_def
lemmas endpoint_defs [go_def] = CompositeRouteEndpointAny_def CompositeRouteEndpointMessages_def
  CompositeRouteEndpointCountTokens_def CompositeRouteEndpointResponses_def
  CompositeRouteEndpointChatCompletions_def CompositeRouteEndpointEmbeddings_def
  CompositeRouteEndpointImages_def CompositeRouteEndpointGemini_def
lemmas source_defs [go_def] = CompositeRouteSourceExplicit_def CompositeRouteSourceDetector_def
  CompositeRouteSourceAccount_def

record CompositeModelOwnership =
  ow_TargetPlatform :: string
  ow_Matched :: bool
  Ambiguous :: bool

datatype composite_error =
    ErrCompositeRouteNotFound
  | ErrCompositeRouteExists
  | ErrSimpleMode
  | ErrGroupLookup
  | ErrNotComposite int
  | ErrNoRouteRepository
  | ErrPublicModelRequired
  | ErrTargetPlatform
  | ErrPersistence               \<comment> \<open>any other error of the database layer\<close>
  | ErrListRoutes composite_error
  | ErrOwnership composite_error

record CompositeModelRoute =
  ID :: int
  GroupID :: int
  PublicModel :: string
  MatchType :: string
  TargetPlatform :: string
  UpstreamModel :: string
  Endpoint :: string
  Priority :: int
  Enabled :: bool
  Notes :: string
  CreatedAt :: gotime
  UpdatedAt :: gotime

record CompositeRouteDecision =
  Matched :: bool
  Source :: string
  dec_GroupID :: int
  dec_PublicModel :: string
  dec_TargetPlatform :: string
  dec_UpstreamModel :: string
  dec_Endpoint :: string
  Route :: "CompositeModelRoute option"
  dec_Reason :: string

record CompositeRouteInput =
  in_PublicModel :: string
  in_MatchType :: string
  in_TargetPlatform :: string
  in_UpstreamModel :: string
  in_Endpoint :: string
  in_Priority :: int
  in_Enabled :: bool
  in_Notes :: string

definition normalizeCompositeRouteEndpoint :: "string \<Rightarrow> string" where
  "normalizeCompositeRouteEndpoint endpoint =
     (let endpoint = ToLower (TrimSpace endpoint)
      in if endpoint = [] then CompositeRouteEndpointAny
         else if endpoint \<in> set [CompositeRouteEndpointMessages, CompositeRouteEndpointCountTokens,
                CompositeRouteEndpointResponses, CompositeRouteEndpointChatCompletions,
                CompositeRouteEndpointEmbeddings, CompositeRouteEndpointImages,
                CompositeRouteEndpointGemini]
         then endpoint
         else CompositeRouteEndpointAny)"

definition normalizeCompositeRouteMatchType :: "string \<Rightarrow> string" where
  "normalizeCompositeRouteMatchType matchType =
     (if ToLower (TrimSpace matchType) = CompositeRouteMatchPrefix then CompositeRouteMatchPrefix
      else CompositeRouteMatchExact)"

definition normalizeCompositeRouteInput :: "CompositeRouteInput \<Rightarrow> CompositeRouteInput" where
  "normalizeCompositeRouteInput input =
     (let public = TrimSpace (in_PublicModel input);
          mtype = normalizeCompositeRouteMatchType (in_MatchType input);
          upstream = TrimSpace (in_UpstreamModel input)
      in input\<lparr>in_PublicModel := public,
               in_MatchType := mtype,
               in_TargetPlatform := TrimSpace (in_TargetPlatform input),
               in_UpstreamModel :=
                 (if upstream = [] \<and> mtype = CompositeRouteMatchExact then public else upstream),
               in_Endpoint := normalizeCompositeRouteEndpoint (in_Endpoint input),
               in_Notes := TrimSpace (in_Notes input)\<rparr>)"

section \<open>The choice among explicit routes\<close>

record composite_candidate =
  route :: CompositeModelRoute
  matchStrength :: int
  endpointWeight :: int
  prefixLen :: int

text \<open>One pass of the loop: \<open>None\<close> is a \<open>continue\<close>.\<close>

definition route_candidate :: "string \<Rightarrow> string \<Rightarrow> CompositeModelRoute \<Rightarrow> composite_candidate option" where
  "route_candidate model endpoint r =
     (let r = r\<lparr>Endpoint := normalizeCompositeRouteEndpoint (Endpoint r)\<rparr>
      in if Endpoint r \<noteq> endpoint \<and> Endpoint r \<noteq> CompositeRouteEndpointAny then None
         else
           let r = r\<lparr>MatchType := normalizeCompositeRouteMatchType (MatchType r)\<rparr>;
               publicModel = TrimSpace (PublicModel r);
               weight = (if Endpoint r = endpoint then 1 else 0);
               found = (\<lambda>strength. Some \<lparr>route = r, matchStrength = strength,
                          endpointWeight = weight, prefixLen = int (length publicModel)\<rparr>)
           in if publicModel = [] then None
              else if MatchType r = CompositeRouteMatchExact then
                (if publicModel \<noteq> model then None else found 2)
              else if MatchType r = CompositeRouteMatchPrefix then
                (if \<not> HasPrefix model publicModel then None else found 1)
              else None)"

definition candidate_less :: "composite_candidate \<Rightarrow> composite_candidate \<Rightarrow> bool" where
  "candidate_less a b =
     (if matchStrength a \<noteq> matchStrength b then matchStrength a > matchStrength b
      else if endpointWeight a \<noteq> endpointWeight b then endpointWeight a > endpointWeight b
      else if prefixLen a \<noteq> prefixLen b then prefixLen a > prefixLen b
      else if Priority (route a) \<noteq> Priority (route b) then Priority (route a) < Priority (route b)
      else ID (route a) < ID (route b))"

definition matchCompositeRoute ::
    "CompositeModelRoute list \<Rightarrow> string \<Rightarrow> string \<Rightarrow> CompositeModelRoute option" where
  "matchCompositeRoute routes model endpoint =
     (if routes = [] then None
      else
        let candidates = List.map_filter (route_candidate model endpoint) routes
        in if candidates = [] then None
           else Some (route (hd (sort_by candidate_less candidates))))"

section \<open>Detection of the provider from the model name\<close>

definition externalImageModelAliases :: "(string \<times> string) list" where
  "externalImageModelAliases =
     [(''gpt-image-2'', ''firefly-gpt-image-2''),
      (''gpt-image-1.5'', ''firefly-gpt-image-1.5''),
      (''gpt-image-2.5-flare'', ''firefly-gpt-image-2-5-flare''),
      (''gpt-image-2.5-sunburst'', ''firefly-gpt-image-2-5-prism''),
      (''gpt-image-2.5-prism'', ''firefly-gpt-image-2-5-prism''),
      (''gpt-image'', ''firefly-gpt-image-2''),
      (''gpt-image-1'', ''firefly-gpt-image-2''),
      (''gpt-image-1-mini'', ''firefly-gpt-image-2''),
      (''gemini-2.5-flash-image'', ''firefly-nano-banana''),
      (''gemini-2.5-flash-image-preview'', ''firefly-nano-banana''),
      (''gemini-3-pro-image'', ''firefly-nano-banana-pro''),
      (''gemini-3-pro-image-preview'', ''firefly-nano-banana-pro''),
      (''gemini-3.1-flash-image'', ''firefly-nano-banana2''),
      (''gemini-3.1-flash-image-preview'', ''firefly-nano-banana2''),
      (''nano-banana-pro'', ''firefly-nano-banana-pro''),
      (''nano-banana'', ''firefly-nano-banana''),
      (''nano-banana2'', ''firefly-nano-banana2''),
      (''flux-pro'', ''firefly-flux-pro''),
      (''flux-ultra'', ''firefly-flux-ultra''),
      (''imagen-4'', ''firefly-imagen-4''),
      (''imagen-4-fast'', ''firefly-imagen-4-fast''),
      (''gpt-4o-image'', ''firefly-gpt-4o-image''),
      (''runway-gen4-image'', ''firefly-runway-gen4-image'')]"

definition IsExternalImageModelID :: "string \<Rightarrow> bool" where
  "IsExternalImageModelID modelID \<longleftrightarrow>
     map_of externalImageModelAliases (ToLower (TrimSpace modelID)) \<noteq> None"

definition hasOpenAISeriesPrefix :: "string \<Rightarrow> bool" where
  "hasOpenAISeriesPrefix model \<longleftrightarrow>
     list_ex (\<lambda>prefix. model = prefix \<or> HasPrefix model (prefix @ ''-'')) [''o1'', ''o3'', ''o4'', ''o5'']"

definition isGeminiImageSharedName :: "string \<Rightarrow> bool" where
  "isGeminiImageSharedName model \<longleftrightarrow> HasPrefix model ''gemini-'' \<and> IsExternalImageModelID model"

definition IsCompositeSharedGeminiImageModel :: "string \<Rightarrow> bool" where
  "IsCompositeSharedGeminiImageModel model =
     isGeminiImageSharedName (TrimPrefix (ToLower (TrimSpace model)) ''models/'')"

text \<open>The switch on the provider part of \<open>provider/model\<close>; \<open>None\<close> falls through.\<close>

definition provider_platform :: "string \<Rightarrow> string option" where
  "provider_platform provider =
     (if provider \<in> set [''anthropic'', ''claude''] then Some PlatformAnthropic
      else if provider \<in> set [''openai'', ''chatgpt''] then Some PlatformOpenAI
      else if provider \<in> set [''google'', ''google-ai-studio'', ''gemini''] then Some PlatformGemini
      else if provider \<in> set [''xai'', ''x-ai'', ''grok''] then Some PlatformGrok
      else if provider \<in> set [''kimi'', ''moonshot''] then Some PlatformKimi
      else if provider \<in> set [''zhipu'', ''glm'', ''bigmodel''] then Some PlatformZhipu
      else if provider = ''deepseek'' then Some PlatformDeepseek
      else if provider = ''minimax'' then Some PlatformMiniMax
      else if provider \<in> set [''typesafe'', ''jev''] then Some PlatformTypeSafe
      else None)"

text \<open>The switch on the bare model name, in the order of its cases.\<close>

definition name_platform :: "string \<Rightarrow> string option" where
  "name_platform normalized =
     (let starts = (\<lambda>ps. list_ex (HasPrefix normalized) ps)
      in if starts [''anthropic.claude-'', ''claude-''] then Some PlatformAnthropic
         else if normalized = ''gpt-image'' \<or> HasPrefix normalized ''gpt-image-'' then None
         else if isGeminiImageSharedName normalized then None
         else if starts [''nano-banana'', ''flux-'', ''imagen-'', ''firefly-'', ''runway-gen4'']
                 \<or> IsExternalImageModelID normalized then Some PlatformAdobe
         else if starts [''gpt-'', ''chatgpt-'', ''codex-'', ''text-embedding-'', ''text-moderation-'',
                         ''omni-moderation-'', ''dall-e-'', ''tts-'', ''whisper-'']
                 \<or> hasOpenAISeriesPrefix normalized then Some PlatformOpenAI
         else if starts [''gemini-'', ''learnlm-''] then Some PlatformGemini
         else if normalized = ''grok'' \<or> HasPrefix normalized ''grok-'' then Some PlatformGrok
         else if normalized = ''k3'' \<or> normalized = ''k3-256k'' \<or> starts [''kimi-'', ''moonshot-'']
              then Some PlatformKimi
         else if starts [''glm-''] then Some PlatformZhipu
         else if starts [''deepseek-''] then Some PlatformDeepseek
         else if starts [''minimax-'', ''abab5'', ''abab6'', ''abab7''] then Some PlatformMiniMax
         else if normalized = ''jev-latest'' \<or> starts [''jev-''] then Some PlatformTypeSafe
         else None)"

text \<open>Go returns a platform and a flag; \<open>("", false)\<close> is \<open>None\<close>.\<close>

definition DetectModelPlatform :: "string \<Rightarrow> string option" where
  "DetectModelPlatform model =
     (let normalized = ToLower (TrimSpace model)
      in if normalized = [] then None
         else
           let normalized = TrimPrefix normalized ''models/''
           in case Index normalized ''/'' of
                Some slash \<Rightarrow>
                  (if slash > 0 then
                     (let provider = TrimSpace (take slash normalized);
                          rest = TrimSpace (drop (slash + 1) normalized)
                      in case provider_platform provider of
                           Some p \<Rightarrow> Some p
                         | None \<Rightarrow>
                             name_platform (if rest \<noteq> [] then TrimPrefix rest ''models/'' else normalized))
                   else name_platform normalized)
              | None \<Rightarrow> name_platform normalized)"

definition isConcreteRequestPlatform :: "string \<Rightarrow> bool" where
  "isConcreteRequestPlatform platform \<longleftrightarrow>
     platform \<in> set [PlatformAnthropic, PlatformOpenAI, PlatformGemini, PlatformAntigravity, PlatformKiro,
       PlatformGrok, PlatformAdobe, PlatformKimi, PlatformZhipu, PlatformDeepseek, PlatformMiniMax,
       PlatformOpenCodeGo, PlatformTypeSafe]"

definition compositeSharedImagePlatform :: "string \<Rightarrow> string \<Rightarrow> string option" where
  "compositeSharedImagePlatform model endpoint =
     (if \<not> IsCompositeSharedGeminiImageModel model then None
      else if endpoint = CompositeRouteEndpointImages then Some PlatformAdobe
      else if endpoint \<in> set [CompositeRouteEndpointMessages, CompositeRouteEndpointCountTokens,
                CompositeRouteEndpointResponses, CompositeRouteEndpointChatCompletions,
                CompositeRouteEndpointEmbeddings] then Some PlatformGemini
      else None)"

section \<open>The resolver\<close>

text \<open>
  The fields of the resolver: the repository's \<open>ListByGroup\<close> and the account catalogue, either of
  them nil. A nil resolver behaves as one with both fields nil.
\<close>

record CompositeRouteResolver =
  repo :: "(int \<Rightarrow> bool \<Rightarrow> composite_error + CompositeModelRoute list) option"
  modelOwnershipResolver :: "(int \<Rightarrow> string \<Rightarrow> composite_error + CompositeModelOwnership) option"

definition no_decision :: "int \<Rightarrow> string \<Rightarrow> string \<Rightarrow> string \<Rightarrow> CompositeRouteDecision" where
  "no_decision groupID model endpoint reason =
     \<lparr>Matched = False, Source = [], dec_GroupID = groupID, dec_PublicModel = model,
      dec_TargetPlatform = [], dec_UpstreamModel = [], dec_Endpoint = endpoint, Route = None,
      dec_Reason = reason\<rparr>"

definition matched_decision ::
    "string \<Rightarrow> int \<Rightarrow> string \<Rightarrow> string \<Rightarrow> string \<Rightarrow> string \<Rightarrow> CompositeModelRoute option \<Rightarrow> CompositeRouteDecision" where
  "matched_decision source groupID model platform upstream endpoint r =
     \<lparr>Matched = True, Source = source, dec_GroupID = groupID, dec_PublicModel = model,
      dec_TargetPlatform = platform, dec_UpstreamModel = upstream, dec_Endpoint = endpoint, Route = r,
      dec_Reason = []\<rparr>"

text \<open>The last stage: the built-in detector.\<close>

definition detect_decision :: "int \<Rightarrow> string \<Rightarrow> string \<Rightarrow> CompositeRouteDecision" where
  "detect_decision groupID model endpoint =
     (case DetectModelPlatform model of
        Some platform \<Rightarrow>
          matched_decision CompositeRouteSourceDetector groupID model platform model endpoint None
      | None \<Rightarrow> no_decision groupID model endpoint ''no explicit route or built-in detector match'')"

text \<open>The stages after the explicit routes: shared image names, account ownership, detector.\<close>

definition implicit_decision ::
    "(int \<Rightarrow> string \<Rightarrow> composite_error + CompositeModelOwnership) option \<Rightarrow> int \<Rightarrow> string \<Rightarrow> string
      \<Rightarrow> CompositeRouteDecision \<times> composite_error option" where
  "implicit_decision own groupID model endpoint =
     (case compositeSharedImagePlatform model endpoint of
        Some platform \<Rightarrow>
          (matched_decision CompositeRouteSourceDetector groupID model platform model endpoint None, None)
      | None \<Rightarrow>
          (case (if groupID > 0 then own else None) of
             None \<Rightarrow> (detect_decision groupID model endpoint, None)
           | Some resolver \<Rightarrow>
               (case resolver groupID model of
                  Inl e \<Rightarrow>
                    (if DetectModelPlatform model = None \<and> \<not> IsCompositeSharedGeminiImageModel model
                     then (no_decision groupID model endpoint [], Some (ErrOwnership e))
                     else (detect_decision groupID model endpoint, None))
                | Inr ow \<Rightarrow>
                    (if Ambiguous ow then
                       (no_decision groupID model endpoint
                          ''model is exposed by multiple provider platforms'', None)
                     else if ow_Matched ow then
                       (let platform = TrimSpace (ow_TargetPlatform ow)
                        in if \<not> isConcreteRequestPlatform platform then
                             (no_decision groupID model endpoint
                                ''account model ownership has no concrete target platform'', None)
                           else (matched_decision CompositeRouteSourceAccount groupID model platform model
                                   endpoint None, None))
                     else (detect_decision groupID model endpoint, None)))))"

definition explicit_decision :: "int \<Rightarrow> string \<Rightarrow> string \<Rightarrow> CompositeModelRoute \<Rightarrow> CompositeRouteDecision" where
  "explicit_decision groupID model endpoint r =
     (let upstream = TrimSpace (UpstreamModel r)
      in matched_decision CompositeRouteSourceExplicit groupID model (TargetPlatform r)
           (if upstream = [] then model else upstream) endpoint (Some r))"

definition Resolve ::
    "CompositeRouteResolver \<Rightarrow> int \<Rightarrow> string \<Rightarrow> string \<Rightarrow> CompositeRouteDecision \<times> composite_error option" where
  "Resolve rs groupID model endpoint =
     (let model = TrimSpace model;
          endpoint = normalizeCompositeRouteEndpoint endpoint
      in if model = [] then (no_decision groupID model endpoint ''model is required'', None)
         else
           case (if groupID > 0 then repo rs else None) of
             None \<Rightarrow> implicit_decision (modelOwnershipResolver rs) groupID model endpoint
           | Some listByGroup \<Rightarrow>
               (case listByGroup groupID False of
                  Inl e \<Rightarrow> (no_decision groupID model endpoint [], Some (ErrListRoutes e))
                | Inr routes \<Rightarrow>
                    (case matchCompositeRoute routes model endpoint of
                       Some r \<Rightarrow> (explicit_decision groupID model endpoint r, None)
                     | None \<Rightarrow> implicit_decision (modelOwnershipResolver rs) groupID model endpoint)))"

section \<open>The decision in the request context\<close>

datatype ctx_key =
  ResolvedTargetPlatform | ResolvedUpstreamModel | RequestedPublicModel | CompositeRouteSource

text \<open>A context carries string values under these keys; \<open>None\<close> is a nil context.\<close>

type_synonym context_values = "ctx_key \<rightharpoonup> string"

definition WithResolvedTargetPlatform :: "context_values option \<Rightarrow> string \<Rightarrow> context_values option" where
  "WithResolvedTargetPlatform ctx platform =
     (let platform = TrimSpace platform
      in case ctx of
           None \<Rightarrow> None
         | Some m \<Rightarrow> if platform = [] then ctx else Some (m(ResolvedTargetPlatform \<mapsto> platform)))"

text \<open>\<open>context.WithValue\<close> with a trimmed value, skipped when it is blank.\<close>

definition with_trimmed :: "ctx_key \<Rightarrow> string \<Rightarrow> context_values \<Rightarrow> context_values" where
  "with_trimmed k v m = (let v = TrimSpace v in if v \<noteq> [] then m(k \<mapsto> v) else m)"

definition WithCompositeRouteDecision ::
    "context_values option \<Rightarrow> CompositeRouteDecision \<Rightarrow> context_values option" where
  "WithCompositeRouteDecision ctx d =
     (if ctx = None \<or> \<not> Matched d then ctx
      else map_option
             (\<lambda>m. with_trimmed CompositeRouteSource (Source d)
                    (with_trimmed RequestedPublicModel (dec_PublicModel d)
                      (with_trimmed ResolvedUpstreamModel (dec_UpstreamModel d) m)))
             (WithResolvedTargetPlatform ctx (dec_TargetPlatform d)))"

definition value_from_context :: "ctx_key \<Rightarrow> context_values option \<Rightarrow> string option" where
  "value_from_context k ctx =
     (case ctx of
        None \<Rightarrow> None
      | Some m \<Rightarrow>
          (case m k of
             None \<Rightarrow> None
           | Some v \<Rightarrow> (let v = TrimSpace v in if v = [] then None else Some v)))"

definition ResolvedTargetPlatformFromContext :: "context_values option \<Rightarrow> string option" where
  "ResolvedTargetPlatformFromContext = value_from_context ResolvedTargetPlatform"

definition ResolvedUpstreamModelFromContext :: "context_values option \<Rightarrow> string option" where
  "ResolvedUpstreamModelFromContext = value_from_context ResolvedUpstreamModel"

definition RequestedPublicModelFromContext :: "context_values option \<Rightarrow> string option" where
  "RequestedPublicModelFromContext = value_from_context RequestedPublicModel"

definition CompositeRouteSourceFromContext :: "context_values option \<Rightarrow> string option" where
  "CompositeRouteSourceFromContext = value_from_context CompositeRouteSource"

text \<open>A group: its id and its platform; \<open>None\<close> is a nil group.\<close>

definition empty_decision :: CompositeRouteDecision where
  "empty_decision = no_decision 0 [] [] []"

definition resolveCompositeRouteDecision ::
    "CompositeRouteResolver \<Rightarrow> context_values option \<Rightarrow> (int \<times> string) option \<Rightarrow> string \<Rightarrow> string
      \<Rightarrow> CompositeRouteDecision \<times> bool \<times> composite_error option" where
  "resolveCompositeRouteDecision rs ctx grp requestedModel endpoint =
     (case grp of
        None \<Rightarrow> (empty_decision, False, None)
      | Some (gid, gplatform) \<Rightarrow>
          if gplatform \<noteq> PlatformComposite then (empty_decision, False, None)
          else
            case ResolvedTargetPlatformFromContext ctx of
              Some platform \<Rightarrow>
                (matched_decision
                   (case CompositeRouteSourceFromContext ctx of Some s \<Rightarrow> s | None \<Rightarrow> CompositeRouteSourceDetector)
                   gid requestedModel platform
                   (case ResolvedUpstreamModelFromContext ctx of Some m \<Rightarrow> m | None \<Rightarrow> requestedModel)
                   (normalizeCompositeRouteEndpoint endpoint) None, True, None)
            | None \<Rightarrow>
                (case Resolve rs gid requestedModel endpoint of
                   (d, Some e) \<Rightarrow> (d, False, Some e)
                 | (d, None) \<Rightarrow> (d, Matched d, None)))"

section \<open>Normal forms\<close>

lemma normalizeCompositeRouteEndpoint_range:
  "normalizeCompositeRouteEndpoint e \<in> {CompositeRouteEndpointAny, CompositeRouteEndpointMessages,
     CompositeRouteEndpointCountTokens, CompositeRouteEndpointResponses,
     CompositeRouteEndpointChatCompletions, CompositeRouteEndpointEmbeddings,
     CompositeRouteEndpointImages, CompositeRouteEndpointGemini}"
  by (auto simp: normalizeCompositeRouteEndpoint_def Let_def)

lemma endpoint_names_fixed:
  "e \<in> {CompositeRouteEndpointAny, CompositeRouteEndpointMessages,
     CompositeRouteEndpointCountTokens, CompositeRouteEndpointResponses,
     CompositeRouteEndpointChatCompletions, CompositeRouteEndpointEmbeddings,
     CompositeRouteEndpointImages, CompositeRouteEndpointGemini} \<Longrightarrow>
   normalizeCompositeRouteEndpoint e = e"
  by (auto simp: normalizeCompositeRouteEndpoint_def go_def TrimSpace_visible visible_def ToLower_def lower_char_def)

lemma normalizeCompositeRouteEndpoint_idem [simp]:
  "normalizeCompositeRouteEndpoint (normalizeCompositeRouteEndpoint e) = normalizeCompositeRouteEndpoint e"
  by (rule endpoint_names_fixed, rule normalizeCompositeRouteEndpoint_range)

lemma match_type_fixed [simp]:
  "normalizeCompositeRouteMatchType CompositeRouteMatchExact = CompositeRouteMatchExact"
  "normalizeCompositeRouteMatchType CompositeRouteMatchPrefix = CompositeRouteMatchPrefix"
  by (simp_all add: normalizeCompositeRouteMatchType_def go_def TrimSpace_visible visible_def
      ToLower_def lower_char_def)

lemma match_type_distinct [simp]:
  "CompositeRouteMatchExact \<noteq> CompositeRouteMatchPrefix" "CompositeRouteMatchPrefix \<noteq> CompositeRouteMatchExact"
  by (simp_all add: go_def)

lemma normalizeCompositeRouteMatchType_range:
  "normalizeCompositeRouteMatchType m = CompositeRouteMatchExact \<or>
   normalizeCompositeRouteMatchType m = CompositeRouteMatchPrefix"
  by (simp add: normalizeCompositeRouteMatchType_def)

lemma normalizeCompositeRouteMatchType_idem [simp]:
  "normalizeCompositeRouteMatchType (normalizeCompositeRouteMatchType m) = normalizeCompositeRouteMatchType m"
  using normalizeCompositeRouteMatchType_range[of m] by auto

section \<open>The documented order of explicit routes\<close>

text \<open>
  What \<open>docs/COMPOSITE_GROUPS.md\<close> promises, stated over the stored route: when a route applies to
  a model on an endpoint, and the rank that orders the routes that apply (smaller is preferred):
  exact before prefix, endpoint-specific before \<open>any\<close>, longer before shorter, then lower priority
  value, then lower id.
\<close>

definition route_applies :: "string \<Rightarrow> string \<Rightarrow> CompositeModelRoute \<Rightarrow> bool" where
  "route_applies model endpoint r \<longleftrightarrow>
     (normalizeCompositeRouteEndpoint (Endpoint r) = endpoint \<or>
      normalizeCompositeRouteEndpoint (Endpoint r) = CompositeRouteEndpointAny) \<and>
     TrimSpace (PublicModel r) \<noteq> [] \<and>
     (if normalizeCompositeRouteMatchType (MatchType r) = CompositeRouteMatchExact
      then TrimSpace (PublicModel r) = model else prefix (TrimSpace (PublicModel r)) model)"

definition route_rank :: "string \<Rightarrow> CompositeModelRoute \<Rightarrow> nat \<times> nat \<times> int \<times> int \<times> int" where
  "route_rank endpoint r =
     (if normalizeCompositeRouteMatchType (MatchType r) = CompositeRouteMatchExact then 0 else 1,
      if normalizeCompositeRouteEndpoint (Endpoint r) = endpoint then 0 else 1,
      - int (length (TrimSpace (PublicModel r))), Priority r, ID r)"

definition normal_route :: "CompositeModelRoute \<Rightarrow> CompositeModelRoute" where
  "normal_route r = r\<lparr>Endpoint := normalizeCompositeRouteEndpoint (Endpoint r),
                      MatchType := normalizeCompositeRouteMatchType (MatchType r)\<rparr>"

definition candidate_key :: "composite_candidate \<Rightarrow> int \<times> int \<times> int \<times> int \<times> int" where
  "candidate_key c = (- matchStrength c, - endpointWeight c, - prefixLen c, Priority (route c), ID (route c))"

lemma candidate_less_key: "candidate_less a b \<longleftrightarrow> candidate_key a < candidate_key b"
  by (auto simp: candidate_less_def candidate_key_def)

lemma candidate_less_strict_weak: "strict_weak candidate_less"
proof -
  have eq: "candidate_less = (\<lambda>a b. candidate_key a < candidate_key b)"
    by (intro ext) (rule candidate_less_key)
  show ?thesis unfolding eq by (rule strict_weak_key)
qed

lemma route_candidate_None: "route_candidate model endpoint r = None \<longleftrightarrow> \<not> route_applies model endpoint r"
  using normalizeCompositeRouteMatchType_range[of "MatchType r"]
  by (auto simp: route_candidate_def route_applies_def Let_def HasPrefix_iff)

lemma route_candidate_Some:
  assumes "route_candidate model endpoint r = Some c"
  shows "route c = normal_route r" and "route_applies model endpoint r"
    and "prefixLen c = int (length (TrimSpace (PublicModel r)))"
    and "matchStrength c =
      (if normalizeCompositeRouteMatchType (MatchType r) = CompositeRouteMatchExact then 2 else 1)"
    and "endpointWeight c = (if normalizeCompositeRouteEndpoint (Endpoint r) = endpoint then 1 else 0)"
proof -
  show "route_applies model endpoint r" using assms route_candidate_None by (metis option.distinct(1))
  show "route c = normal_route r" "prefixLen c = int (length (TrimSpace (PublicModel r)))"
    "matchStrength c =
      (if normalizeCompositeRouteMatchType (MatchType r) = CompositeRouteMatchExact then 2 else 1)"
    "endpointWeight c = (if normalizeCompositeRouteEndpoint (Endpoint r) = endpoint then 1 else 0)"
    using assms by (auto simp: route_candidate_def normal_route_def Let_def split: if_splits)
qed

lemma candidate_key_rank:
  assumes "route_candidate model endpoint r = Some c" "route_candidate model endpoint r' = Some c'"
  shows "candidate_key c < candidate_key c' \<longleftrightarrow> route_rank endpoint r < route_rank endpoint r'"
  using route_candidate_Some[OF assms(1)] route_candidate_Some[OF assms(2)]
  by (auto simp: candidate_key_def route_rank_def normal_route_def)

lemma set_map_filter: "set (List.map_filter f xs) = {y. \<exists>x \<in> set xs. f x = Some y}"
  by (induction xs) (auto simp: List.map_filter_simps split: option.splits)

lemma matchCompositeRoute_None_iff:
  "matchCompositeRoute routes model endpoint = None \<longleftrightarrow> (\<forall>r \<in> set routes. \<not> route_applies model endpoint r)"
proof -
  have "List.map_filter (route_candidate model endpoint) routes = [] \<longleftrightarrow>
      (\<forall>r \<in> set routes. route_candidate model endpoint r = None)"
    by (induction routes) (auto simp: List.map_filter_simps split: option.splits)
  then show ?thesis by (auto simp: matchCompositeRoute_def Let_def route_candidate_None)
qed

lemma matchCompositeRoute_Some:
  assumes "matchCompositeRoute routes model endpoint = Some r"
  obtains r0 where "r0 \<in> set routes" "r = normal_route r0" "route_applies model endpoint r0"
    "\<forall>r' \<in> set routes. route_applies model endpoint r' \<longrightarrow> route_rank endpoint r0 \<le> route_rank endpoint r'"
proof -
  let ?cs = "List.map_filter (route_candidate model endpoint) routes"
  let ?best = "hd (sort_by candidate_less ?cs)"
  have ne: "?cs \<noteq> []" and r: "r = route ?best"
    using assms by (auto simp: matchCompositeRoute_def Let_def split: if_splits)
  obtain r0 where r0: "r0 \<in> set routes" "route_candidate model endpoint r0 = Some ?best"
    using hd_sort_by_in[OF ne, of candidate_less] by (auto simp: set_map_filter)
  have "route_rank endpoint r0 \<le> route_rank endpoint r'"
    if r': "r' \<in> set routes" "route_applies model endpoint r'" for r'
  proof -
    obtain c where c: "route_candidate model endpoint r' = Some c"
      using r'(2) route_candidate_None by blast
    with r'(1) have "c \<in> set ?cs" by (auto simp: set_map_filter)
    then have "\<not> candidate_less c ?best"
      by (rule hd_sort_by_optimal[OF candidate_less_strict_weak])
    with candidate_key_rank[OF c r0(2)] show ?thesis by (simp add: candidate_less_key)
  qed
  with r0 r route_candidate_Some(1,2)[OF r0(2)] that show thesis by simp
qed

section \<open>What a decision can contain\<close>

lemma provider_platform_range:
  "provider_platform p = Some q \<Longrightarrow> q \<in> {PlatformAnthropic, PlatformOpenAI, PlatformGemini, PlatformGrok,
     PlatformKimi, PlatformZhipu, PlatformDeepseek, PlatformMiniMax, PlatformTypeSafe}"
  unfolding provider_platform_def by (simp split: if_splits)

lemma name_platform_range:
  "name_platform n = Some q \<Longrightarrow> q \<in> {PlatformAnthropic, PlatformAdobe, PlatformOpenAI, PlatformGemini,
     PlatformGrok, PlatformKimi, PlatformZhipu, PlatformDeepseek, PlatformMiniMax, PlatformTypeSafe}"
  unfolding name_platform_def Let_def by (simp split: if_splits)

lemma DetectModelPlatform_range:
  assumes "DetectModelPlatform m = Some q"
  shows "q \<in> {PlatformAnthropic, PlatformAdobe, PlatformOpenAI, PlatformGemini,
     PlatformGrok, PlatformKimi, PlatformZhipu, PlatformDeepseek, PlatformMiniMax, PlatformTypeSafe}"
proof -
  from assms consider n where "name_platform n = Some q" | p where "provider_platform p = Some q"
    unfolding DetectModelPlatform_def Let_def by (auto split: if_splits option.splits)
  then show ?thesis
    by cases (use name_platform_range provider_platform_range in fastforce)+
qed

lemma compositeSharedImagePlatform_range:
  "compositeSharedImagePlatform m e = Some q \<Longrightarrow> q = PlatformAdobe \<or> q = PlatformGemini"
  by (auto simp: compositeSharedImagePlatform_def split: if_splits)

lemma detector_platforms_concrete:
  "DetectModelPlatform m = Some q \<Longrightarrow> isConcreteRequestPlatform q"
  "compositeSharedImagePlatform m e = Some q \<Longrightarrow> isConcreteRequestPlatform q"
  using DetectModelPlatform_range[of m q] compositeSharedImagePlatform_range[of m e q]
  by (auto simp: isConcreteRequestPlatform_def)

lemma detector_platforms_not_kiro:
  "DetectModelPlatform m = Some q \<Longrightarrow> q \<noteq> PlatformKiro"
  "compositeSharedImagePlatform m e = Some q \<Longrightarrow> q \<noteq> PlatformKiro"
  using DetectModelPlatform_range[of m q] compositeSharedImagePlatform_range[of m e q]
  by (auto simp: go_def)

lemma matched_decision_sel [simp]:
  "Matched (matched_decision s g m p u e r)" "Source (matched_decision s g m p u e r) = s"
  "dec_GroupID (matched_decision s g m p u e r) = g" "dec_PublicModel (matched_decision s g m p u e r) = m"
  "dec_TargetPlatform (matched_decision s g m p u e r) = p"
  "dec_UpstreamModel (matched_decision s g m p u e r) = u" "dec_Endpoint (matched_decision s g m p u e r) = e"
  "Route (matched_decision s g m p u e r) = r"
  by (simp_all add: matched_decision_def)

lemma no_decision_sel [simp]:
  "\<not> Matched (no_decision g m e r)" "Source (no_decision g m e r) = []"
  "dec_TargetPlatform (no_decision g m e r) = []" "Route (no_decision g m e r) = None"
  by (simp_all add: no_decision_def)

text \<open>The shapes of a decision that is not made by an explicit route.\<close>

lemma implicit_decision_cases:
  assumes "implicit_decision own g m e = (d, err)"
  obtains (shared) q where "compositeSharedImagePlatform m e = Some q" "err = None"
      "d = matched_decision CompositeRouteSourceDetector g m q m e None"
  | (account) q where "isConcreteRequestPlatform q" "err = None"
      "d = matched_decision CompositeRouteSourceAccount g m q m e None"
  | (detector) q where "DetectModelPlatform m = Some q" "err = None"
      "d = matched_decision CompositeRouteSourceDetector g m q m e None"
  | (none) r where "d = no_decision g m e r"
proof (cases "compositeSharedImagePlatform m e")
  case (Some q)
  with assms shared show thesis by (auto simp: implicit_decision_def)
next
  case None
  have det: thesis if "d = detect_decision g m e" "err = None"
    using that detector none by (cases "DetectModelPlatform m") (auto simp: detect_decision_def)
  show thesis
  proof (cases "if g > 0 then own else None")
    case None
    with \<open>compositeSharedImagePlatform m e = None\<close> assms det show thesis by (auto simp: implicit_decision_def)
  next
    case (Some f)
    note st = this \<open>compositeSharedImagePlatform m e = None\<close>
    show thesis
    proof (cases "f g m")
      case (Inl x)
      with st assms det none show thesis by (auto simp: implicit_decision_def split: if_splits)
    next
      case (Inr ow)
      with st assms det none account show thesis
        by (auto simp: implicit_decision_def Let_def split: if_splits)
    qed
  qed
qed

lemma Resolve_cases:
  assumes "Resolve rs g m e = (d, err)"
  obtains (explicit) f routes r where "repo rs = Some f" "f g False = Inr routes" "0 < g"
      "matchCompositeRoute routes (TrimSpace m) (normalizeCompositeRouteEndpoint e) = Some r"
      "d = explicit_decision g (TrimSpace m) (normalizeCompositeRouteEndpoint e) r" "err = None"
  | (implicit)
      "implicit_decision (modelOwnershipResolver rs) g (TrimSpace m) (normalizeCompositeRouteEndpoint e) = (d, err)"
  | (none) r where "d = no_decision g (TrimSpace m) (normalizeCompositeRouteEndpoint e) r"
  using assms unfolding Resolve_def Let_def by (auto split: if_splits option.splits sum.splits)

section \<open>Properties\<close>

lemma implicit_not_explicit:
  "implicit_decision own g m e = (d, err) \<Longrightarrow> Source d \<noteq> CompositeRouteSourceExplicit"
  by (erule implicit_decision_cases) (auto simp: go_def)

text \<open>
  C6. Explicit routes decide first and in the documented order. For a group with a readable route
  table, a request is decided by an explicit route exactly when some enabled route of the group
  applies to its model and endpoint; the route taken is one with the least rank (exact before prefix,
  endpoint-specific before \<open>any\<close>, longer prefix first, then priority, then id), the target platform
  is that route's, and the upstream model is the route's or, when that is blank, the requested model.
\<close>

theorem Resolve_takes_best_route:
  assumes "repo rs = Some f" and "f g False = Inr routes" and "0 < g" and "TrimSpace m \<noteq> []"
    and "Resolve rs g m e = (d, err)"
  shows "(Source d = CompositeRouteSourceExplicit \<longleftrightarrow>
       (\<exists>r \<in> set routes. route_applies (TrimSpace m) (normalizeCompositeRouteEndpoint e) r)) \<and>
     (Source d = CompositeRouteSourceExplicit \<longrightarrow> err = None \<and> Matched d \<and>
       (\<exists>r \<in> set routes. route_applies (TrimSpace m) (normalizeCompositeRouteEndpoint e) r \<and>
         Route d = Some (normal_route r) \<and> dec_TargetPlatform d = TargetPlatform r \<and>
         dec_UpstreamModel d =
           (if TrimSpace (UpstreamModel r) = [] then TrimSpace m else TrimSpace (UpstreamModel r)) \<and>
         (\<forall>r' \<in> set routes. route_applies (TrimSpace m) (normalizeCompositeRouteEndpoint e) r' \<longrightarrow>
           route_rank (normalizeCompositeRouteEndpoint e) r \<le> route_rank (normalizeCompositeRouteEndpoint e) r')))"
proof (cases "matchCompositeRoute routes (TrimSpace m) (normalizeCompositeRouteEndpoint e)")
  case None
  with assms have "implicit_decision (modelOwnershipResolver rs) g (TrimSpace m)
      (normalizeCompositeRouteEndpoint e) = (d, err)"
    by (simp add: Resolve_def Let_def)
  then have "Source d \<noteq> CompositeRouteSourceExplicit" by (rule implicit_not_explicit)
  moreover from None have "\<forall>r \<in> set routes. \<not> route_applies (TrimSpace m) (normalizeCompositeRouteEndpoint e) r"
    by (simp add: matchCompositeRoute_None_iff)
  ultimately show ?thesis by blast
next
  case (Some r)
  with assms have d: "d = explicit_decision g (TrimSpace m) (normalizeCompositeRouteEndpoint e) r" "err = None"
    by (simp_all add: Resolve_def Let_def)
  from Some obtain r0 where r0: "r0 \<in> set routes" "r = normal_route r0"
    "route_applies (TrimSpace m) (normalizeCompositeRouteEndpoint e) r0"
    "\<forall>r' \<in> set routes. route_applies (TrimSpace m) (normalizeCompositeRouteEndpoint e) r' \<longrightarrow>
      route_rank (normalizeCompositeRouteEndpoint e) r0 \<le> route_rank (normalizeCompositeRouteEndpoint e) r'"
    by (rule matchCompositeRoute_Some)
  have "Source d = CompositeRouteSourceExplicit \<and> Matched d \<and> Route d = Some (normal_route r0) \<and>
      dec_TargetPlatform d = TargetPlatform r0 \<and> dec_UpstreamModel d =
        (if TrimSpace (UpstreamModel r0) = [] then TrimSpace m else TrimSpace (UpstreamModel r0))"
    by (simp add: d(1) r0(2) explicit_decision_def Let_def normal_route_def)
  with r0 d(2) show ?thesis by blast
qed

definition demo_route :: "int \<Rightarrow> string \<Rightarrow> string \<Rightarrow> string \<Rightarrow> CompositeModelRoute" where
  "demo_route i mtype public platform =
     \<lparr>ID = i, GroupID = 1, PublicModel = public, MatchType = mtype, TargetPlatform = platform,
      UpstreamModel = [], Endpoint = CompositeRouteEndpointAny, Priority = 100, Enabled = True,
      Notes = [], CreatedAt = 0, UpdatedAt = 0\<rparr>"

definition demo_resolver :: "CompositeModelRoute list \<Rightarrow> CompositeRouteResolver" where
  "demo_resolver routes = \<lparr>repo = Some (\<lambda>_ _. Inr routes), modelOwnershipResolver = None\<rparr>"

theorem Resolve_takes_best_route_witness:
  "\<exists>d err. Resolve (demo_resolver [demo_route 1 CompositeRouteMatchPrefix ''k'' PlatformKimi,
       demo_route 2 CompositeRouteMatchExact ''k3'' PlatformGrok]) 1 ''k3'' ''messages'' = (d, err) \<and>
     Source d = CompositeRouteSourceExplicit"
proof -
  let ?rs = "[demo_route 1 CompositeRouteMatchPrefix ''k'' PlatformKimi,
    demo_route 2 CompositeRouteMatchExact ''k3'' PlatformGrok]"
  obtain d err where d: "Resolve (demo_resolver ?rs) 1 ''k3'' ''messages'' = (d, err)" by fastforce
  have k3: "TrimSpace ''k3'' = ''k3''" by (simp add: TrimSpace_visible visible_def)
  have "route_applies (TrimSpace ''k3'') (normalizeCompositeRouteEndpoint ''messages'')
      (demo_route 2 CompositeRouteMatchExact ''k3'' PlatformGrok)"
    by (simp add: route_applies_def demo_route_def k3 endpoint_names_fixed)
  moreover have "repo (demo_resolver ?rs) = Some (\<lambda>_ _. Inr ?rs)" "(0::int) < 1" "TrimSpace ''k3'' \<noteq> []"
    by (simp_all add: demo_resolver_def k3)
  ultimately have "Source d = CompositeRouteSourceExplicit"
    using Resolve_takes_best_route[of "demo_resolver ?rs" "\<lambda>_ _. Inr ?rs" 1 ?rs "''k3''" "''messages''" d err] d
    by fastforce
  with d show ?thesis by blast
qed

text \<open>
  The detector never sends a request to Kiro, whose model names are those of Anthropic and
  OpenAI: a decision for Kiro comes from an explicit route or from the mapping of an account.
\<close>

theorem kiro_never_detected:
  assumes "Resolve rs g m e = (d, err)" and "Matched d" and "dec_TargetPlatform d = PlatformKiro"
  shows "Source d = CompositeRouteSourceExplicit \<or> Source d = CompositeRouteSourceAccount"
  using assms(1)
proof (cases rule: Resolve_cases)
  case (explicit f routes r)
  then show ?thesis by (simp add: explicit_decision_def Let_def)
next
  case implicit
  then show ?thesis
    by (cases rule: implicit_decision_cases) (use assms(2,3) detector_platforms_not_kiro in auto)
next
  case (none r)
  then show ?thesis using assms(2) by simp
qed

text \<open>An account catalogue in which a Kiro account claims the model.\<close>

definition kiro_owner :: "int \<Rightarrow> string \<Rightarrow> composite_error + CompositeModelOwnership" where
  "kiro_owner _ _ = Inr \<lparr>ow_TargetPlatform = PlatformKiro, ow_Matched = True, Ambiguous = False\<rparr>"

lemma demo_kiro_Resolve:
  "Resolve \<lparr>repo = None, modelOwnershipResolver = Some kiro_owner\<rparr> 1 ''claude-x'' [] =
     (matched_decision CompositeRouteSourceAccount 1 ''claude-x'' PlatformKiro ''claude-x''
        CompositeRouteEndpointAny None, None)"
proof -
  have t: "TrimSpace ''claude-x'' = ''claude-x''" "TrimSpace PlatformKiro = PlatformKiro"
    by (simp_all add: TrimSpace_visible visible_def go_def)
  have "\<not> IsCompositeSharedGeminiImageModel ''claude-x''"
    by (simp add: IsCompositeSharedGeminiImageModel_def t isGeminiImageSharedName_def ToLower_def
        lower_char_def TrimPrefix_def HasPrefix_def)
  then show ?thesis
    by (simp add: Resolve_def Let_def t implicit_decision_def compositeSharedImagePlatform_def kiro_owner_def
        isConcreteRequestPlatform_def normalizeCompositeRouteEndpoint_def)
qed

theorem kiro_never_detected_witness:
  "\<exists>d. Resolve \<lparr>repo = None, modelOwnershipResolver = Some kiro_owner\<rparr> 1 ''claude-x'' [] = (d, None) \<and>
     dec_TargetPlatform d = PlatformKiro \<and> Source d = CompositeRouteSourceAccount"
proof -
  let ?d = "matched_decision CompositeRouteSourceAccount 1 ''claude-x'' PlatformKiro ''claude-x''
      CompositeRouteEndpointAny None"
  have "Source ?d = CompositeRouteSourceExplicit \<or> Source ?d = CompositeRouteSourceAccount"
    by (rule kiro_never_detected[OF demo_kiro_Resolve]) simp_all
  then have "Source ?d = CompositeRouteSourceAccount" by simp
  with demo_kiro_Resolve show ?thesis by fastforce
qed

lemma Resolve_matched_shape:
  assumes "Resolve rs g m e = (d, err)" "Matched d"
  shows "dec_GroupID d = g" "dec_PublicModel d = TrimSpace m" "dec_Reason d = []"
    "dec_Endpoint d = normalizeCompositeRouteEndpoint e" "TrimSpace (dec_PublicModel d) = dec_PublicModel d"
    "TrimSpace (dec_UpstreamModel d) = dec_UpstreamModel d" "TrimSpace (Source d) = Source d" "Source d \<noteq> []"
    "TrimSpace m \<noteq> [] \<Longrightarrow> dec_UpstreamModel d \<noteq> []"
proof -
  have src: "TrimSpace CompositeRouteSourceExplicit = CompositeRouteSourceExplicit"
    "TrimSpace CompositeRouteSourceAccount = CompositeRouteSourceAccount"
    "TrimSpace CompositeRouteSourceDetector = CompositeRouteSourceDetector"
    "CompositeRouteSourceExplicit \<noteq> []" "CompositeRouteSourceAccount \<noteq> []" "CompositeRouteSourceDetector \<noteq> []"
    by (simp_all add: TrimSpace_visible visible_def go_def)
  from assms(1) obtain s q u r where
    d: "d = matched_decision s g (TrimSpace m) q u (normalizeCompositeRouteEndpoint e) r"
      "s \<in> {CompositeRouteSourceExplicit, CompositeRouteSourceAccount, CompositeRouteSourceDetector}"
      "TrimSpace u = u" "TrimSpace m \<noteq> [] \<longrightarrow> u \<noteq> []"
  proof (cases rule: Resolve_cases)
    case (explicit f routes r)
    then show thesis by (intro that[OF explicit(5)[unfolded explicit_decision_def Let_def]]) auto
  next
    case implicit
    then show thesis by (cases rule: implicit_decision_cases) (use assms(2) that in auto)
  next
    case (none r)
    then show thesis using assms(2) by simp
  qed
  then show "dec_GroupID d = g" "dec_PublicModel d = TrimSpace m" "dec_Reason d = []"
    "dec_Endpoint d = normalizeCompositeRouteEndpoint e" "TrimSpace (dec_PublicModel d) = dec_PublicModel d"
    "TrimSpace (dec_UpstreamModel d) = dec_UpstreamModel d" "TrimSpace (Source d) = Source d" "Source d \<noteq> []"
    "TrimSpace m \<noteq> [] \<Longrightarrow> dec_UpstreamModel d \<noteq> []"
    using src by (auto simp: matched_decision_def)
qed

lemma concrete_trimmed: "isConcreteRequestPlatform p \<Longrightarrow> TrimSpace p = p \<and> p \<noteq> []"
  by (auto simp: isConcreteRequestPlatform_def TrimSpace_visible visible_def go_def)

lemma with_trimmed_lookup:
  "with_trimmed k v m k' = (if k = k' \<and> TrimSpace v \<noteq> [] then Some (TrimSpace v) else m k')"
  by (simp add: with_trimmed_def Let_def)

lemma decision_in_context:
  assumes "Matched d" "isConcreteRequestPlatform (dec_TargetPlatform d)"
    "TrimSpace (dec_UpstreamModel d) = dec_UpstreamModel d" "dec_UpstreamModel d \<noteq> []"
    "TrimSpace (Source d) = Source d" "Source d \<noteq> []"
  shows "ResolvedTargetPlatformFromContext (WithCompositeRouteDecision (Some c) d) = Some (dec_TargetPlatform d)"
    "ResolvedUpstreamModelFromContext (WithCompositeRouteDecision (Some c) d) = Some (dec_UpstreamModel d)"
    "CompositeRouteSourceFromContext (WithCompositeRouteDecision (Some c) d) = Some (Source d)"
  using assms concrete_trimmed[OF assms(2)]
  by (simp_all add: WithCompositeRouteDecision_def WithResolvedTargetPlatform_def with_trimmed_lookup
      value_from_context_def ResolvedTargetPlatformFromContext_def ResolvedUpstreamModelFromContext_def
      CompositeRouteSourceFromContext_def Let_def)

text \<open>
  A decision is made once per request: when the resolver matched a concrete platform and its
  decision was put into the request context, every later resolution of the same model and endpoint
  within that request returns the same decision (the route row itself is not carried), whatever the
  route table and the account catalogue hold by then.
\<close>

theorem decision_stable_within_request:
  assumes "Resolve rs g model endpoint = (d, None)" and "Matched d"
    and "isConcreteRequestPlatform (dec_TargetPlatform d)" and "TrimSpace model \<noteq> []"
  shows "resolveCompositeRouteDecision rs' (WithCompositeRouteDecision (Some c) d)
           (Some (g, PlatformComposite)) (TrimSpace model) endpoint = (d\<lparr>Route := None\<rparr>, True, None)"
proof -
  note sh = Resolve_matched_shape[OF assms(1,2)]
  note ctx = decision_in_context[OF assms(2,3) sh(6) sh(9)[OF assms(4)] sh(7,8), of c]
  have "d\<lparr>Route := None\<rparr> = matched_decision (Source d) g (TrimSpace model) (dec_TargetPlatform d)
      (dec_UpstreamModel d) (normalizeCompositeRouteEndpoint endpoint) None"
    using sh(1-4) assms(2) by (cases d) (simp add: matched_decision_def)
  then show ?thesis by (simp add: resolveCompositeRouteDecision_def ctx)
qed

theorem decision_stable_within_request_witness:
  "\<exists>d. Resolve \<lparr>repo = None, modelOwnershipResolver = Some kiro_owner\<rparr> 1 ''claude-x'' [] = (d, None) \<and>
     resolveCompositeRouteDecision (demo_resolver []) (WithCompositeRouteDecision (Some Map.empty) d)
       (Some (1, PlatformComposite)) (TrimSpace ''claude-x'') [] = (d\<lparr>Route := None\<rparr>, True, None)"
proof -
  let ?d = "matched_decision CompositeRouteSourceAccount 1 ''claude-x'' PlatformKiro ''claude-x''
      CompositeRouteEndpointAny None"
  have "isConcreteRequestPlatform (dec_TargetPlatform ?d)" "TrimSpace ''claude-x'' \<noteq> []"
    by (simp_all add: isConcreteRequestPlatform_def TrimSpace_visible visible_def)
  with decision_stable_within_request[OF demo_kiro_Resolve matched_decision_sel(1)] demo_kiro_Resolve
  show ?thesis by blast
qed

end
