(* ===== verification/CompositeAdmin.thy ===== *)
theory CompositeAdmin
  imports CompositeRouting
begin

text \<open>
  The route registry of composite groups: the repository
  (\<open>repository/composite_model_route_repo.go\<close>) over a model of its table with soft deletion, the
  validators of the schema and the constraints of the migrations, and the administration
  operations (\<open>service/admin_group.go\<close>). A failure of the database other than a constraint of the
  table is an argument of each call.
\<close>

section \<open>The table\<close>

record route_row =
  row :: CompositeModelRoute
  deleted_at :: "gotime option"

record route_table =
  rows :: "route_row list"
  next_id :: int

definition active :: "route_row \<Rightarrow> bool" where
  "active x \<longleftrightarrow> deleted_at x = None"

definition unique_key :: "CompositeModelRoute \<Rightarrow> int \<times> string \<times> string \<times> string" where
  "unique_key r = (GroupID r, Endpoint r, MatchType r, PublicModel r)"

text \<open>The validators the schema declares, run before every save.\<close>

definition ent_validators :: "CompositeModelRoute \<Rightarrow> bool" where
  "ent_validators r \<longleftrightarrow>
     PublicModel r \<noteq> [] \<and> length (PublicModel r) \<le> 200 \<and> length (MatchType r) \<le> 20 \<and>
     length (TargetPlatform r) \<le> 50 \<and> length (UpstreamModel r) \<le> 200 \<and> length (Endpoint r) \<le> 50"

text \<open>The \<open>CHECK\<close> constraints of the table and the range of its \<open>INTEGER\<close> column.\<close>

definition check_constraints :: "CompositeModelRoute \<Rightarrow> bool" where
  "check_constraints r \<longleftrightarrow>
     MatchType r \<in> set [''exact'', ''prefix''] \<and>
     Endpoint r \<in> set [''any'', ''messages'', ''count_tokens'', ''responses'', ''chat_completions'',
       ''embeddings'', ''images'', ''gemini''] \<and>
     TargetPlatform r \<in> set [''anthropic'', ''openai'', ''gemini'', ''antigravity'', ''grok'', ''kimi'',
       ''zhipu'', ''deepseek'', ''kiro'', ''minimax'', ''adobe'', ''opencode_go'', ''typesafe''] \<and>
     - (2 ^ 31) \<le> Priority r \<and> Priority r < 2 ^ 31"

section \<open>The repository\<close>

definition list_order :: "CompositeModelRoute \<Rightarrow> CompositeModelRoute \<Rightarrow> bool" where
  "list_order a b \<longleftrightarrow> (Priority a, ID a) < (Priority b, ID b)"

definition ListByGroup ::
    "bool \<Rightarrow> route_table \<Rightarrow> int \<Rightarrow> bool \<Rightarrow> composite_error + CompositeModelRoute list" where
  "ListByGroup db_fails t groupID includeDisabled =
     (if db_fails then Inl ErrPersistence
      else Inr (sort_by list_order
             (map row (filter (\<lambda>x. active x \<and> GroupID (row x) = groupID \<and> (includeDisabled \<or> Enabled (row x)))
               (rows t)))))"

definition repo_Create ::
    "bool \<Rightarrow> gotime \<Rightarrow> route_table \<Rightarrow> CompositeModelRoute \<Rightarrow> route_table \<times> (composite_error + CompositeModelRoute)" where
  "repo_Create db_fails now t r =
     (if db_fails \<or> \<not> ent_validators r then (t, Inl ErrPersistence)
      else
        let created = r\<lparr>ID := next_id t, CreatedAt := now, UpdatedAt := now\<rparr>;
            t = t\<lparr>next_id := next_id t + 1\<rparr>
        in if \<not> check_constraints r then (t, Inl ErrPersistence)
           else if list_ex (\<lambda>x. active x \<and> unique_key (row x) = unique_key r) (rows t)
           then (t, Inl ErrCompositeRouteExists)
           else (t\<lparr>rows := rows t @ [\<lparr>row = created, deleted_at = None\<rparr>]\<rparr>, Inr created))"

definition write_fields :: "gotime \<Rightarrow> CompositeModelRoute \<Rightarrow> CompositeModelRoute \<Rightarrow> CompositeModelRoute" where
  "write_fields now r old =
     old\<lparr>PublicModel := PublicModel r, MatchType := MatchType r, TargetPlatform := TargetPlatform r,
         UpstreamModel := UpstreamModel r, Endpoint := Endpoint r, Priority := Priority r,
         Enabled := Enabled r, Notes := Notes r, UpdatedAt := now\<rparr>"

definition repo_Update ::
    "bool \<Rightarrow> gotime \<Rightarrow> route_table \<Rightarrow> CompositeModelRoute \<Rightarrow> route_table \<times> (composite_error + CompositeModelRoute)" where
  "repo_Update db_fails now t r =
     (if db_fails \<or> \<not> ent_validators r then (t, Inl ErrPersistence)
      else
        case find (\<lambda>x. ID (row x) = ID r) (rows t) of
          None \<Rightarrow> (t, Inl ErrCompositeRouteNotFound)
        | Some x \<Rightarrow>
            (let updated = write_fields now r (row x)
             in if \<not> check_constraints updated then (t, Inl ErrPersistence)
                else if active x \<and> list_ex (\<lambda>y. ID (row y) \<noteq> ID r \<and> active y \<and>
                          unique_key (row y) = unique_key updated) (rows t)
                then (t, Inl ErrCompositeRouteExists)
                else (t\<lparr>rows := map (\<lambda>y. if ID (row y) = ID r then y\<lparr>row := updated\<rparr> else y) (rows t)\<rparr>,
                      Inr updated)))"

definition repo_Delete :: "bool \<Rightarrow> gotime \<Rightarrow> route_table \<Rightarrow> int \<Rightarrow> route_table \<times> composite_error option" where
  "repo_Delete db_fails now t i =
     (if db_fails then (t, Some ErrPersistence)
      else if list_ex (\<lambda>x. active x \<and> ID (row x) = i) (rows t)
      then (t\<lparr>rows := map (\<lambda>x. if active x \<and> ID (row x) = i then x\<lparr>deleted_at := Some now\<rparr> else x) (rows t)\<rparr>, None)
      else (t, Some ErrCompositeRouteNotFound))"

definition repo_DeleteByGroup :: "bool \<Rightarrow> gotime \<Rightarrow> route_table \<Rightarrow> int \<Rightarrow> route_table \<times> composite_error option" where
  "repo_DeleteByGroup db_fails now t g =
     (if db_fails then (t, Some ErrPersistence)
      else (t\<lparr>rows := map (\<lambda>x. if active x \<and> GroupID (row x) = g then x\<lparr>deleted_at := Some now\<rparr> else x) (rows t)\<rparr>,
            None))"

section \<open>The administration operations\<close>

definition AdminGroupOperationBasic :: string where "AdminGroupOperationBasic = ''basic''"
definition AdminGroupOperationCompositeRoute :: string where "AdminGroupOperationCompositeRoute = ''composite_route''"
definition RunModeSimple :: string where "RunModeSimple = ''simple''"

text \<open>
  What an operation reads of its surroundings: the run mode (\<open>None\<close> a nil configuration), the
  group repository (an error or the platform of the group), whether a route repository is
  configured, whether a read or a write of the database fails, and the clock.
\<close>

record admin_env =
  run_mode :: "string option"
  group_platform :: "int \<Rightarrow> composite_error + string"
  has_repo :: bool
  read_fails :: bool
  write_fails :: bool
  clock :: gotime

definition ValidateSimpleModeGroupOperation :: "string option \<Rightarrow> string \<Rightarrow> composite_error option" where
  "ValidateSimpleModeGroupOperation cfg operation =
     (if cfg = Some RunModeSimple \<and> operation \<noteq> AdminGroupOperationBasic then Some ErrSimpleMode else None)"

definition requireCompositeGroup :: "admin_env \<Rightarrow> int \<Rightarrow> composite_error option" where
  "requireCompositeGroup env groupID =
     (case group_platform env groupID of
        Inl e \<Rightarrow> Some e
      | Inr p \<Rightarrow> if p \<noteq> PlatformComposite then Some (ErrNotComposite groupID) else None)"

text \<open>The checks the four operations on routes open with, in their order.\<close>

definition route_guards :: "admin_env \<Rightarrow> int \<Rightarrow> composite_error option" where
  "route_guards env groupID =
     (case ValidateSimpleModeGroupOperation (run_mode env) AdminGroupOperationCompositeRoute of
        Some e \<Rightarrow> Some e
      | None \<Rightarrow>
          (case requireCompositeGroup env groupID of
             Some e \<Rightarrow> Some e
           | None \<Rightarrow> if \<not> has_repo env then Some ErrNoRouteRepository else None))"

definition compositeRouteBelongsToGroup :: "admin_env \<Rightarrow> route_table \<Rightarrow> int \<Rightarrow> int \<Rightarrow> composite_error + bool" where
  "compositeRouteBelongsToGroup env t groupID routeID =
     bind_res (ListByGroup (read_fails env) t groupID True)
       (\<lambda>routes. Inr (list_ex (\<lambda>r. ID r = routeID) routes))"

definition compositeRouteFromInput :: "int \<Rightarrow> CompositeRouteInput \<Rightarrow> composite_error + CompositeModelRoute" where
  "compositeRouteFromInput groupID input =
     (let input = normalizeCompositeRouteInput input
      in if in_PublicModel input = [] then Inl ErrPublicModelRequired
         else if \<not> isConcreteRequestPlatform (in_TargetPlatform input) then Inl ErrTargetPlatform
         else Inr \<lparr>ID = 0, GroupID = groupID, PublicModel = in_PublicModel input,
                   MatchType = in_MatchType input, TargetPlatform = in_TargetPlatform input,
                   UpstreamModel = in_UpstreamModel input, Endpoint = in_Endpoint input,
                   Priority = (if in_Priority input = 0 then 100 else in_Priority input),
                   Enabled = in_Enabled input, Notes = in_Notes input, CreatedAt = 0, UpdatedAt = 0\<rparr>)"

definition ListCompositeRoutes :: "admin_env \<Rightarrow> route_table \<Rightarrow> int \<Rightarrow> composite_error + CompositeModelRoute list" where
  "ListCompositeRoutes env t groupID =
     (case route_guards env groupID of
        Some e \<Rightarrow> Inl e
      | None \<Rightarrow> ListByGroup (read_fails env) t groupID True)"

definition CreateCompositeRoute ::
    "admin_env \<Rightarrow> route_table \<Rightarrow> int \<Rightarrow> CompositeRouteInput \<Rightarrow> route_table \<times> (composite_error + CompositeModelRoute)" where
  "CreateCompositeRoute env t groupID input =
     (case route_guards env groupID of
        Some e \<Rightarrow> (t, Inl e)
      | None \<Rightarrow>
          (case compositeRouteFromInput groupID input of
             Inl e \<Rightarrow> (t, Inl e)
           | Inr r \<Rightarrow> repo_Create (write_fails env) (clock env) t r))"

definition UpdateCompositeRoute ::
    "admin_env \<Rightarrow> route_table \<Rightarrow> int \<Rightarrow> int \<Rightarrow> CompositeRouteInput \<Rightarrow> route_table \<times> (composite_error + CompositeModelRoute)" where
  "UpdateCompositeRoute env t groupID routeID input =
     (case route_guards env groupID of
        Some e \<Rightarrow> (t, Inl e)
      | None \<Rightarrow>
          (case compositeRouteBelongsToGroup env t groupID routeID of
             Inl e \<Rightarrow> (t, Inl e)
           | Inr False \<Rightarrow> (t, Inl ErrCompositeRouteNotFound)
           | Inr True \<Rightarrow>
               (case compositeRouteFromInput groupID input of
                  Inl e \<Rightarrow> (t, Inl e)
                | Inr r \<Rightarrow> repo_Update (write_fails env) (clock env) t (r\<lparr>ID := routeID\<rparr>))))"

definition DeleteCompositeRoute :: "admin_env \<Rightarrow> route_table \<Rightarrow> int \<Rightarrow> int \<Rightarrow> route_table \<times> composite_error option" where
  "DeleteCompositeRoute env t groupID routeID =
     (case route_guards env groupID of
        Some e \<Rightarrow> (t, Some e)
      | None \<Rightarrow>
          (case compositeRouteBelongsToGroup env t groupID routeID of
             Inl e \<Rightarrow> (t, Some e)
           | Inr False \<Rightarrow> (t, Some ErrCompositeRouteNotFound)
           | Inr True \<Rightarrow> repo_Delete (write_fails env) (clock env) t routeID))"

text \<open>Without a resolver of its own the service makes one from the repository alone.\<close>

definition PreviewCompositeRoute ::
    "admin_env \<Rightarrow> CompositeRouteResolver option \<Rightarrow> route_table \<Rightarrow> int \<Rightarrow> string \<Rightarrow> string \<Rightarrow> composite_error + CompositeRouteDecision" where
  "PreviewCompositeRoute env resolver t groupID model endpoint =
     (case ValidateSimpleModeGroupOperation (run_mode env) AdminGroupOperationCompositeRoute of
        Some e \<Rightarrow> Inl e
      | None \<Rightarrow>
          (case requireCompositeGroup env groupID of
             Some e \<Rightarrow> Inl e
           | None \<Rightarrow>
               (let rs = (case resolver of
                            Some rs \<Rightarrow> rs
                          | None \<Rightarrow> \<lparr>repo = (if has_repo env then Some (ListByGroup (read_fails env) t) else None),
                                     modelOwnershipResolver = None\<rparr>)
                in case Resolve rs groupID model endpoint of
                     (d, Some e) \<Rightarrow> Inl e
                   | (d, None) \<Rightarrow> Inr d)))"

section \<open>The invariant of the registry\<close>

definition route_wf :: "CompositeModelRoute \<Rightarrow> bool" where
  "route_wf r \<longleftrightarrow>
     PublicModel r \<noteq> [] \<and> TrimSpace (PublicModel r) = PublicModel r \<and>
     normalizeCompositeRouteMatchType (MatchType r) = MatchType r \<and>
     normalizeCompositeRouteEndpoint (Endpoint r) = Endpoint r \<and>
     isConcreteRequestPlatform (TargetPlatform r)"

definition rows_wf :: "route_row list \<Rightarrow> int \<Rightarrow> bool" where
  "rows_wf xs n \<longleftrightarrow>
     (\<forall>x \<in> set xs. route_wf (row x) \<and> ID (row x) < n) \<and>
     distinct (map (\<lambda>x. ID (row x)) xs) \<and>
     (\<forall>x \<in> set xs. \<forall>y \<in> set xs. active x \<longrightarrow> active y \<longrightarrow>
        unique_key (row x) = unique_key (row y) \<longrightarrow> ID (row x) = ID (row y))"

definition table_wf :: "route_table \<Rightarrow> bool" where
  "table_wf t \<longleftrightarrow> rows_wf (rows t) (next_id t)"

lemma rows_wfD:
  assumes "rows_wf xs n"
  shows "\<And>x. x \<in> set xs \<Longrightarrow> route_wf (row x)" and "\<And>x. x \<in> set xs \<Longrightarrow> ID (row x) < n"
    and "distinct (map (\<lambda>x. ID (row x)) xs)"
    and "\<And>x y. x \<in> set xs \<Longrightarrow> y \<in> set xs \<Longrightarrow> active x \<Longrightarrow> active y \<Longrightarrow>
        unique_key (row x) = unique_key (row y) \<Longrightarrow> ID (row x) = ID (row y)"
  using assms unfolding rows_wf_def by blast+

lemma same_id_same_row:
  assumes "rows_wf xs n" "x \<in> set xs" "y \<in> set xs" "ID (row x) = ID (row y)"
  shows "x = y"
proof -
  have "inj_on (\<lambda>x. ID (row x)) (set xs)" using rows_wfD(3)[OF assms(1)] by (simp only: distinct_map)
  then show ?thesis by (rule inj_onD) (use assms in simp_all)
qed

lemma rows_wf_append:
  assumes "rows_wf xs n" "route_wf (row x)" "ID (row x) = n"
    and "\<And>y. y \<in> set xs \<Longrightarrow> active y \<Longrightarrow> unique_key (row y) \<noteq> unique_key (row x)"
  shows "rows_wf (xs @ [x]) (n + 1)"
  unfolding rows_wf_def
proof (intro conjI)
  show "\<forall>y \<in> set (xs @ [x]). route_wf (row y) \<and> ID (row y) < n + 1"
    using rows_wfD(1,2)[OF assms(1)] assms(2,3) by force
  have "n \<notin> set (map (\<lambda>x. ID (row x)) xs)" using rows_wfD(2)[OF assms(1)] by fastforce
  then show "distinct (map (\<lambda>x. ID (row x)) (xs @ [x]))" using rows_wfD(3)[OF assms(1)] assms(3) by simp
  show "\<forall>y \<in> set (xs @ [x]). \<forall>z \<in> set (xs @ [x]). active y \<longrightarrow> active z \<longrightarrow>
      unique_key (row y) = unique_key (row z) \<longrightarrow> ID (row y) = ID (row z)"
    using rows_wfD(4)[OF assms(1)] assms(4) by (metis Un_iff set_append set_ConsD empty_iff empty_set)
qed

lemma rows_wf_map:
  assumes "rows_wf xs n"
    and "\<And>x. x \<in> set xs \<Longrightarrow> route_wf (row (f x)) \<and> ID (row (f x)) = ID (row x)"
    and "\<And>x y. x \<in> set xs \<Longrightarrow> y \<in> set xs \<Longrightarrow> active (f x) \<Longrightarrow> active (f y) \<Longrightarrow>
        unique_key (row (f x)) = unique_key (row (f y)) \<Longrightarrow> ID (row x) = ID (row y)"
  shows "rows_wf (map f xs) n"
  unfolding rows_wf_def
proof (intro conjI)
  show "\<forall>x \<in> set (map f xs). route_wf (row x) \<and> ID (row x) < n"
    using rows_wfD(2)[OF assms(1)] assms(2) by simp
  have "map (\<lambda>x. ID (row x)) (map f xs) = map (\<lambda>x. ID (row x)) xs" using assms(2) by simp
  then show "distinct (map (\<lambda>x. ID (row x)) (map f xs))" using rows_wfD(3)[OF assms(1)] by (simp only:)
  show "\<forall>x \<in> set (map f xs). \<forall>y \<in> set (map f xs). active x \<longrightarrow> active y \<longrightarrow>
      unique_key (row x) = unique_key (row y) \<longrightarrow> ID (row x) = ID (row y)"
  proof (intro ballI impI)
    fix x y assume "x \<in> set (map f xs)" "y \<in> set (map f xs)"
    then obtain x0 y0 where m: "x0 \<in> set xs" "y0 \<in> set xs" "x = f x0" "y = f y0" by auto
    assume "active x" "active y" "unique_key (row x) = unique_key (row y)"
    then have "ID (row x0) = ID (row y0)" unfolding m(3,4) by (rule assms(3)[OF m(1,2)])
    then show "ID (row x) = ID (row y)" using assms(2)[OF m(1)] assms(2)[OF m(2)] m(3,4) by metis
  qed
qed

lemma rows_wf_mono: "rows_wf xs n \<Longrightarrow> n \<le> m \<Longrightarrow> rows_wf xs m"
  unfolding rows_wf_def by fastforce

lemma compositeRouteFromInput_wf:
  "compositeRouteFromInput g input = Inr r \<Longrightarrow> route_wf r \<and> GroupID r = g"
  by (auto simp: compositeRouteFromInput_def normalizeCompositeRouteInput_def Let_def route_wf_def split: if_splits)

lemma repo_Create_wf:
  assumes "table_wf t" "route_wf r"
  shows "table_wf (fst (repo_Create fl now t r))"
proof -
  let ?c = "\<lparr>row = r\<lparr>ID := next_id t, CreatedAt := now, UpdatedAt := now\<rparr>, deleted_at = None\<rparr>"
  have key: "unique_key (row ?c) = unique_key r" "route_wf (row ?c)" "ID (row ?c) = next_id t"
    using assms(2) by (simp_all add: unique_key_def route_wf_def)
  have wf: "rows_wf (rows t) (next_id t)" using assms(1) by (simp add: table_wf_def)
  have "rows_wf (rows t @ [?c]) (next_id t + 1)"
    if "\<not> list_ex (\<lambda>x. active x \<and> unique_key (row x) = unique_key r) (rows t)"
    using that by (intro rows_wf_append[OF wf key(2,3)]) (auto simp only: list_ex_iff key(1))
  moreover have "rows_wf (rows t) (next_id t + 1)" using rows_wf_mono[OF wf] by simp
  ultimately show ?thesis using wf by (simp add: repo_Create_def Let_def table_wf_def)
qed

lemma find_by_id:
  assumes "rows_wf xs n" "find (\<lambda>x. ID (row x) = i) xs = Some x"
  shows "x \<in> set xs" "ID (row x) = i" "\<And>y. y \<in> set xs \<Longrightarrow> ID (row y) = i \<Longrightarrow> y = x"
proof -
  show x: "x \<in> set xs" "ID (row x) = i" using assms(2) by (auto simp: find_Some_iff)
  then show "\<And>y. y \<in> set xs \<Longrightarrow> ID (row y) = i \<Longrightarrow> y = x"
    using same_id_same_row[OF assms(1)] by blast
qed

lemma write_fields_sel [simp]:
  "ID (write_fields now r old) = ID old" "GroupID (write_fields now r old) = GroupID old"
  "TargetPlatform (write_fields now r old) = TargetPlatform r" "Enabled (write_fields now r old) = Enabled r"
  "PublicModel (write_fields now r old) = PublicModel r" "MatchType (write_fields now r old) = MatchType r"
  "Endpoint (write_fields now r old) = Endpoint r" "UpstreamModel (write_fields now r old) = UpstreamModel r"
  "route_wf (write_fields now r old) = route_wf r"
  by (simp_all add: write_fields_def route_wf_def)

lemma repo_Update_wf:
  assumes "table_wf t" "route_wf r"
  shows "table_wf (fst (repo_Update fl now t r))"
proof (cases "find (\<lambda>x. ID (row x) = ID r) (rows t)")
  case None
  then show ?thesis using assms(1) by (simp add: repo_Update_def)
next
  case (Some x)
  have wf: "rows_wf (rows t) (next_id t)" using assms(1) by (simp add: table_wf_def)
  note x = find_by_id[OF wf Some]
  let ?u = "write_fields now r (row x)"
  let ?f = "\<lambda>y. if ID (row y) = ID r then y\<lparr>row := ?u\<rparr> else y"
  have act: "active (?f y) = active y" for y by (simp add: active_def)
  have "rows_wf (map ?f (rows t)) (next_id t)"
    if ok: "\<not> (active x \<and> list_ex (\<lambda>y. ID (row y) \<noteq> ID r \<and> active y \<and> unique_key (row y) = unique_key ?u) (rows t))"
  proof (rule rows_wf_map[OF wf])
    fix y z assume y: "y \<in> set (rows t)" and z: "z \<in> set (rows t)" and a: "active (?f y)" "active (?f z)"
      and k: "unique_key (row (?f y)) = unique_key (row (?f z))"
    have a': "active y" "active z" using a by (simp_all only: act)
    have other: "unique_key (row w) \<noteq> unique_key ?u" if "w \<in> set (rows t)" "ID (row w) \<noteq> ID r" "active w" "active x" for w
      using ok that by (auto simp: list_ex_iff)
    show "ID (row y) = ID (row z)"
      using k a' other y z x(3) rows_wfD(4)[OF wf y z a'] by (auto split: if_splits)
  qed (use rows_wfD(1)[OF wf] assms(2) x(2) in auto)
  then show ?thesis using assms(1) Some by (simp add: repo_Update_def Let_def table_wf_def)
qed

lemma rows_wf_soft_delete:
  assumes "rows_wf xs n"
  shows "rows_wf (map (\<lambda>x. if P x then x\<lparr>deleted_at := Some now\<rparr> else x) xs) n"
proof (rule rows_wf_map[OF assms])
  fix x y assume "x \<in> set xs" "y \<in> set xs"
    and "active (if P x then x\<lparr>deleted_at := Some now\<rparr> else x)" "active (if P y then y\<lparr>deleted_at := Some now\<rparr> else y)"
    and "unique_key (row (if P x then x\<lparr>deleted_at := Some now\<rparr> else x)) =
      unique_key (row (if P y then y\<lparr>deleted_at := Some now\<rparr> else y))"
  then show "ID (row x) = ID (row y)"
    using rows_wfD(4)[OF assms, of x y] by (simp add: active_def split: if_splits)
qed (use rows_wfD(1)[OF assms] in auto)

lemma repo_Delete_wf: "table_wf t \<Longrightarrow> table_wf (fst (repo_Delete fl now t i))"
  by (simp add: repo_Delete_def table_wf_def rows_wf_soft_delete)

lemma repo_DeleteByGroup_wf: "table_wf t \<Longrightarrow> table_wf (fst (repo_DeleteByGroup fl now t g))"
  by (simp add: repo_DeleteByGroup_def table_wf_def rows_wf_soft_delete)

section \<open>The interface of the registry\<close>

text \<open>
  What the resolver relies on: a listing holds well-formed routes of the group only, no two of them
  with the same key, and a route that was created enabled is listed.
\<close>

locale route_registry =
  fixes wf :: "'t \<Rightarrow> bool"
    and listing :: "'t \<Rightarrow> int \<Rightarrow> bool \<Rightarrow> composite_error + CompositeModelRoute list"
    and create :: "'t \<Rightarrow> CompositeModelRoute \<Rightarrow> 't \<times> (composite_error + CompositeModelRoute)"
  assumes listing_wf: "wf t \<Longrightarrow> listing t g b = Inr rs \<Longrightarrow> r \<in> set rs \<Longrightarrow> route_wf r \<and> GroupID r = g"
    and listing_unique: "wf t \<Longrightarrow> listing t g b = Inr rs \<Longrightarrow> r \<in> set rs \<Longrightarrow> r' \<in> set rs \<Longrightarrow>
      unique_key r = unique_key r' \<Longrightarrow> r = r'"
    and create_wf: "wf t \<Longrightarrow> route_wf r \<Longrightarrow> wf (fst (create t r))"
    and create_lists: "wf t \<Longrightarrow> create t r = (t', Inr c) \<Longrightarrow> Enabled r \<Longrightarrow>
      listing t' (GroupID r) False = Inr rs \<Longrightarrow> c \<in> set rs"
    and create_keeps: "create t r = (t', Inr c) \<Longrightarrow> unique_key c = unique_key r \<and>
      TargetPlatform c = TargetPlatform r \<and> UpstreamModel c = UpstreamModel r"
begin

lemma decision_concrete:
  assumes "wf t" "repo rs = Some (listing t)" "Resolve rs g m e = (d, err)" "Matched d"
  shows "isConcreteRequestPlatform (dec_TargetPlatform d)"
  using assms(3)
proof (cases rule: Resolve_cases)
  case (explicit f routes r)
  then obtain r0 where "r0 \<in> set routes" "r = normal_route r0" using matchCompositeRoute_Some by metis
  moreover have "listing t g False = Inr routes" using explicit(1,2) assms(2) by simp
  ultimately have "isConcreteRequestPlatform (TargetPlatform r)"
    using listing_wf[OF assms(1)] by (auto simp: normal_route_def route_wf_def)
  with explicit show ?thesis by (simp add: explicit_decision_def Let_def)
next
  case implicit
  then show ?thesis
    by (cases rule: implicit_decision_cases) (use assms(4) detector_platforms_concrete in auto)
next
  case (none r)
  then show ?thesis using assms(4) by simp
qed

lemma created_exact_route_decides:
  assumes wf: "wf t" "route_wf r" and exact: "MatchType r = CompositeRouteMatchExact" "Enabled r" "0 < GroupID r"
    and cr: "create t r = (t', Inr c)" and rs: "repo rs = Some (listing t')" "listing t' (GroupID r) False = Inr routes"
    and e: "normalizeCompositeRouteEndpoint e = Endpoint r"
  shows "Resolve rs (GroupID r) (PublicModel r) e =
    (explicit_decision (GroupID r) (PublicModel r) (Endpoint r) c, None)"
proof -
  have wf': "wf t'" using create_wf[OF wf] cr by simp
  have c: "c \<in> set routes" by (rule create_lists[OF wf(1) cr exact(2) rs(2)])
  have k: "unique_key c = unique_key r" using create_keeps[OF cr] by blast
  have trim: "TrimSpace (PublicModel r) = PublicModel r" "PublicModel r \<noteq> []" using wf(2) by (auto simp: route_wf_def)
  have cf: "PublicModel c = PublicModel r" "MatchType c = CompositeRouteMatchExact" "Endpoint c = Endpoint r"
    using k exact(1) by (auto simp: unique_key_def)
  have app: "route_applies (PublicModel r) (Endpoint r) c"
    using cf trim wf(2) by (auto simp: route_applies_def route_wf_def)
  have "matchCompositeRoute routes (PublicModel r) (Endpoint r) = Some c"
  proof (cases "matchCompositeRoute routes (PublicModel r) (Endpoint r)")
    case None
    with c app show ?thesis by (auto simp: matchCompositeRoute_None_iff)
  next
    case (Some b)
    then obtain r0 where r0: "r0 \<in> set routes" "b = normal_route r0" "route_applies (PublicModel r) (Endpoint r) r0"
      "route_rank (Endpoint r) r0 \<le> route_rank (Endpoint r) c"
      using matchCompositeRoute_Some[OF Some] c app by metis
    have w: "route_wf r0" "GroupID r0 = GroupID r" using listing_wf[OF wf' rs(2) r0(1)] by auto
    have "normalizeCompositeRouteEndpoint (Endpoint r) = Endpoint r" using wf(2) by (simp add: route_wf_def)
    then have m: "MatchType r0 = CompositeRouteMatchExact" "Endpoint r0 = Endpoint r"
      using r0(4) w(1) cf by (auto simp: route_rank_def route_wf_def split: if_splits)
    with r0(3) w(1) have "PublicModel r0 = PublicModel r" by (auto simp: route_applies_def route_wf_def)
    with m w(2) cf k have "unique_key r0 = unique_key c" by (simp add: unique_key_def)
    then have "r0 = c" by (rule listing_unique[OF wf' rs(2) r0(1) c])
    moreover have "normal_route r0 = r0" using w(1) by (simp add: normal_route_def route_wf_def)
    ultimately show ?thesis using Some r0(2) by simp
  qed
  with trim e rs exact(3) show ?thesis by (simp add: Resolve_def Let_def)
qed

end

lemma ListByGroup_set:
  "ListByGroup fl t g b = Inr rs \<Longrightarrow>
   set rs = row ` {x \<in> set (rows t). active x \<and> GroupID (row x) = g \<and> (b \<or> Enabled (row x))}"
  by (auto simp: ListByGroup_def split: if_splits)

lemma repo_Create_Inr:
  assumes "repo_Create fl now t r = (t', Inr c)"
  shows "c = r\<lparr>ID := next_id t, CreatedAt := now, UpdatedAt := now\<rparr>"
    "rows t' = rows t @ [\<lparr>row = c, deleted_at = None\<rparr>]"
  using assms by (auto simp: repo_Create_def Let_def split: if_splits)

interpretation sql: route_registry table_wf "ListByGroup rf" "repo_Create fl now" for rf fl now
proof
  fix t g b rs r r' t' c
  show "route_wf r \<and> GroupID r = g"
    if "table_wf t" "ListByGroup rf t g b = Inr rs" "r \<in> set rs"
    using that(3) rows_wfD(1)[OF that(1)[unfolded table_wf_def]] unfolding ListByGroup_set[OF that(2)] by auto
  show "r = r'"
    if wf: "table_wf t" and l: "ListByGroup rf t g b = Inr rs" and m: "r \<in> set rs" "r' \<in> set rs"
      and k: "unique_key r = unique_key r'"
  proof -
    obtain x y where x: "x \<in> set (rows t)" "active x" "r = row x" and y: "y \<in> set (rows t)" "active y" "r' = row y"
      using m unfolding ListByGroup_set[OF l] by auto
    note wf' = wf[unfolded table_wf_def]
    have "ID (row x) = ID (row y)" by (rule rows_wfD(4)[OF wf' x(1) y(1) x(2) y(2)]) (use k x y in simp)
    with same_id_same_row[OF wf' x(1) y(1)] x(3) y(3) show ?thesis by simp
  qed
  show "table_wf t \<Longrightarrow> route_wf r \<Longrightarrow> table_wf (fst (repo_Create fl now t r))" by (rule repo_Create_wf)
  show "c \<in> set rs"
    if "table_wf t" "repo_Create fl now t r = (t', Inr c)" "Enabled r" "ListByGroup rf t' (GroupID r) False = Inr rs"
    using repo_Create_Inr[OF that(2)] that(3) unfolding ListByGroup_set[OF that(4)]
    by (auto simp: active_def image_iff)
  show "unique_key c = unique_key r \<and> TargetPlatform c = TargetPlatform r \<and> UpstreamModel c = UpstreamModel r"
    if "repo_Create fl now t r = (t', Inr c)"
    using repo_Create_Inr(1)[OF that] by (simp add: unique_key_def)
qed

section \<open>Reachable registries\<close>

text \<open>A step of the registry, on behalf of one group.\<close>

inductive admin_step :: "int \<Rightarrow> route_table \<Rightarrow> route_table \<Rightarrow> bool" where
  create: "CreateCompositeRoute env t g input = (t', res) \<Longrightarrow> admin_step g t t'"
| update: "UpdateCompositeRoute env t g i input = (t', res) \<Longrightarrow> admin_step g t t'"
| delete: "DeleteCompositeRoute env t g i = (t', err) \<Longrightarrow> admin_step g t t'"
| delete_group: "repo_DeleteByGroup fl now t g = (t', err) \<Longrightarrow> admin_step g t t'"

inductive registry_reachable :: "route_table \<Rightarrow> bool" where
  empty: "registry_reachable \<lparr>rows = [], next_id = 1\<rparr>"
| step: "registry_reachable t \<Longrightarrow> admin_step g t t' \<Longrightarrow> registry_reachable t'"

lemma admin_step_wf:
  assumes "admin_step g t t'" "table_wf t"
  shows "table_wf t'"
  using assms
proof cases
  case (create env input res)
  then show ?thesis
  proof (cases "compositeRouteFromInput g input")
    case (Inr r)
    then have "route_wf r" using compositeRouteFromInput_wf by simp
    from repo_Create_wf[OF assms(2) this, of "write_fails env" "clock env"] create Inr assms(2) show ?thesis
      by (auto simp: CreateCompositeRoute_def split: option.splits sum.splits)
  qed (use assms(2) in \<open>auto simp: CreateCompositeRoute_def split: option.splits\<close>)
next
  case (update env i input res)
  then show ?thesis
  proof (cases "compositeRouteFromInput g input")
    case (Inr r)
    then have "route_wf (r\<lparr>ID := i\<rparr>)" using compositeRouteFromInput_wf by (simp add: route_wf_def)
    from repo_Update_wf[OF assms(2) this, of "write_fails env" "clock env"] update Inr assms(2) show ?thesis
      by (auto simp: UpdateCompositeRoute_def split: option.splits sum.splits bool.splits)
  qed (use assms(2) in \<open>auto simp: UpdateCompositeRoute_def split: option.splits sum.splits bool.splits\<close>)
next
  case (delete env i err)
  then show ?thesis using assms(2) repo_Delete_wf[OF assms(2), of "write_fails env" "clock env" i]
    by (auto simp: DeleteCompositeRoute_def split: option.splits sum.splits bool.splits)
next
  case (delete_group fl now err)
  then show ?thesis using repo_DeleteByGroup_wf[OF assms(2), of fl now g] by simp
qed

lemma registry_reachable_wf: "registry_reachable t \<Longrightarrow> table_wf t"
proof (induction rule: registry_reachable.induct)
  case empty
  then show ?case by (simp add: table_wf_def rows_wf_def)
qed (rule admin_step_wf)

section \<open>Properties\<close>

lemma CreateCompositeRoute_Inr:
  assumes "CreateCompositeRoute env t g input = (t', Inr c)"
  obtains r where "compositeRouteFromInput g input = Inr r"
    "repo_Create (write_fails env) (clock env) t r = (t', Inr c)"
  using assms by (auto simp: CreateCompositeRoute_def split: option.splits sum.splits)

lemma compositeRouteFromInput_fields:
  assumes "compositeRouteFromInput g input = Inr r"
  shows "GroupID r = g" "PublicModel r = TrimSpace (in_PublicModel input)" "Enabled r = in_Enabled input"
    "MatchType r = normalizeCompositeRouteMatchType (in_MatchType input)"
    "TargetPlatform r = TrimSpace (in_TargetPlatform input)"
    "Endpoint r = normalizeCompositeRouteEndpoint (in_Endpoint input)"
    "UpstreamModel r =
      (if TrimSpace (in_UpstreamModel input) = [] \<and> MatchType r = CompositeRouteMatchExact
       then PublicModel r else TrimSpace (in_UpstreamModel input))"
  using assms by (auto simp: compositeRouteFromInput_def normalizeCompositeRouteInput_def Let_def split: if_splits)

text \<open>
  C7. Every matched decision names a concrete provider: over every route table the administration
  operations can reach, with any account catalogue and whether or not the tables can be read, a
  matched decision of the resolver has a target platform the gateway can dispatch to, never the
  composite platform itself and never a blank one.
\<close>

theorem registry_decisions_concrete:
  assumes "registry_reachable t" and "Matched (fst (Resolve
      \<lparr>repo = Some (ListByGroup rf t), modelOwnershipResolver = own\<rparr> g m e))"
  shows "isConcreteRequestPlatform (dec_TargetPlatform (fst (Resolve
      \<lparr>repo = Some (ListByGroup rf t), modelOwnershipResolver = own\<rparr> g m e)))"
  using sql.decision_concrete[OF registry_reachable_wf[OF assms(1)], of
      "\<lparr>repo = Some (ListByGroup rf t), modelOwnershipResolver = own\<rparr>" rf g m e] assms(2)
  by (cases "Resolve \<lparr>repo = Some (ListByGroup rf t), modelOwnershipResolver = own\<rparr> g m e") auto

definition demo_env :: admin_env where
  "demo_env = \<lparr>run_mode = None, group_platform = (\<lambda>_. Inr PlatformComposite), has_repo = True,
     read_fails = False, write_fails = False, clock = 5\<rparr>"

definition demo_input :: "string \<Rightarrow> CompositeRouteInput" where
  "demo_input mtype = \<lparr>in_PublicModel = ''all'', in_MatchType = mtype, in_TargetPlatform = ''grok'',
     in_UpstreamModel = [], in_Endpoint = ''messages'', in_Priority = 0, in_Enabled = True, in_Notes = []\<rparr>"

definition demo_created :: "string \<Rightarrow> string \<Rightarrow> CompositeModelRoute" where
  "demo_created mtype upstream =
     \<lparr>ID = 1, GroupID = 7, PublicModel = ''all'', MatchType = mtype, TargetPlatform = ''grok'',
      UpstreamModel = upstream, Endpoint = ''messages'', Priority = 100, Enabled = True, Notes = [],
      CreatedAt = 5, UpdatedAt = 5\<rparr>"

definition demo_table :: "string \<Rightarrow> string \<Rightarrow> route_table" where
  "demo_table mtype upstream =
     \<lparr>rows = [\<lparr>row = demo_created mtype upstream, deleted_at = None\<rparr>], next_id = 2\<rparr>"

lemma demo_trims [simp]:
  "TrimSpace ''all'' = ''all''" "TrimSpace ''all-x'' = ''all-x''" "TrimSpace ''grok'' = ''grok''"
  "normalizeCompositeRouteEndpoint ''messages'' = ''messages''"
  using endpoint_names_fixed[of "''messages''"] by (simp_all add: TrimSpace_visible visible_def go_def)

lemma demo_create:
  assumes "mtype = CompositeRouteMatchExact \<and> up = ''all'' \<or> mtype = CompositeRouteMatchPrefix \<and> up = []"
  shows "CreateCompositeRoute demo_env \<lparr>rows = [], next_id = 1\<rparr> 7 (demo_input mtype) =
    (demo_table mtype up, Inr (demo_created mtype up))"
  using assms
  by (auto simp: CreateCompositeRoute_def route_guards_def ValidateSimpleModeGroupOperation_def
      requireCompositeGroup_def demo_env_def demo_input_def compositeRouteFromInput_def
      normalizeCompositeRouteInput_def Let_def isConcreteRequestPlatform_def go_def repo_Create_def
      ent_validators_def check_constraints_def demo_table_def demo_created_def
      match_type_fixed [unfolded go_def])

lemma demo_table_reachable:
  "registry_reachable (demo_table CompositeRouteMatchExact ''all'')"
  "registry_reachable (demo_table CompositeRouteMatchPrefix [])"
  using demo_create[of CompositeRouteMatchExact "''all''"] demo_create[of CompositeRouteMatchPrefix "[]"]
  by (auto intro: registry_reachable.intros admin_step.create)

lemma demo_listing: "ListByGroup False (demo_table mtype up) 7 False = Inr [demo_created mtype up]"
  by (simp add: ListByGroup_def demo_table_def demo_created_def active_def)

theorem registry_decisions_concrete_witness:
  "isConcreteRequestPlatform (dec_TargetPlatform (fst (Resolve \<lparr>repo =
     Some (ListByGroup False (demo_table CompositeRouteMatchExact ''all'')), modelOwnershipResolver = None\<rparr>
       7 ''all'' ''messages'')))"
proof (rule registry_decisions_concrete[OF demo_table_reachable(1)])
  have "matchCompositeRoute [demo_created CompositeRouteMatchExact ''all''] ''all'' ''messages'' \<noteq> None"
    by (simp add: matchCompositeRoute_None_iff route_applies_def demo_created_def)
  then show "Matched (fst (Resolve \<lparr>repo =
     Some (ListByGroup False (demo_table CompositeRouteMatchExact ''all'')), modelOwnershipResolver = None\<rparr>
       7 ''all'' ''messages''))"
    by (auto simp: Resolve_def demo_listing explicit_decision_def Let_def)
qed

text \<open>
  C8. An exact route takes effect when it is created. After the administrator has created an
  enabled exact route on a reachable table, the resolver sends a request for exactly that model on
  the endpoint of the route to the platform given, with the upstream model given, or with the public
  model when that was left blank: no route that existed before and no account mapping overrides it.
\<close>

theorem created_exact_route_takes_effect:
  assumes "registry_reachable t" and "CreateCompositeRoute env t g input = (t', Inr c)" and "0 < g"
    and "in_Enabled input" and "normalizeCompositeRouteMatchType (in_MatchType input) = CompositeRouteMatchExact"
    and "normalizeCompositeRouteEndpoint e = normalizeCompositeRouteEndpoint (in_Endpoint input)"
    and "TrimSpace m = TrimSpace (in_PublicModel input)"
  shows "Resolve \<lparr>repo = Some (ListByGroup False t'), modelOwnershipResolver = own\<rparr> g m e =
    (matched_decision CompositeRouteSourceExplicit g (TrimSpace m) (TrimSpace (in_TargetPlatform input))
       (if TrimSpace (in_UpstreamModel input) = [] then TrimSpace m else TrimSpace (in_UpstreamModel input))
       (normalizeCompositeRouteEndpoint e) (Some c), None)"
proof -
  obtain r where r: "compositeRouteFromInput g input = Inr r"
    "repo_Create (write_fails env) (clock env) t r = (t', Inr c)"
    using CreateCompositeRoute_Inr[OF assms(2)] by blast
  note f = compositeRouteFromInput_fields[OF r(1)]
  have e: "normalizeCompositeRouteEndpoint e = Endpoint r" by (simp add: assms(6) f(6))
  have "Resolve \<lparr>repo = Some (ListByGroup False t'), modelOwnershipResolver = own\<rparr> (GroupID r) (PublicModel r) e =
      (explicit_decision (GroupID r) (PublicModel r) (Endpoint r) c, None)"
    by (rule sql.created_exact_route_decides[OF registry_reachable_wf[OF assms(1)] _ _ _ _ r(2) _ _ e])
      (use assms(3-5) f compositeRouteFromInput_wf[OF r(1)] in \<open>auto simp: ListByGroup_def\<close>)
  moreover have "Resolve rs g m e = Resolve rs g (PublicModel r) e" for rs
    unfolding Resolve_def using assms(7) f(2) by simp
  moreover have "TargetPlatform c = TargetPlatform r" "UpstreamModel c = UpstreamModel r"
    using sql.create_keeps[OF r(2)] by auto
  ultimately show ?thesis
    using f assms(5,7) e by (simp add: explicit_decision_def Let_def)
qed

theorem created_exact_route_takes_effect_witness:
  "\<exists>t' c. CreateCompositeRoute demo_env \<lparr>rows = [], next_id = 1\<rparr> 7 (demo_input CompositeRouteMatchExact) = (t', Inr c) \<and>
     Resolve \<lparr>repo = Some (ListByGroup False t'), modelOwnershipResolver = Some kiro_owner\<rparr> 7 ''all'' ''messages'' =
       (matched_decision CompositeRouteSourceExplicit 7 ''all'' ''grok'' ''all'' ''messages'' (Some c), None)"
proof -
  note cr = demo_create[of CompositeRouteMatchExact "''all''", simplified]
  have "in_Enabled (demo_input CompositeRouteMatchExact)"
    "normalizeCompositeRouteMatchType (in_MatchType (demo_input CompositeRouteMatchExact)) = CompositeRouteMatchExact"
    "normalizeCompositeRouteEndpoint ''messages'' =
      normalizeCompositeRouteEndpoint (in_Endpoint (demo_input CompositeRouteMatchExact))"
    "TrimSpace ''all'' = TrimSpace (in_PublicModel (demo_input CompositeRouteMatchExact))" "(0::int) < 7"
    by (simp_all add: demo_input_def)
  from cr created_exact_route_takes_effect[OF registry_reachable.empty cr this(5,1-4), of "Some kiro_owner"]
  show ?thesis by (auto simp: demo_input_def)
qed

text \<open>
  A prefix route created without an upstream model passes the requested model through: every
  request that this route decides is forwarded under the model name the client sent, not under the
  prefix.
\<close>

theorem prefix_route_passes_model_through:
  assumes "registry_reachable t" and "CreateCompositeRoute env t g input = (t', Inr c)"
    and "normalizeCompositeRouteMatchType (in_MatchType input) = CompositeRouteMatchPrefix"
    and "TrimSpace (in_UpstreamModel input) = []"
    and "Resolve \<lparr>repo = Some (ListByGroup rf t'), modelOwnershipResolver = own\<rparr> g' m e = (d, err)"
    and "Route d = Some r'" and "ID r' = ID c"
  shows "dec_UpstreamModel d = TrimSpace m"
proof -
  obtain r where r: "compositeRouteFromInput g input = Inr r"
    "repo_Create (write_fails env) (clock env) t r = (t', Inr c)"
    using CreateCompositeRoute_Inr[OF assms(2)] by blast
  have up: "UpstreamModel c = []"
    using compositeRouteFromInput_fields(4,7)[OF r(1)] sql.create_keeps[OF r(2)] assms(3,4) by simp
  have wf: "rows_wf (rows t') (next_id t')"
    using admin_step_wf[OF admin_step.create[OF assms(2)] registry_reachable_wf[OF assms(1)]] by (simp add: table_wf_def)
  have c: "\<lparr>row = c, deleted_at = None\<rparr> \<in> set (rows t')" using repo_Create_Inr(2)[OF r(2)] by simp
  show ?thesis
    using assms(5)
  proof (cases rule: Resolve_cases)
    case (explicit f routes b)
    then obtain r0 where r0: "r0 \<in> set routes" "b = normal_route r0" using matchCompositeRoute_Some by metis
    have b: "r' = b" using explicit(5) assms(6) by (simp add: explicit_decision_def Let_def)
    have "ListByGroup rf t' g' False = Inr routes" using explicit(1,2) by simp
    from ListByGroup_set[OF this] r0(1) obtain x where x: "x \<in> set (rows t')" "r0 = row x" by auto
    have "ID (row x) = ID c" using assms(7) b r0(2) x(2) by (simp add: normal_route_def)
    then have "row x = c" using same_id_same_row[OF wf x(1) c] by (cases x) simp
    with explicit(5) r0(2) x(2) up show ?thesis by (simp add: explicit_decision_def Let_def normal_route_def)
  next
    case implicit
    then show ?thesis by (cases rule: implicit_decision_cases) (use assms(6) in auto)
  next
    case (none q)
    then show ?thesis using assms(6) by simp
  qed
qed

theorem prefix_route_passes_model_through_witness:
  "\<exists>t' c d. CreateCompositeRoute demo_env \<lparr>rows = [], next_id = 1\<rparr> 7 (demo_input CompositeRouteMatchPrefix) = (t', Inr c) \<and>
     Resolve \<lparr>repo = Some (ListByGroup False t'), modelOwnershipResolver = None\<rparr> 7 ''all-x'' ''messages'' = (d, None) \<and>
     dec_UpstreamModel d = TrimSpace ''all-x''"
proof -
  note cr = demo_create[of CompositeRouteMatchPrefix "[]", simplified]
  let ?t = "demo_table CompositeRouteMatchPrefix []" and ?c = "demo_created CompositeRouteMatchPrefix []"
  have nr: "normal_route ?c = ?c" by (simp add: normal_route_def demo_created_def)
  have "route_candidate ''all-x'' ''messages'' ?c \<noteq> None"
    by (simp add: route_candidate_None route_applies_def demo_created_def)
  then obtain k where k: "route_candidate ''all-x'' ''messages'' ?c = Some k" by blast
  have "matchCompositeRoute [?c] ''all-x'' ''messages'' = Some ?c"
    using k route_candidate_Some(1)[OF k] nr by (simp add: matchCompositeRoute_def List.map_filter_simps)
  then have rs: "Resolve \<lparr>repo = Some (ListByGroup False ?t), modelOwnershipResolver = None\<rparr> 7 ''all-x'' ''messages'' =
      (explicit_decision 7 ''all-x'' ''messages'' ?c, None)"
    by (simp add: Resolve_def demo_listing Let_def)
  have "dec_UpstreamModel (explicit_decision 7 ''all-x'' ''messages'' ?c) = TrimSpace ''all-x''"
    by (rule prefix_route_passes_model_through[OF registry_reachable.empty cr _ _ rs, of ?c])
      (simp_all add: demo_input_def explicit_decision_def Let_def)
  with cr rs show ?thesis by blast
qed

lemma belongs_to_group:
  assumes "compositeRouteBelongsToGroup env t g i = Inr True" "table_wf t" "x \<in> set (rows t)" "ID (row x) = i"
  shows "GroupID (row x) = g"
proof -
  from assms(1) obtain rs r where "ListByGroup (read_fails env) t g True = Inr rs" "r \<in> set rs" "ID r = i"
    by (auto simp: compositeRouteBelongsToGroup_def bind_res_Inr_iff list_ex_iff)
  with ListByGroup_set[OF this(1)] obtain y where y: "y \<in> set (rows t)" "GroupID (row y) = g" "ID (row y) = i"
    by auto
  with same_id_same_row[OF assms(2)[unfolded table_wf_def] assms(3) y(1)] assms(4) show ?thesis by simp
qed

lemma filter_map_unchanged:
  assumes "\<And>x. x \<in> set xs \<Longrightarrow> f x = x \<or> \<not> P x \<and> \<not> P (f x)"
  shows "filter P (map f xs) = filter P xs"
  using assms by (induction xs) fastforce+

lemma repo_writes_confined:
  assumes "table_wf t" "\<And>x. x \<in> set (rows t) \<Longrightarrow> ID (row x) = i \<Longrightarrow> GroupID (row x) = g"
  shows "ID r = i \<Longrightarrow> filter (\<lambda>x. GroupID (row x) \<noteq> g) (rows (fst (repo_Update fl now t r))) =
      filter (\<lambda>x. GroupID (row x) \<noteq> g) (rows t)"
    and "filter (\<lambda>x. GroupID (row x) \<noteq> g) (rows (fst (repo_Delete fl now t i))) =
      filter (\<lambda>x. GroupID (row x) \<noteq> g) (rows t)"
proof -
  assume r: "ID r = i"
  have "filter (\<lambda>x. GroupID (row x) \<noteq> g)
      (map (\<lambda>y. if ID (row y) = ID r then y\<lparr>row := write_fields now r (row x)\<rparr> else y) (rows t)) =
      filter (\<lambda>x. GroupID (row x) \<noteq> g) (rows t)"
    if "find (\<lambda>x. ID (row x) = ID r) (rows t) = Some x" for x
  proof (rule filter_map_unchanged)
    fix y assume "y \<in> set (rows t)"
    moreover have "GroupID (row x) = g" using find_by_id(1,2)[OF assms(1)[unfolded table_wf_def] that] assms(2) r by simp
    ultimately show "(if ID (row y) = ID r then y\<lparr>row := write_fields now r (row x)\<rparr> else y) = y \<or>
        \<not> GroupID (row y) \<noteq> g \<and>
        \<not> GroupID (row (if ID (row y) = ID r then y\<lparr>row := write_fields now r (row x)\<rparr> else y)) \<noteq> g"
      using assms(2) r by (cases "ID (row y) = ID r") simp_all
  qed
  then show "filter (\<lambda>x. GroupID (row x) \<noteq> g) (rows (fst (repo_Update fl now t r))) =
      filter (\<lambda>x. GroupID (row x) \<noteq> g) (rows t)"
    by (simp add: repo_Update_def Let_def split: option.splits)
next
  have "filter (\<lambda>x. GroupID (row x) \<noteq> g)
      (map (\<lambda>x. if active x \<and> ID (row x) = i then x\<lparr>deleted_at := Some now\<rparr> else x) (rows t)) =
      filter (\<lambda>x. GroupID (row x) \<noteq> g) (rows t)"
    using assms(2) by (intro filter_map_unchanged) auto
  then show "filter (\<lambda>x. GroupID (row x) \<noteq> g) (rows (fst (repo_Delete fl now t i))) =
      filter (\<lambda>x. GroupID (row x) \<noteq> g) (rows t)"
    by (simp add: repo_Delete_def)
qed

text \<open>
  C9. Administration of one group leaves the routes of every other group alone: whatever identifier
  and input an operation on a group is given, the rows of the other groups are the same rows
  afterwards, in the same order, deleted ones included.
\<close>

theorem admin_operations_confined_to_group:
  assumes "registry_reachable t" and "admin_step g t t'"
  shows "filter (\<lambda>x. GroupID (row x) \<noteq> g) (rows t') = filter (\<lambda>x. GroupID (row x) \<noteq> g) (rows t)"
  using assms(2)
proof cases
  note wf = registry_reachable_wf[OF assms(1)]
  case (create env input res)
  then show ?thesis
    using compositeRouteFromInput_fields(1)[of g input]
    by (auto simp: CreateCompositeRoute_def repo_Create_def Let_def split: option.splits sum.splits if_splits)
next
  case (update env i input res)
  show ?thesis
  proof (cases "compositeRouteBelongsToGroup env t g i = Inr True")
    case True
    have "\<And>x. x \<in> set (rows t) \<Longrightarrow> ID (row x) = i \<Longrightarrow> GroupID (row x) = g"
      using belongs_to_group[OF True registry_reachable_wf[OF assms(1)]] by blast
    note c = repo_writes_confined(1)[OF registry_reachable_wf[OF assms(1)] this, where i = i]
    from update True c[of "_\<lparr>ID := i\<rparr>" "write_fails env" "clock env"] show ?thesis
      by (auto simp: UpdateCompositeRoute_def split: option.splits sum.splits) (metis fst_conv)
  next
    case False
    with update show ?thesis by (auto simp: UpdateCompositeRoute_def split: option.splits sum.splits bool.splits)
  qed
next
  case (delete env i err)
  show ?thesis
  proof (cases "compositeRouteBelongsToGroup env t g i = Inr True")
    case True
    have "\<And>x. x \<in> set (rows t) \<Longrightarrow> ID (row x) = i \<Longrightarrow> GroupID (row x) = g"
      using belongs_to_group[OF True registry_reachable_wf[OF assms(1)]] by blast
    from delete True repo_writes_confined(2)[OF registry_reachable_wf[OF assms(1)] this, where i = i,
        of "write_fails env" "clock env"] show ?thesis
      by (auto simp: DeleteCompositeRoute_def split: option.splits)
  next
    case False
    with delete show ?thesis by (auto simp: DeleteCompositeRoute_def split: option.splits sum.splits bool.splits)
  qed
next
  case (delete_group fl now err)
  then show ?thesis by (auto simp: repo_DeleteByGroup_def intro!: filter_map_unchanged split: if_splits)
qed

theorem admin_operations_confined_to_group_witness:
  "filter (\<lambda>x. GroupID (row x) \<noteq> 8)
     (rows (fst (DeleteCompositeRoute demo_env (demo_table CompositeRouteMatchExact ''all'') 8 1))) =
   [\<lparr>row = demo_created CompositeRouteMatchExact ''all'', deleted_at = None\<rparr>]"
proof -
  let ?t = "demo_table CompositeRouteMatchExact ''all''"
  obtain t' err where d: "DeleteCompositeRoute demo_env ?t 8 1 = (t', err)" by fastforce
  from admin_operations_confined_to_group[OF demo_table_reachable(1) admin_step.delete[OF d]] d show ?thesis
    by (simp add: demo_table_def demo_created_def)
qed

end
