(* ===== verification/IdempotencyStore.thy ===== *)
theory IdempotencyStore
  imports GoPrelude
begin

text \<open>
  The table of idempotency records (\<open>repository/idempotency_repo.go\<close>): the record of
  \<open>service/idempotency.go\<close> and the seven SQL statements of the repository, each one atomic, over a
  list of rows with the unique index on scope and key hash. \<open>NOW()\<close> is an argument. Whether a
  statement fails is decided by the caller of the model.
\<close>

section \<open>Records\<close>

definition IdempotencyStatusProcessing :: string where "IdempotencyStatusProcessing = ''processing''"
definition IdempotencyStatusSucceeded :: string where "IdempotencyStatusSucceeded = ''succeeded''"
definition IdempotencyStatusFailedRetryable :: string where
  "IdempotencyStatusFailedRetryable = ''failed_retryable''"

lemmas status_defs [go_def] = IdempotencyStatusProcessing_def IdempotencyStatusSucceeded_def
  IdempotencyStatusFailedRetryable_def

lemma status_distinct [simp]:
  "IdempotencyStatusProcessing \<noteq> IdempotencyStatusSucceeded"
  "IdempotencyStatusProcessing \<noteq> IdempotencyStatusFailedRetryable"
  "IdempotencyStatusSucceeded \<noteq> IdempotencyStatusProcessing"
  "IdempotencyStatusSucceeded \<noteq> IdempotencyStatusFailedRetryable"
  "IdempotencyStatusFailedRetryable \<noteq> IdempotencyStatusProcessing"
  "IdempotencyStatusFailedRetryable \<noteq> IdempotencyStatusSucceeded"
  by (simp_all add: go_def)

record IdempotencyRecord =
  ID :: int
  Scope :: string
  IdempotencyKeyHash :: string
  RequestFingerprint :: string
  Status :: string
  ResponseStatus :: "int option"
  ResponseBody :: "string option"
  ErrorReason :: "string option"
  LockedUntil :: "gotime option"
  ExpiresAt :: gotime
  CreatedAt :: gotime
  UpdatedAt :: gotime

record idem_table =
  records :: "IdempotencyRecord list"
  next_record_id :: int

section \<open>The statements\<close>

definition has_key :: "string \<Rightarrow> string \<Rightarrow> IdempotencyRecord \<Rightarrow> bool" where
  "has_key scope keyHash r \<longleftrightarrow> Scope r = scope \<and> IdempotencyKeyHash r = keyHash"

text \<open>
  \<open>INSERT ... ON CONFLICT DO NOTHING RETURNING id\<close>: the identifier of the new row, or \<open>None\<close> when a
  row with the key exists; the sequence advances in both cases.
\<close>

definition CreateProcessing :: "gotime \<Rightarrow> idem_table \<Rightarrow> IdempotencyRecord \<Rightarrow> idem_table \<times> int option" where
  "CreateProcessing now t rec =
     (let i = next_record_id t; t1 = t\<lparr>next_record_id := i + 1\<rparr>
      in if list_ex (has_key (Scope rec) (IdempotencyKeyHash rec)) (records t) then (t1, None)
         else (t1\<lparr>records := records t @
                 [\<lparr>ID = i, Scope = Scope rec, IdempotencyKeyHash = IdempotencyKeyHash rec,
                   RequestFingerprint = RequestFingerprint rec, Status = Status rec,
                   ResponseStatus = None, ResponseBody = None, ErrorReason = None,
                   LockedUntil = LockedUntil rec, ExpiresAt = ExpiresAt rec,
                   CreatedAt = now, UpdatedAt = now\<rparr>]\<rparr>,
               Some i))"

definition GetByScopeAndKeyHash :: "idem_table \<Rightarrow> string \<Rightarrow> string \<Rightarrow> IdempotencyRecord option" where
  "GetByScopeAndKeyHash t scope keyHash = find (has_key scope keyHash) (records t)"

text \<open>An \<open>UPDATE\<close> of the rows that satisfy a condition, and whether it affected any.\<close>

definition update_where ::
    "(IdempotencyRecord \<Rightarrow> bool) \<Rightarrow> (IdempotencyRecord \<Rightarrow> IdempotencyRecord) \<Rightarrow> idem_table \<Rightarrow> idem_table \<times> bool" where
  "update_where P f t =
     (t\<lparr>records := map (\<lambda>r. if P r then f r else r) (records t)\<rparr>, list_ex P (records t))"

definition TryReclaim ::
    "gotime \<Rightarrow> idem_table \<Rightarrow> int \<Rightarrow> string \<Rightarrow> gotime \<Rightarrow> gotime \<Rightarrow> gotime \<Rightarrow> idem_table \<times> bool" where
  "TryReclaim db_now t i fromStatus now newLockedUntil newExpiresAt =
     update_where
       (\<lambda>r. ID r = i \<and> Status r = fromStatus \<and>
            (case LockedUntil r of None \<Rightarrow> True | Some u \<Rightarrow> u \<le> now))
       (\<lambda>r. r\<lparr>Status := IdempotencyStatusProcessing, LockedUntil := Some newLockedUntil,
              ErrorReason := None, UpdatedAt := db_now, ExpiresAt := newExpiresAt\<rparr>) t"

definition ExtendProcessingLock ::
    "gotime \<Rightarrow> idem_table \<Rightarrow> int \<Rightarrow> string \<Rightarrow> gotime \<Rightarrow> gotime \<Rightarrow> idem_table \<times> bool" where
  "ExtendProcessingLock db_now t i fingerprint newLockedUntil newExpiresAt =
     update_where
       (\<lambda>r. ID r = i \<and> Status r = IdempotencyStatusProcessing \<and> RequestFingerprint r = fingerprint)
       (\<lambda>r. r\<lparr>LockedUntil := Some newLockedUntil, ExpiresAt := newExpiresAt, UpdatedAt := db_now\<rparr>) t"

definition MarkSucceeded :: "gotime \<Rightarrow> idem_table \<Rightarrow> int \<Rightarrow> int \<Rightarrow> string \<Rightarrow> gotime \<Rightarrow> idem_table" where
  "MarkSucceeded db_now t i responseStatus responseBody expiresAt =
     fst (update_where (\<lambda>r. ID r = i)
       (\<lambda>r. r\<lparr>Status := IdempotencyStatusSucceeded, ResponseStatus := Some responseStatus,
              ResponseBody := Some responseBody, ErrorReason := None, LockedUntil := None,
              ExpiresAt := expiresAt, UpdatedAt := db_now\<rparr>) t)"

definition MarkFailedRetryable :: "gotime \<Rightarrow> idem_table \<Rightarrow> int \<Rightarrow> string \<Rightarrow> gotime \<Rightarrow> gotime \<Rightarrow> idem_table" where
  "MarkFailedRetryable db_now t i errorReason lockedUntil expiresAt =
     fst (update_where (\<lambda>r. ID r = i)
       (\<lambda>r. r\<lparr>Status := IdempotencyStatusFailedRetryable, ErrorReason := Some errorReason,
              LockedUntil := Some lockedUntil, ExpiresAt := expiresAt, UpdatedAt := db_now\<rparr>) t)"

text \<open>The expired rows that expire first, at most \<open>limit\<close> of them, and their number.\<close>

definition DeleteExpired :: "idem_table \<Rightarrow> gotime \<Rightarrow> int \<Rightarrow> idem_table \<times> int" where
  "DeleteExpired t now limit =
     (let limit = (if limit \<le> 0 then 500 else limit);
          victims = take (nat limit)
            (sort_by (\<lambda>a b. ExpiresAt a < ExpiresAt b) (filter (\<lambda>r. ExpiresAt r \<le> now) (records t)));
          ids = map ID victims
      in (t\<lparr>records := filter (\<lambda>r. ID r \<notin> set ids) (records t)\<rparr>,
          int (length (filter (\<lambda>r. ID r \<in> set ids) (records t)))))"

section \<open>Invariant: unique keys and identifiers\<close>

definition key_of :: "IdempotencyRecord \<Rightarrow> string \<times> string" where
  "key_of r = (Scope r, IdempotencyKeyHash r)"

definition idem_wf :: "idem_table \<Rightarrow> bool" where
  "idem_wf t \<longleftrightarrow>
     distinct (map ID (records t)) \<and> distinct (map key_of (records t)) \<and> 0 < next_record_id t \<and>
     (\<forall>r \<in> set (records t). 0 < ID r \<and> ID r < next_record_id t)"

lemma idem_wfD:
  assumes "idem_wf t"
  shows "distinct (map ID (records t))" "distinct (map key_of (records t))" "0 < next_record_id t"
    "\<And>r. r \<in> set (records t) \<Longrightarrow> 0 < ID r \<and> ID r < next_record_id t"
  using assms unfolding idem_wf_def by blast+

lemma record_by_id:
  assumes "idem_wf t" "r \<in> set (records t)" "r' \<in> set (records t)" "ID r = ID r'"
  shows "r = r'"
  using idem_wfD(1)[OF assms(1)] assms(2-4) by (auto simp: distinct_map dest: inj_onD)

lemma record_by_key:
  assumes "idem_wf t" "r \<in> set (records t)" "r' \<in> set (records t)" "key_of r = key_of r'"
  shows "r = r'"
  using idem_wfD(2)[OF assms(1)] assms(2-4) by (auto simp: distinct_map dest: inj_onD)

lemma Get_Some_iff:
  assumes "idem_wf t"
  shows "GetByScopeAndKeyHash t s k = Some r \<longleftrightarrow> r \<in> set (records t) \<and> has_key s k r"
proof
  assume "GetByScopeAndKeyHash t s k = Some r"
  then show "r \<in> set (records t) \<and> has_key s k r"
    by (auto simp: GetByScopeAndKeyHash_def find_Some_iff)
next
  assume r: "r \<in> set (records t) \<and> has_key s k r"
  then have "GetByScopeAndKeyHash t s k \<noteq> None"
    by (auto simp: GetByScopeAndKeyHash_def find_None_iff)
  then obtain r' where r': "GetByScopeAndKeyHash t s k = Some r'" by blast
  then have "r' \<in> set (records t)" "has_key s k r'" by (auto simp: GetByScopeAndKeyHash_def find_Some_iff)
  with r have "r' = r" by (intro record_by_key[OF assms]) (auto simp: key_of_def has_key_def)
  with r' show "GetByScopeAndKeyHash t s k = Some r" by simp
qed

lemma Get_None_iff: "GetByScopeAndKeyHash t s k = None \<longleftrightarrow> \<not> list_ex (has_key s k) (records t)"
  by (auto simp: GetByScopeAndKeyHash_def find_None_iff list_ex_iff)

lemma CreateProcessing_wf:
  assumes "idem_wf t"
  shows "idem_wf (fst (CreateProcessing now t rec))"
proof -
  have new: "next_record_id t \<notin> ID ` set (records t)" using idem_wfD(4)[OF assms] by fastforce
  have "(Scope rec, IdempotencyKeyHash rec) \<notin> key_of ` set (records t)"
    if "\<not> list_ex (has_key (Scope rec) (IdempotencyKeyHash rec)) (records t)"
    using that by (auto simp: list_ex_iff has_key_def key_of_def)
  then show ?thesis
    using idem_wfD[OF assms] new
    by (auto simp: CreateProcessing_def Let_def idem_wf_def key_of_def intro: less_imp_le)
qed

lemma update_where_wf:
  assumes "idem_wf t" "\<And>r. ID (f r) = ID r" "\<And>r. key_of (f r) = key_of r"
  shows "idem_wf (fst (update_where P f t))"
proof -
  have "ID \<circ> (\<lambda>r. if P r then f r else r) = ID" "key_of \<circ> (\<lambda>r. if P r then f r else r) = key_of"
    using assms(2,3) by auto
  then show ?thesis using assms(1,2) by (auto simp: update_where_def idem_wf_def)
qed

lemma statements_wf:
  assumes "idem_wf t"
  shows "idem_wf (fst (TryReclaim d t i s n l e))" "idem_wf (fst (ExtendProcessingLock d t i fp l e))"
    "idem_wf (MarkSucceeded d t i st b e)" "idem_wf (MarkFailedRetryable d t i rs l e)"
  unfolding TryReclaim_def ExtendProcessingLock_def MarkSucceeded_def MarkFailedRetryable_def
  by (intro update_where_wf[OF assms]; simp add: key_of_def)+

lemma DeleteExpired_wf: "idem_wf t \<Longrightarrow> idem_wf (fst (DeleteExpired t now limit))"
  by (auto simp: DeleteExpired_def Let_def idem_wf_def distinct_map_filter)

lemma update_where_set:
  "set (records (fst (update_where P f t))) = (\<lambda>r. if P r then f r else r) ` set (records t)"
  by (auto simp: update_where_def)

lemma Get_update_where:
  assumes "\<And>r. Scope (f r) = Scope r" "\<And>r. IdempotencyKeyHash (f r) = IdempotencyKeyHash r"
  shows "GetByScopeAndKeyHash (fst (update_where P f t)) s k =
    map_option (\<lambda>r. if P r then f r else r) (GetByScopeAndKeyHash t s k)"
proof -
  have "find (has_key s k) (map (\<lambda>r. if P r then f r else r) xs) =
      map_option (\<lambda>r. if P r then f r else r) (find (has_key s k) xs)" for xs
    using assms by (induction xs) (auto simp: has_key_def)
  then show ?thesis by (simp add: GetByScopeAndKeyHash_def update_where_def)
qed

section \<open>Cleaning\<close>

lemma sort_by_sorted:
  "sorted_wrt (\<lambda>a b. \<not> (f b :: 'b :: linorder) < f a) (sort_by (\<lambda>a b. f a < f b) xs)"
proof (induction xs)
  case (Cons x xs)
  have "sorted_wrt (\<lambda>a b. \<not> f b < f a) ys \<Longrightarrow> sorted_wrt (\<lambda>a b. \<not> f b < f a) (insert_by (\<lambda>a b. f a < f b) x ys)" for ys
    by (induction ys) auto
  with Cons show ?case by simp
qed simp

lemma sorted_wrt_take_drop:
  assumes "sorted_wrt R xs" "a \<in> set (take n xs)" "b \<in> set (drop n xs)"
  shows "R a b"
proof -
  have "sorted_wrt R (take n xs @ drop n xs)" using assms(1) by simp
  then have "\<forall>a \<in> set (take n xs). \<forall>b \<in> set (drop n xs). R a b" unfolding sorted_wrt_append by blast
  with assms(2,3) show ?thesis by blast
qed

text \<open>
  Cleaning removes expired rows only and removes those that expired first: what a call with a
  limit removes is expired, it is at most the limit, a row that expired is kept only when the limit
  is used up, and then no row that was removed expired later.
\<close>

theorem DeleteExpired_oldest_first:
  assumes "idem_wf t" and "DeleteExpired t now limit = (t', n)" and "0 < limit"
  shows "set (records t') \<subseteq> set (records t) \<and>
    (\<forall>r \<in> set (records t) - set (records t'). ExpiresAt r \<le> now) \<and> n \<le> limit \<and>
    n = int (length (records t)) - int (length (records t')) \<and>
    (\<forall>r \<in> set (records t'). ExpiresAt r \<le> now \<longrightarrow> n = limit \<and>
      (\<forall>v \<in> set (records t) - set (records t'). ExpiresAt v \<le> ExpiresAt r))"
proof -
  define ex where "ex = filter (\<lambda>r. ExpiresAt r \<le> now) (records t)"
  define so where "so = sort_by (\<lambda>a b. ExpiresAt a < ExpiresAt b) ex"
  define vs where "vs = take (nat limit) so"
  have t': "records t' = filter (\<lambda>r. ID r \<notin> set (map ID vs)) (records t)"
    "n = int (length (filter (\<lambda>r. ID r \<in> set (map ID vs)) (records t)))"
    using assms(2,3) unfolding DeleteExpired_def Let_def vs_def so_def ex_def by auto
  have so: "set so = set ex" "distinct so" "length so = length ex"
    using idem_wfD(1)[OF assms(1)] by (simp_all add: so_def ex_def distinct_map)
  have vs: "set vs \<subseteq> set ex" "distinct vs" "length vs = min (length ex) (nat limit)"
    using so by (auto simp: vs_def dest: in_set_takeD)
  have mem: "ID r \<in> set (map ID vs) \<longleftrightarrow> r \<in> set vs" if "r \<in> set (records t)" for r
    using that vs(1) record_by_id[OF assms(1)] by (auto simp: ex_def)
  have gone: "set (records t) - set (records t') = set vs"
    using mem vs(1) by (auto simp: t'(1) ex_def)
  have "distinct (records t)" using idem_wfD(1)[OF assms(1)] by (simp add: distinct_map)
  then have "n = int (card {r \<in> set (records t). ID r \<in> set (map ID vs)})"
    by (simp add: t'(2) distinct_card [symmetric])
  also have "{r \<in> set (records t). ID r \<in> set (map ID vs)} = set vs" using mem vs(1) by (auto simp: ex_def)
  finally have n: "n = int (length vs)" using vs(2) by (simp add: distinct_card)
  have keep: "n = limit \<and> (\<forall>v \<in> set vs. ExpiresAt v \<le> ExpiresAt r)"
    if r: "r \<in> set (records t')" "ExpiresAt r \<le> now" for r
  proof -
    have "r \<in> set so" "r \<notin> set vs" using r mem by (auto simp: t'(1) so(1) ex_def)
    then have d: "r \<in> set (drop (nat limit) so)" unfolding vs_def by (metis append_take_drop_id Un_iff set_append)
    then have "nat limit < length ex" using so(3) by (metis drop_eq_Nil empty_iff empty_set not_le)
    then have "n = limit" using n vs(3) assms(3) by simp
    moreover have "\<forall>v \<in> set vs. \<not> ExpiresAt r < ExpiresAt v"
      using sorted_wrt_take_drop[OF sort_by_sorted _ d[unfolded so_def]] unfolding vs_def so_def by blast
    ultimately show ?thesis by (simp add: not_less)
  qed
  have "length (records t) = length (records t') + length (filter (\<lambda>r. ID r \<in> set (map ID vs)) (records t))"
    using sum_length_filter_compl[of "\<lambda>r. ID r \<in> set (map ID vs)" "records t"] by (simp add: t'(1))
  with t'(2) n vs keep gone assms(3) show ?thesis by (auto simp: t'(1) ex_def)
qed

definition demo_record :: "int \<Rightarrow> gotime \<Rightarrow> IdempotencyRecord" where
  "demo_record i e = \<lparr>ID = i, Scope = ''s'', IdempotencyKeyHash = Itoa i, RequestFingerprint = ''f'',
     Status = IdempotencyStatusSucceeded, ResponseStatus = None, ResponseBody = None, ErrorReason = None,
     LockedUntil = None, ExpiresAt = e, CreatedAt = 0, UpdatedAt = 0\<rparr>"

lemma Itoa_inj: "Itoa a = Itoa b \<longleftrightarrow> a = b"
  by (metis option.inject parse_int_Itoa)

theorem DeleteExpired_oldest_first_witness:
  "\<exists>t' n. DeleteExpired \<lparr>records = [demo_record 1 9, demo_record 2 4], next_record_id = 3\<rparr> 10 1 = (t', n) \<and>
     records t' = [demo_record 1 9] \<and> n = 1"
proof -
  let ?t = "\<lparr>records = [demo_record 1 9, demo_record 2 4], next_record_id = 3\<rparr>"
  obtain t' n where d: "DeleteExpired ?t 10 1 = (t', n)" by fastforce
  have "idem_wf ?t" by (simp add: idem_wf_def demo_record_def key_of_def Itoa_inj)
  note p = DeleteExpired_oldest_first[OF this d]
  have "records t' = [demo_record 1 9]" using d by (auto simp: DeleteExpired_def demo_record_def)
  with p d show ?thesis by (auto simp: demo_record_def)
qed

end
