(* ===== verification/Idempotency.thy ===== *)
theory Idempotency
  imports IdempotencyStore
begin

text \<open>
  The idempotency coordinator, \<open>service/idempotency.go\<close>. \<open>Execute\<close> is written as a program over the
  calls it makes to the repository and to the executor (\<open>prog\<close>): each call is followed by what the
  code does with its reply. The same program is run alone (\<open>run\<close>) and, one call at a time, beside
  other requests, the lease renewals and the cleaner (\<open>idem_step\<close>). The libraries for JSON, SHA-256
  and redaction are the fields of \<open>lib\<close>; a value of Go's \<open>any\<close> is an element of the type \<^typ>\<open>'v\<close>.
\<close>

section \<open>Data\<close>

datatype idem_error =
    ErrIdempotencyKeyRequired
  | ErrIdempotencyKeyInvalid
  | ErrIdempotencyKeyConflict
  | ErrIdempotencyInProgress "string option"     \<comment> \<open>the metadata \<open>retry_after\<close>\<close>
  | ErrIdempotencyRetryBackoff "string option"
  | ErrIdempotencyStoreUnavail
  | ErrIdempotencyInvalidPayload
  | ErrScopeRequired
  | ErrExecutorNil
  | ErrExec string                               \<comment> \<open>the executor's error, with its reason code\<close>

record IdempotencyConfig =
  DefaultTTL :: duration
  SystemOperationTTL :: duration
  ProcessingTimeout :: duration
  FailedRetryBackoff :: duration
  MaxStoredResponseLen :: int
  ObserveOnly :: bool

definition DefaultIdempotencyConfig :: IdempotencyConfig where
  "DefaultIdempotencyConfig =
     \<lparr>DefaultTTL = 24 * Hour, SystemOperationTTL = 1 * Hour, ProcessingTimeout = 30 * Second,
      FailedRetryBackoff = 5 * Second, MaxStoredResponseLen = 64 * 1024, ObserveOnly = True\<rparr>"

record 'v IdempotencyExecuteOptions =
  opt_Scope :: string
  ActorScope :: string
  Method :: string
  opt_Route :: string
  IdempotencyKey :: string
  Payload :: 'v
  TTL :: duration
  RequireKey :: bool
  ExecutionTimeout :: duration

record 'v IdempotencyExecuteResult =
  Data :: 'v
  Replayed :: bool

record 'v lib =
  Marshal :: "'v \<Rightarrow> string option"
  Unmarshal :: "string \<Rightarrow> 'v option"
  EmptyObject :: 'v
  RedactText :: "string \<Rightarrow> string"
  Sha256Hex :: "string \<Rightarrow> string"

text \<open>The time-to-live of a coordinator that may not be set.\<close>

definition DefaultWriteIdempotencyTTL :: "IdempotencyConfig option \<Rightarrow> duration" where
  "DefaultWriteIdempotencyTTL coordinator =
     (case coordinator of
        Some cfg \<Rightarrow> if DefaultTTL cfg > 0 then DefaultTTL cfg else DefaultTTL DefaultIdempotencyConfig
      | None \<Rightarrow> DefaultTTL DefaultIdempotencyConfig)"

definition DefaultSystemOperationIdempotencyTTL :: "IdempotencyConfig option \<Rightarrow> duration" where
  "DefaultSystemOperationIdempotencyTTL coordinator =
     (case coordinator of
        Some cfg \<Rightarrow> if SystemOperationTTL cfg > 0 then SystemOperationTTL cfg
                     else SystemOperationTTL DefaultIdempotencyConfig
      | None \<Rightarrow> SystemOperationTTL DefaultIdempotencyConfig)"

section \<open>Keys, fingerprints and stored responses\<close>

text \<open>A byte outside ASCII starts a rune above 126, so the loop over runes is one over bytes.\<close>

definition NormalizeIdempotencyKey :: "string \<Rightarrow> idem_error + string" where
  "NormalizeIdempotencyKey raw =
     (let key = TrimSpace raw
      in if key = [] then Inr []
         else if length key > 128 then Inl ErrIdempotencyKeyInvalid
         else if list_all visible key then Inr key
         else Inl ErrIdempotencyKeyInvalid)"

definition HashIdempotencyKey :: "'v lib \<Rightarrow> string \<Rightarrow> string" where
  "HashIdempotencyKey L key = Sha256Hex L key"

definition BuildIdempotencyFingerprint :: "'v lib \<Rightarrow> string \<Rightarrow> string \<Rightarrow> string \<Rightarrow> 'v \<Rightarrow> idem_error + string" where
  "BuildIdempotencyFingerprint L meth route actorScope payload =
     (let meth = (if meth = [] then ''POST'' else meth);
          route = (if route = [] then ''/'' else route);
          actorScope = (if actorScope = [] then ''anonymous'' else actorScope)
      in case Marshal L payload of
           None \<Rightarrow> Inl ErrIdempotencyInvalidPayload
         | Some raw \<Rightarrow>
             Inr (Sha256Hex L (ToUpper meth @ [CHR 0x0A] @ route @ [CHR 0x0A] @ actorScope @ [CHR 0x0A] @ raw)))"

fun retry_after_of :: "idem_error \<Rightarrow> string option" where
  "retry_after_of (ErrIdempotencyInProgress m) = m"
| "retry_after_of (ErrIdempotencyRetryBackoff m) = m"
| "retry_after_of _ = None"

definition RetryAfterSecondsFromError :: "idem_error \<Rightarrow> int" where
  "RetryAfterSecondsFromError err =
     (case retry_after_of err of
        None \<Rightarrow> 0
      | Some v0 \<Rightarrow>
          (let v = TrimSpace v0
           in if v = [] then 0
              else case ParseInt64 v of
                     None \<Rightarrow> 0
                   | Some seconds \<Rightarrow> if seconds \<le> 0 then 0 else seconds))"

text \<open>\<open>Duration.Seconds\<close> truncated to an integer.\<close>

definition conflictWithRetryAfter ::
    "(string option \<Rightarrow> idem_error) \<Rightarrow> gotime option \<Rightarrow> gotime \<Rightarrow> idem_error" where
  "conflictWithRetryAfter base lockedUntil now =
     (case lockedUntil of
        None \<Rightarrow> base None
      | Some u \<Rightarrow>
          (let sec = time_sub u now sdiv Second
           in base (Some (Itoa (if sec \<le> 0 then 1 else sec)))))"

fun truncate_loop :: "string \<Rightarrow> nat \<Rightarrow> string" where
  "truncate_loop s 0 = take 0 s"
| "truncate_loop s (Suc n) = (if ValidString (take (Suc n) s) then take (Suc n) s else truncate_loop s n)"

definition truncateUTF8 :: "string \<Rightarrow> int \<Rightarrow> string" where
  "truncateUTF8 s maxBytes =
     (if maxBytes \<le> 0 \<or> int (length s) \<le> maxBytes then s else truncate_loop s (nat maxBytes))"

definition marshalStoredResponse :: "'v lib \<Rightarrow> IdempotencyConfig \<Rightarrow> 'v \<Rightarrow> string option" where
  "marshalStoredResponse L cfg data =
     (case Marshal L data of
        None \<Rightarrow> None
      | Some raw \<Rightarrow>
          (let redacted = RedactText L raw
           in if MaxStoredResponseLen cfg > 0 \<and> int (length redacted) > MaxStoredResponseLen cfg
              then Some (truncateUTF8 redacted (MaxStoredResponseLen cfg) @ ''...(truncated)'')
              else Some redacted))"

definition decodeStoredResponse :: "'v lib \<Rightarrow> string option \<Rightarrow> 'v option" where
  "decodeStoredResponse L stored =
     (case stored of
        None \<Rightarrow> Some (EmptyObject L)
      | Some b \<Rightarrow> if TrimSpace b = [] then Some (EmptyObject L) else Unmarshal L b)"

section \<open>The program of Execute\<close>

datatype idem_call =
    CallCreate IdempotencyRecord
  | CallGet string string
  | CallReclaim int string gotime gotime gotime
  | CallExec "int option"               \<comment> \<open>the executor; the record held, if any\<close>
  | CallSucceeded int int string gotime
  | CallFailed int string gotime gotime

datatype 'v idem_reply =
    ReplyErr
  | ReplyCreated "int option"
  | ReplyRecord "IdempotencyRecord option"
  | ReplyTaken bool
  | ReplyExec gotime "string + 'v"      \<comment> \<open>the clock at return, and the reason of the error or the data\<close>
  | ReplyDone

datatype 'v prog =
    Ret "idem_error + 'v IdempotencyExecuteResult"
  | Call idem_call "'v idem_reply \<Rightarrow> 'v prog"

abbreviation unavail :: "'v prog" where
  "unavail \<equiv> Ret (Inl ErrIdempotencyStoreUnavail)"

text \<open>The second half: run the executor on the claimed record and persist the outcome.\<close>

definition finish_phase ::
    "'v lib \<Rightarrow> IdempotencyConfig \<Rightarrow> 'v IdempotencyExecuteOptions \<Rightarrow> int \<Rightarrow> duration \<Rightarrow> gotime \<Rightarrow> gotime \<Rightarrow> string + 'v \<Rightarrow> 'v prog" where
  "finish_phase L cfg opts i ttl expiresAt t out =
     (let expiresAt = (if ExecutionTimeout opts > 0 then t + ttl else expiresAt)
      in case out of
           Inl reason \<Rightarrow>
             Call (CallFailed i (if reason = [] then ''EXECUTION_FAILED'' else reason)
                     (t + FailedRetryBackoff cfg) expiresAt)
               (\<lambda>_. Ret (Inl (ErrExec reason)))
         | Inr data \<Rightarrow>
             (case marshalStoredResponse L cfg data of
                None \<Rightarrow> unavail
              | Some body \<Rightarrow>
                  Call (CallSucceeded i 200 body expiresAt)
                    (\<lambda>r. if r = ReplyErr then unavail else Ret (Inr \<lparr>Data = data, Replayed = False\<rparr>))))"

definition exec_phase ::
    "'v lib \<Rightarrow> IdempotencyConfig \<Rightarrow> 'v IdempotencyExecuteOptions \<Rightarrow> int \<Rightarrow> duration \<Rightarrow> gotime \<Rightarrow> 'v prog" where
  "exec_phase L cfg opts i ttl expiresAt =
     (if i = 0 then unavail
      else Call (CallExec (Some i))
             (\<lambda>r. case r of
                    ReplyExec t out \<Rightarrow> finish_phase L cfg opts i ttl expiresAt t out
                  | _ \<Rightarrow> unavail))"

text \<open>The switch on the status of an existing record that was not reclaimed as expired.\<close>

definition existing_phase ::
    "'v lib \<Rightarrow> IdempotencyConfig \<Rightarrow> 'v IdempotencyExecuteOptions \<Rightarrow> gotime \<Rightarrow> duration \<Rightarrow> gotime \<Rightarrow> gotime \<Rightarrow> IdempotencyRecord \<Rightarrow> 'v prog" where
  "existing_phase L cfg opts now ttl lockedUntil expiresAt existing =
     (if Status existing = IdempotencyStatusSucceeded then
        (case decodeStoredResponse L (ResponseBody existing) of
           None \<Rightarrow> unavail
         | Some data \<Rightarrow> Ret (Inr \<lparr>Data = data, Replayed = True\<rparr>))
      else if Status existing = IdempotencyStatusProcessing then
        Ret (Inl (conflictWithRetryAfter ErrIdempotencyInProgress (LockedUntil existing) now))
      else if Status existing = IdempotencyStatusFailedRetryable then
        (if (case LockedUntil existing of None \<Rightarrow> False | Some u \<Rightarrow> u > now) then
           Ret (Inl (conflictWithRetryAfter ErrIdempotencyRetryBackoff (LockedUntil existing) now))
         else
           Call (CallReclaim (ID existing) IdempotencyStatusFailedRetryable now lockedUntil expiresAt)
             (\<lambda>r. case r of
                    ReplyTaken True \<Rightarrow> exec_phase L cfg opts (ID existing) ttl expiresAt
                  | ReplyTaken False \<Rightarrow>
                      Ret (Inl (conflictWithRetryAfter ErrIdempotencyInProgress (LockedUntil existing) now))
                  | _ \<Rightarrow> unavail))
      else Ret (Inl ErrIdempotencyKeyConflict))"

text \<open>The branch of a request that does not own the record.\<close>

definition conflict_phase ::
    "'v lib \<Rightarrow> IdempotencyConfig \<Rightarrow> 'v IdempotencyExecuteOptions \<Rightarrow> gotime \<Rightarrow> duration \<Rightarrow> gotime \<Rightarrow> gotime \<Rightarrow> string \<Rightarrow> string \<Rightarrow> 'v prog" where
  "conflict_phase L cfg opts now ttl lockedUntil expiresAt keyHash fingerprint =
     Call (CallGet (opt_Scope opts) keyHash)
       (\<lambda>r. case r of
              ReplyRecord (Some existing) \<Rightarrow>
                (if RequestFingerprint existing \<noteq> fingerprint then Ret (Inl ErrIdempotencyKeyConflict)
                 else if ExpiresAt existing > now then
                   existing_phase L cfg opts now ttl lockedUntil expiresAt existing
                 else
                   Call (CallReclaim (ID existing) (Status existing) now lockedUntil expiresAt)
                     (\<lambda>r. case r of
                            ReplyTaken True \<Rightarrow> exec_phase L cfg opts (ID existing) ttl expiresAt
                          | ReplyTaken False \<Rightarrow>
                              Call (CallGet (opt_Scope opts) keyHash)
                                (\<lambda>r. case r of
                                       ReplyRecord (Some latest) \<Rightarrow>
                                         (if RequestFingerprint latest \<noteq> fingerprint
                                          then Ret (Inl ErrIdempotencyKeyConflict)
                                          else existing_phase L cfg opts now ttl lockedUntil expiresAt latest)
                                     | _ \<Rightarrow> unavail)
                          | _ \<Rightarrow> unavail))
            | _ \<Rightarrow> unavail)"

definition claim_record :: "string \<Rightarrow> string \<Rightarrow> string \<Rightarrow> gotime \<Rightarrow> gotime \<Rightarrow> IdempotencyRecord" where
  "claim_record scope keyHash fingerprint lockedUntil expiresAt =
     \<lparr>ID = 0, Scope = scope, IdempotencyKeyHash = keyHash, RequestFingerprint = fingerprint,
      Status = IdempotencyStatusProcessing, ResponseStatus = None, ResponseBody = None, ErrorReason = None,
      LockedUntil = Some lockedUntil, ExpiresAt = expiresAt, CreatedAt = 0, UpdatedAt = 0\<rparr>"

definition claim_phase ::
    "'v lib \<Rightarrow> IdempotencyConfig \<Rightarrow> 'v IdempotencyExecuteOptions \<Rightarrow> gotime \<Rightarrow> string \<Rightarrow> string \<Rightarrow> 'v prog" where
  "claim_phase L cfg opts now key fingerprint =
     (let ttl = (if TTL opts \<le> 0 then DefaultTTL cfg else TTL opts);
          expiresAt = now + ttl;
          lockedUntil = now + ProcessingTimeout cfg;
          keyHash = HashIdempotencyKey L key
      in Call (CallCreate (claim_record (opt_Scope opts) keyHash fingerprint lockedUntil expiresAt))
           (\<lambda>r. case r of
                  ReplyCreated (Some i) \<Rightarrow> exec_phase L cfg opts i ttl expiresAt
                | ReplyCreated None \<Rightarrow>
                    conflict_phase L cfg opts now ttl lockedUntil expiresAt keyHash fingerprint
                | _ \<Rightarrow> unavail))"

text \<open>\<open>has_repo\<close> and \<open>has_exec\<close>: the repository and the executor are not nil; \<open>now\<close> is the clock.\<close>

definition Execute ::
    "'v lib \<Rightarrow> IdempotencyConfig \<Rightarrow> bool \<Rightarrow> bool \<Rightarrow> gotime \<Rightarrow> 'v IdempotencyExecuteOptions \<Rightarrow> 'v prog" where
  "Execute L cfg has_repo has_exec now opts =
     (if \<not> has_exec then Ret (Inl ErrExecutorNil)
      else case NormalizeIdempotencyKey (IdempotencyKey opts) of
             Inl e \<Rightarrow> Ret (Inl e)
           | Inr key \<Rightarrow>
               (if key = [] then
                  (if RequireKey opts \<and> \<not> ObserveOnly cfg then Ret (Inl ErrIdempotencyKeyRequired)
                   else Call (CallExec None)
                          (\<lambda>r. case r of
                                 ReplyExec _ (Inl reason) \<Rightarrow> Ret (Inl (ErrExec reason))
                               | ReplyExec _ (Inr data) \<Rightarrow> Ret (Inr \<lparr>Data = data, Replayed = False\<rparr>)
                               | _ \<Rightarrow> unavail))
                else if \<not> has_repo then unavail
                else if opt_Scope opts = [] then Ret (Inl ErrScopeRequired)
                else case BuildIdempotencyFingerprint L (Method opts) (opt_Route opts) (ActorScope opts) (Payload opts) of
                       Inl e \<Rightarrow> Ret (Inl e)
                     | Inr fingerprint \<Rightarrow> claim_phase L cfg opts now key fingerprint))"

text \<open>The lease of a record whose execution is bounded, and one renewal of it.\<close>

definition renew_lease :: "IdempotencyConfig \<Rightarrow> duration" where
  "renew_lease cfg = (if ProcessingTimeout cfg \<le> 0 then ProcessingTimeout DefaultIdempotencyConfig
                      else ProcessingTimeout cfg)"

definition renew_interval :: "IdempotencyConfig \<Rightarrow> duration \<Rightarrow> duration" where
  "renew_interval cfg ttl =
     (let interval = min (renew_lease cfg sdiv 3) (ttl sdiv 3)
      in if interval < Millisecond then Millisecond else interval)"

definition renew_tick :: "IdempotencyConfig \<Rightarrow> duration \<Rightarrow> gotime \<Rightarrow> idem_table \<Rightarrow> int \<Rightarrow> string \<Rightarrow> idem_table \<times> bool" where
  "renew_tick cfg ttl now t i fingerprint =
     ExtendProcessingLock now t i fingerprint (now + renew_lease cfg) (now + ttl)"

section \<open>Running a program alone\<close>

definition do_call :: "gotime \<Rightarrow> idem_call \<Rightarrow> idem_table \<Rightarrow> idem_table \<times> 'v idem_reply" where
  "do_call now c t =
     (case c of
        CallCreate rec \<Rightarrow> (case CreateProcessing now t rec of (t', r) \<Rightarrow> (t', ReplyCreated r))
      | CallGet s k \<Rightarrow> (t, ReplyRecord (GetByScopeAndKeyHash t s k))
      | CallReclaim i st n l e \<Rightarrow> (case TryReclaim now t i st n l e of (t', b) \<Rightarrow> (t', ReplyTaken b))
      | CallExec _ \<Rightarrow> (t, ReplyErr)
      | CallSucceeded i st b e \<Rightarrow> (MarkSucceeded now t i st b e, ReplyDone)
      | CallFailed i reason l e \<Rightarrow> (MarkFailedRetryable now t i reason l e, ReplyDone))"

text \<open>
  A run against a handler of the repository calls: the final table, the result, and the records on
  which the executor was run. The executor's outcome and the clock at its return are given.
\<close>

primrec run :: "(idem_call \<Rightarrow> 's \<Rightarrow> 's \<times> 'v idem_reply) \<Rightarrow> gotime \<times> (string + 'v) \<Rightarrow> 'v prog
    \<Rightarrow> 's \<Rightarrow> 's \<times> (idem_error + 'v IdempotencyExecuteResult) \<times> int option list" where
  "run h x (Ret r) = (\<lambda>s. (s, r, []))"
| "run h x (Call c k) = (\<lambda>s.
     case c of
       CallExec i \<Rightarrow> (case run h x (k (ReplyExec (fst x) (snd x))) s of (s', r, es) \<Rightarrow> (s', r, i # es))
     | _ \<Rightarrow> (case h c s of (s', rep) \<Rightarrow> run h x (k rep) s'))"

end
