(* ===== verification/IdempotencyConcurrent.thy ===== *)
theory IdempotencyConcurrent
  imports Idempotency
begin

text \<open>
  The idempotency coordinator under concurrency: any number of requests run the program of
  \<open>Execute\<close> one call at a time, beside lease renewals, crashes, the cleaner, failing statements,
  statements whose reply is lost, and the passing of time. The safety properties of a record hold as long as it has not
  passed its expiry, which is the window the coordinator promises; once it has, two requests can both execute
  under its key (\<open>late_reclaim_reopens_success\<close>).
\<close>

section \<open>The system\<close>

record 'v idem_sys =
  tbl :: idem_table
  clk :: gotime
  procs :: "nat \<Rightarrow> 'v prog"

definition is_exec :: "idem_call \<Rightarrow> bool" where
  "is_exec c = (case c of CallExec _ \<Rightarrow> True | _ \<Rightarrow> False)"

inductive idem_step :: "'v lib \<Rightarrow> IdempotencyConfig \<Rightarrow> 'v idem_sys \<Rightarrow> 'v idem_sys \<Rightarrow> bool" for L cfg where
  start: "procs s p = Ret r \<Longrightarrow>
    idem_step L cfg s (s\<lparr>procs := (procs s)(p := Execute L cfg True True (clk s) opts)\<rparr>)"
| call: "procs s p = Call c k \<Longrightarrow> \<not> is_exec c \<Longrightarrow> do_call (clk s) c (tbl s) = (t', rep) \<Longrightarrow>
    idem_step L cfg s (s\<lparr>tbl := t', procs := (procs s)(p := k rep)\<rparr>)"
| call_fails: "procs s p = Call c k \<Longrightarrow> \<not> is_exec c \<Longrightarrow>
    idem_step L cfg s (s\<lparr>procs := (procs s)(p := k ReplyErr)\<rparr>)"
| reply_lost: "procs s p = Call c k \<Longrightarrow> \<not> is_exec c \<Longrightarrow> do_call (clk s) c (tbl s) = (t', rep :: 'v idem_reply) \<Longrightarrow>
    idem_step L cfg s (s\<lparr>tbl := t', procs := (procs s)(p := k ReplyErr)\<rparr>)"
| exec: "procs s p = Call (CallExec i) k \<Longrightarrow>
    idem_step L cfg s (s\<lparr>procs := (procs s)(p := k (ReplyExec (clk s) out))\<rparr>)"
| renew: "procs s p = Call (CallExec (Some i)) k \<Longrightarrow>
    idem_step L cfg s (s\<lparr>tbl := fst (renew_tick cfg ttl (clk s) (tbl s) i fp)\<rparr>)"
| crash: "idem_step L cfg s (s\<lparr>procs := (procs s)(p := unavail)\<rparr>)"
| clean: "idem_step L cfg s (s\<lparr>tbl := fst (DeleteExpired (tbl s) (clk s) limit)\<rparr>)"
| tick: "clk s \<le> n \<Longrightarrow> idem_step L cfg s (s\<lparr>clk := n\<rparr>)"

text \<open>The record \<open>i\<close> has not passed its expiry, now or in any state before.\<close>

definition fresh :: "int \<Rightarrow> 'v idem_sys \<Rightarrow> bool" where
  "fresh i s \<longleftrightarrow> (\<forall>r \<in> set (records (tbl s)). ID r = i \<longrightarrow> clk s < ExpiresAt r)"

inductive idem_reach :: "'v lib \<Rightarrow> IdempotencyConfig \<Rightarrow> int \<Rightarrow> 'v idem_sys \<Rightarrow> bool" for L cfg i where
  init: "idem_reach L cfg i \<lparr>tbl = \<lparr>records = [], next_record_id = 1\<rparr>, clk = n, procs = (\<lambda>_. unavail)\<rparr>"
| step: "idem_reach L cfg i s \<Longrightarrow> idem_step L cfg s s' \<Longrightarrow> fresh i s' \<Longrightarrow> idem_reach L cfg i s'"

section \<open>What a program may do next\<close>

text \<open>The record a request holds: it is about to run the executor on it or to store the outcome.\<close>

fun holder :: "'v prog \<Rightarrow> int option" where
  "holder (Ret _) = None"
| "holder (Call (CallExec i) _) = i"
| "holder (Call (CallSucceeded i _ _ _) _) = Some i"
| "holder (Call (CallFailed i _ _ _) _) = Some i"
| "holder (Call _ _) = None"

fun granted :: "idem_call \<Rightarrow> 'v idem_reply \<Rightarrow> int option" where
  "granted (CallCreate _) (ReplyCreated i) = i"
| "granted (CallReclaim i _ _ _ _) (ReplyTaken True) = Some i"
| "granted (CallExec i) (ReplyExec _ _) = i"
| "granted _ _ = None"

fun call_ok :: "int \<Rightarrow> idem_call \<Rightarrow> bool" where
  "call_ok i (CallCreate rec) = (Status rec = IdempotencyStatusProcessing)"
| "call_ok i (CallReclaim j st _ _ _) = (j = i \<longrightarrow> st = IdempotencyStatusFailedRetryable)"
| "call_ok i _ = True"

fun reply_ok :: "int \<Rightarrow> gotime \<Rightarrow> idem_call \<Rightarrow> 'v idem_reply \<Rightarrow> bool" where
  "reply_ok i n (CallGet _ _) (ReplyRecord (Some r)) = (ID r = i \<longrightarrow> n < ExpiresAt r)"
| "reply_ok i _ _ _ = True"

text \<open>A program holds at most what a reply granted.\<close>

definition within :: "int option \<Rightarrow> 'v prog \<Rightarrow> bool" where
  "within g q \<longleftrightarrow> holder q = None \<or> holder q = g"

lemma within_free [simp]: "holder q = None \<Longrightarrow> within g q"
  by (simp add: within_def)

text \<open>
  A program disciplined towards record \<open>i\<close>: as long as it does not read it expired it reclaims it only when it failed,
  and it holds a record only after a reply that granted it.
\<close>

primrec disciplined :: "int \<Rightarrow> gotime \<Rightarrow> 'v prog \<Rightarrow> bool" where
  "disciplined i n (Ret r) = True"
| "disciplined i n (Call c k) =
     (call_ok i c \<and> (\<forall>r. reply_ok i n c r \<longrightarrow> disciplined i n (k r) \<and> within (granted c r) (k r)))"

lemma finish_disciplined [simp]:
  "disciplined j n (finish_phase L cfg opts i ttl e t out)"
  "within (Some i) (finish_phase L cfg opts i ttl e t out)"
  by (auto simp: finish_phase_def within_def Let_def split: sum.splits option.splits)

lemma exec_disciplined [simp]:
  "disciplined j n (exec_phase L cfg opts i ttl e)" "within (Some i) (exec_phase L cfg opts i ttl e)"
proof -
  show "within (Some i) (exec_phase L cfg opts i ttl e)" by (simp add: exec_phase_def within_def)
  show "disciplined j n (exec_phase L cfg opts i ttl e)" by (auto simp: exec_phase_def split: idem_reply.splits)
qed

lemma existing_disciplined [simp]:
  "disciplined i n (existing_phase L cfg opts now ttl l e r)"
  "holder (existing_phase L cfg opts now ttl l e r) = None"
  by (auto simp: existing_phase_def split: option.splits idem_reply.splits bool.splits)

lemma conflict_disciplined [simp]:
  "disciplined i now (conflict_phase L cfg opts now ttl l e kh fp)"
  "holder (conflict_phase L cfg opts now ttl l e kh fp) = None"
  by (auto simp: conflict_phase_def split: option.splits idem_reply.splits bool.splits)

lemma claim_disciplined [simp]:
  "disciplined i now (claim_phase L cfg opts now key fp)" "holder (claim_phase L cfg opts now key fp) = None"
  by (auto simp: claim_phase_def Let_def claim_record_def split: option.splits idem_reply.splits)

lemma Execute_disciplined [simp]:
  "disciplined i now (Execute L cfg hr he now opts)" "holder (Execute L cfg hr he now opts) = None"
  by (auto simp: Execute_def split: sum.splits idem_reply.splits)

section \<open>The invariant\<close>

definition locked_by :: "int \<Rightarrow> idem_table \<Rightarrow> (nat \<Rightarrow> 'v prog) \<Rightarrow> bool" where
  "locked_by i t ps \<longleftrightarrow>
     (\<forall>p. holder (ps p) = Some i \<longrightarrow> (\<exists>r \<in> set (records t). ID r = i \<and> Status r = IdempotencyStatusProcessing)) \<and>
     (\<forall>p q. holder (ps p) = Some i \<longrightarrow> holder (ps q) = Some i \<longrightarrow> p = q)"

definition idem_inv :: "int \<Rightarrow> 'v idem_sys \<Rightarrow> bool" where
  "idem_inv i s \<longleftrightarrow> idem_wf (tbl s) \<and> locked_by i (tbl s) (procs s) \<and>
     (\<forall>p. \<exists>n \<le> clk s. disciplined i n (procs s p))"

lemma locked_byD:
  assumes "locked_by i t ps"
  shows "\<And>p. holder (ps p) = Some i \<Longrightarrow> \<exists>r \<in> set (records t). ID r = i \<and> Status r = IdempotencyStatusProcessing"
    and "\<And>p q. holder (ps p) = Some i \<Longrightarrow> holder (ps q) = Some i \<Longrightarrow> p = q"
  using assms unfolding locked_by_def by blast+

text \<open>A request that keeps or drops what it holds, over a table that keeps the record if it is held.\<close>

lemma locked_by_release:
  assumes "locked_by i t ps" "holder q = Some i \<Longrightarrow> holder (ps p) = Some i"
    and "\<And>r p'. r \<in> set (records t) \<Longrightarrow> Status r = IdempotencyStatusProcessing \<Longrightarrow> ID r = i \<Longrightarrow>
      holder ((ps(p := q)) p') = Some i \<Longrightarrow> \<exists>r' \<in> set (records t'). ID r' = i \<and> Status r' = IdempotencyStatusProcessing"
  shows "locked_by i t' (ps(p := q))"
proof -
  have sub: "holder (ps p') = Some i" if "holder ((ps(p := q)) p') = Some i" for p'
    using that assms(2) by (cases "p' = p") auto
  show ?thesis unfolding locked_by_def using locked_byD[OF assms(1)] sub assms(3) by metis
qed

text \<open>A request that is granted a record nobody holds.\<close>

lemma locked_by_grant:
  assumes "\<And>p'. holder (ps p') \<noteq> Some i"
    and "\<exists>r \<in> set (records t'). ID r = i \<and> Status r = IdempotencyStatusProcessing"
  shows "locked_by i t' (ps(p := q))"
  using assms by (auto simp: locked_by_def split: if_splits)

lemma do_call_wf: "idem_wf t \<Longrightarrow> do_call n c t = (t', rep) \<Longrightarrow> idem_wf t'"
  using CreateProcessing_wf[of t n] statements_wf[of t n]
  by (cases c) (auto simp: do_call_def split: prod.splits, metis fst_conv, metis fst_conv)

lemma do_call_reply_ok:
  assumes "do_call m c t = (t', rep)" "\<forall>r \<in> set (records t). ID r = i \<longrightarrow> n < ExpiresAt r"
  shows "reply_ok i n c rep"
proof (cases c)
  case (CallGet sc kh)
  have "ID r = i \<longrightarrow> n < ExpiresAt r" if "GetByScopeAndKeyHash t sc kh = Some r" for r
    using that assms(2) by (auto simp: GetByScopeAndKeyHash_def find_Some_iff)
  then show ?thesis using assms(1) CallGet by (cases "GetByScopeAndKeyHash t sc kh") (auto simp: do_call_def)
qed simp_all

lemma create_locked:
  assumes wf: "idem_wf t" and l: "locked_by i t ps" and c: "CreateProcessing n t rec = (t', g)"
    and st: "Status rec = IdempotencyStatusProcessing" and q: "within g q"
  shows "locked_by i t' (ps(p := q))"
proof -
  have keep: "set (records t) \<subseteq> set (records t')" using c by (auto simp: CreateProcessing_def Let_def split: if_splits)
  show ?thesis
  proof (cases "g = Some i")
    case False
    then show ?thesis using q keep by (intro locked_by_release[OF l]) (auto simp: within_def)
  next
    case True
    then have t': "i = next_record_id t" "\<exists>r. records t' = records t @ [r] \<and> ID r = i \<and> Status r = Status rec"
      using c by (auto simp: CreateProcessing_def Let_def split: if_splits)
    have free: "holder (ps p') \<noteq> Some i" for p'
    proof
      assume "holder (ps p') = Some i"
      from locked_byD(1)[OF l this] obtain r where "r \<in> set (records t)" "ID r = i" by blast
      with idem_wfD(4)[OF wf, of r] t'(1) show False by simp
    qed
    show ?thesis using t'(2) st by (intro locked_by_grant[OF free]) auto
  qed
qed

lemma update_one_status:
  assumes "r \<in> set (records t)" "\<not> P r"
  shows "r \<in> set (records (fst (update_where P f t)))"
  using assms by (auto simp: update_where_set)

lemma reclaim_locked:
  assumes wf: "idem_wf t" and l: "locked_by i t ps" and st: "j = i \<Longrightarrow> st = IdempotencyStatusFailedRetryable"
    and c: "TryReclaim m t j st n lk e = (t', b)"
    and q: "within (if b then Some j else None) q"
  shows "locked_by i t' (ps(p := q))"
proof -
  let ?P = "\<lambda>r. ID r = j \<and> Status r = st \<and> (case LockedUntil r of None \<Rightarrow> True | Some u \<Rightarrow> u \<le> n)"
  let ?f = "\<lambda>r. r\<lparr>Status := IdempotencyStatusProcessing, LockedUntil := Some lk, ErrorReason := None,
      UpdatedAt := m, ExpiresAt := e\<rparr>"
  have t': "t' = fst (update_where ?P ?f t)" "b = list_ex ?P (records t)"
    using c by (auto simp: TryReclaim_def update_where_def)
  have keep: "r \<in> set (records t')" if "r \<in> set (records t)" "Status r = IdempotencyStatusProcessing" "ID r = i" for r
    using that st unfolding t'(1) by (intro update_one_status) auto
  show ?thesis
  proof (cases "b \<and> j = i")
    case False
    with q have "holder q \<noteq> Some i" by (auto simp: within_def split: if_splits)
    then show ?thesis using keep by (intro locked_by_release[OF l]) auto
  next
    case True
    then obtain r where r: "r \<in> set (records t)" "?P r" using t'(2) by (auto simp: list_ex_iff)
    have free: "holder (ps p') \<noteq> Some i" for p'
    proof
      assume "holder (ps p') = Some i"
      then obtain r' where "r' \<in> set (records t)" "ID r' = i" "Status r' = IdempotencyStatusProcessing"
        using locked_byD(1)[OF l] by blast
      with record_by_id[OF wf r(1), of r'] r(2) st True show False by simp
    qed
    have new: "?f r \<in> set (records t')" unfolding t'(1) update_where_set using r by force
    then have "\<exists>r' \<in> set (records t'). ID r' = i \<and> Status r' = IdempotencyStatusProcessing"
      using r(2) True by (intro bexI[OF _ new]) simp
    then show ?thesis by (rule locked_by_grant[OF free])
  qed
qed

lemma mark_locked:
  assumes l: "locked_by i t ps" and h: "holder (ps p) = Some j" and q: "holder q = None"
  shows "locked_by i (fst (update_where (\<lambda>r. ID r = j) f t)) (ps(p := q))"
proof (rule locked_by_release[OF l])
  show "holder q = Some i \<Longrightarrow> holder (ps p) = Some i" using q by simp
  fix r p' assume r: "r \<in> set (records t)" "Status r = IdempotencyStatusProcessing" "ID r = i"
    and hold: "holder ((ps(p := q)) p') = Some i"
  then have "p' \<noteq> p" "holder (ps p') = Some i" using q by (auto split: if_splits)
  with locked_byD(2)[OF l, of p p'] h have "j \<noteq> i" by auto
  with r show "\<exists>r' \<in> set (records (fst (update_where (\<lambda>r. ID r = j) f t))). ID r' = i \<and> Status r' = IdempotencyStatusProcessing"
    by (intro bexI[of _ r] update_one_status) auto
qed

lemma do_call_locked:
  assumes wf: "idem_wf t" and l: "locked_by i t ps" and p: "ps p = Call c k" "\<not> is_exec c" "call_ok i c"
    and d: "do_call n c t = (t', rep)" and q: "within (granted c rep) q"
  shows "locked_by i t' (ps(p := q))"
proof (cases c)
  case (CallCreate rec)
  then show ?thesis using d p(3) q
    by (auto simp: do_call_def split: prod.splits intro!: create_locked[OF wf l])
next
  case (CallGet sc kh)
  then have "t' = t" "holder q = None" using d q by (auto simp: do_call_def within_def)
  then show ?thesis by (intro locked_by_release[OF l]) auto
next
  case (CallReclaim j st n' lk e)
  then obtain b where b: "TryReclaim n t j st n' lk e = (t', b)" "rep = ReplyTaken b"
    using d by (auto simp: do_call_def split: prod.splits)
  from CallReclaim p(3) have st: "j = i \<Longrightarrow> st = IdempotencyStatusFailedRetryable" by simp
  from CallReclaim b(2) q have "within (if b then Some j else None) q" by (cases b) auto
  with st b(1) show ?thesis by (rule reclaim_locked[OF wf l])
next
  case (CallExec j)
  then show ?thesis using p(2) by (simp add: is_exec_def)
next
  case (CallSucceeded j st body e)
  with d q p(1) have "holder q = None" "holder (ps p) = Some j" "t' = MarkSucceeded n t j st body e"
    by (auto simp: do_call_def within_def)
  then show ?thesis unfolding MarkSucceeded_def using mark_locked[OF l] by blast
next
  case (CallFailed j reason lk e)
  with d q p(1) have "holder q = None" "holder (ps p) = Some j" "t' = MarkFailedRetryable n t j reason lk e"
    by (auto simp: do_call_def within_def)
  then show ?thesis unfolding MarkFailedRetryable_def using mark_locked[OF l] by blast
qed

lemma locked_by_drop:
  "locked_by i t ps \<Longrightarrow> within (holder (ps p)) q \<Longrightarrow> locked_by i t (ps(p := q))"
  by (rule locked_by_release) (auto simp: within_def)

lemma locked_by_records:
  assumes "locked_by i t ps" "\<And>r. r \<in> set (records t) \<Longrightarrow> Status r = IdempotencyStatusProcessing \<Longrightarrow> ID r = i \<Longrightarrow>
      \<exists>r' \<in> set (records t'). ID r' = i \<and> Status r' = IdempotencyStatusProcessing"
  shows "locked_by i t' ps"
  unfolding locked_by_def
proof (intro conjI allI impI)
  fix p assume "holder (ps p) = Some i"
  from locked_byD(1)[OF assms(1) this] obtain r where "r \<in> set (records t)" "ID r = i" "Status r = IdempotencyStatusProcessing"
    by blast
  then show "\<exists>r \<in> set (records t'). ID r = i \<and> Status r = IdempotencyStatusProcessing" using assms(2)[of r] by simp
qed (rule locked_byD(2)[OF assms(1)])

lemma renew_locked: "locked_by i t ps \<Longrightarrow> locked_by i (fst (renew_tick cfg ttl n t j fp)) ps"
proof (rule locked_by_records)
  let ?P = "\<lambda>r. ID r = j \<and> Status r = IdempotencyStatusProcessing \<and> RequestFingerprint r = fp"
  let ?f = "\<lambda>r. if ?P r then r\<lparr>LockedUntil := Some (n + renew_lease cfg), ExpiresAt := n + ttl, UpdatedAt := n\<rparr> else r"
  fix r assume "r \<in> set (records t)" "Status r = IdempotencyStatusProcessing" "ID r = i"
  then have "?f r \<in> set (records (fst (renew_tick cfg ttl n t j fp)))"
    "ID (?f r) = i \<and> Status (?f r) = IdempotencyStatusProcessing"
    unfolding renew_tick_def ExtendProcessingLock_def update_where_set by auto
  then show "\<exists>r' \<in> set (records (fst (renew_tick cfg ttl n t j fp))). ID r' = i \<and> Status r' = IdempotencyStatusProcessing"
    by blast
qed

lemma DeleteExpired_fresh:
  assumes "idem_wf t" "r \<in> set (records t)" "n < ExpiresAt r"
  shows "r \<in> set (records (fst (DeleteExpired t n limit)))"
proof -
  define vs where "vs = take (nat (if limit \<le> 0 then 500 else limit))
    (sort_by (\<lambda>a b. ExpiresAt a < ExpiresAt b) (filter (\<lambda>r. ExpiresAt r \<le> n) (records t)))"
  have vs: "v \<in> set (records t) \<and> ExpiresAt v \<le> n" if "v \<in> set vs" for v
    using in_set_takeD[OF that[unfolded vs_def]] by simp
  have "ID r \<notin> ID ` set vs"
  proof
    assume "ID r \<in> ID ` set vs"
    then obtain v where v: "v \<in> set vs" "ID r = ID v" by (rule imageE) simp
    from record_by_id[OF assms(1,2) conjunct1[OF vs[OF v(1)]] v(2)] vs[OF v(1)] assms(3) show False by simp
  qed
  then have "r \<in> set (filter (\<lambda>r. ID r \<notin> set (map ID vs)) (records t))" using assms(2) by simp
  then show ?thesis unfolding vs_def DeleteExpired_def Let_def by (simp only: fst_conv) simp
qed

lemma disciplined_reply:
  assumes "disciplined i n (Call c k)" "reply_ok i n c r"
  shows "disciplined i n (k r)" "within (granted c r) (k r)" "call_ok i c"
  using assms by auto

lemma reply_ok_err [simp]: "reply_ok i n c ReplyErr" "granted c ReplyErr = None"
  by (cases c; simp)+

lemma within_mono: "within None q \<Longrightarrow> within g q"
  by (auto simp: within_def)

lemma idem_inv_set_proc:
  assumes "idem_inv i s" "idem_wf t'" "locked_by i t' ((procs s)(p := q))" "n \<le> clk s" "disciplined i n q"
  shows "idem_inv i (s\<lparr>tbl := t', procs := (procs s)(p := q)\<rparr>)"
  using assms by (auto simp: idem_inv_def)

lemma idem_step_inv:
  assumes "idem_step L cfg s s'" "idem_inv i s" "fresh i s"
  shows "idem_inv i s'"
proof -
  have wf: "idem_wf (tbl s)" and l: "locked_by i (tbl s) (procs s)"
    and d: "\<And>p. \<exists>n \<le> clk s. disciplined i n (procs s p)"
    using assms(2) by (auto simp: idem_inv_def)
  have unexp: "\<forall>r \<in> set (records (tbl s)). ID r = i \<longrightarrow> n < ExpiresAt r" if "n \<le> clk s" for n
    using assms(3) that by (auto simp: fresh_def)
  have self: "s\<lparr>procs := ps\<rparr> = s\<lparr>tbl := tbl s, procs := ps\<rparr>" for ps by simp
  from assms(1) show ?thesis
  proof cases
    case (start p r opts)
    show ?thesis unfolding start(1) self
      by (rule idem_inv_set_proc[OF assms(2) wf locked_by_drop[OF l] order_refl]) simp_all
  next
    case (call p c k t' rep)
    obtain n where n: "n \<le> clk s" "disciplined i n (Call c k)" using d[of p] call(2) by metis
    note r = disciplined_reply[OF n(2) do_call_reply_ok[OF call(4) unexp[OF n(1)]]]
    show ?thesis unfolding call(1)
      by (rule idem_inv_set_proc[OF assms(2) do_call_wf[OF wf call(4)]
            do_call_locked[where n = "clk s" and rep = rep, OF wf l call(2,3) r(3) call(4) r(2)] n(1) r(1)])
  next
    case (call_fails p c k)
    obtain n where n: "n \<le> clk s" "disciplined i n (Call c k)" using d[of p] call_fails(2) by metis
    note r = disciplined_reply[OF n(2), of ReplyErr, simplified]
    show ?thesis unfolding call_fails(1) self
      by (rule idem_inv_set_proc[OF assms(2) wf locked_by_drop[OF l within_mono[OF r(2)]] n(1) r(1)])
  next
    case (reply_lost p c k t' rep)
    obtain n where n: "n \<le> clk s" "disciplined i n (Call c k)" using d[of p] reply_lost(2) by metis
    note r = disciplined_reply[OF n(2), of ReplyErr, simplified]
    show ?thesis unfolding reply_lost(1)
      by (rule idem_inv_set_proc[OF assms(2) do_call_wf[OF wf reply_lost(4)]
            do_call_locked[where n = "clk s" and rep = rep, OF wf l reply_lost(2,3) r(3) reply_lost(4) within_mono[OF r(2)]] n(1) r(1)])
  next
    case (exec p j k out)
    obtain n where n: "n \<le> clk s" "disciplined i n (Call (CallExec j) k)" using d[of p] exec(2) by metis
    have "reply_ok i n (CallExec j) (ReplyExec (clk s) out)" by simp
    note r = disciplined_reply[OF n(2) this, simplified]
    have "within (holder (procs s p)) (k (ReplyExec (clk s) out))" using r(2) exec(2) by simp
    then show ?thesis unfolding exec(1) self
      by (rule idem_inv_set_proc[OF assms(2) wf locked_by_drop[OF l] n(1) r(1)])
  next
    case (renew p j k ttl fp)
    have "idem_wf (fst (renew_tick cfg ttl (clk s) (tbl s) j fp))" unfolding renew_tick_def by (rule statements_wf(2)[OF wf])
    with renew_locked[OF l] d show ?thesis unfolding renew(1) by (simp add: idem_inv_def)
  next
    case (crash p)
    show ?thesis unfolding crash self
      by (rule idem_inv_set_proc[OF assms(2) wf locked_by_drop[OF l] order_refl]) simp_all
  next
    case (clean limit)
    have "locked_by i (fst (DeleteExpired (tbl s) (clk s) limit)) (procs s)"
      by (rule locked_by_records[OF l]) (use DeleteExpired_fresh[OF wf] unexp[OF order_refl] in blast)
    with DeleteExpired_wf[OF wf] d show ?thesis unfolding clean by (simp add: idem_inv_def)
  next
    case (tick n)
    then show ?thesis using wf l d by (simp add: idem_inv_def) (meson order_trans)
  qed
qed

lemma idem_reach_inv: "idem_reach L cfg i s \<Longrightarrow> idem_inv i s \<and> fresh i s"
proof (induction rule: idem_reach.induct)
  case (init n)
  then show ?case by (auto simp: idem_inv_def idem_wf_def locked_by_def fresh_def)
next
  case (step s s')
  then show ?case using idem_step_inv by blast
qed

section \<open>Properties\<close>

definition executing :: "'v idem_sys \<Rightarrow> nat \<Rightarrow> IdempotencyRecord \<Rightarrow> bool" where
  "executing s p r \<longleftrightarrow> r \<in> set (records (tbl s)) \<and> (\<exists>k. procs s p = Call (CallExec (Some (ID r))) k)"

text \<open>
  C10. Two requests with the same scope and idempotency key never run the executor at the same time:
  in every state the system can reach before the record of the key expires, whatever the interleaving of the
  requests, crashes, failing statements and lost replies, the request that executes under the key is the
  only one.
\<close>

theorem single_executor_per_key:
  assumes "idem_reach L cfg (ID r) s" and "executing s p r" and "executing s q r'" and "key_of r = key_of r'"
  shows "p = q"
proof -
  have inv: "idem_inv (ID r) s" using idem_reach_inv[OF assms(1)] by blast
  then have "r = r'" using assms(2-4) record_by_key[of "tbl s" r r'] by (auto simp: idem_inv_def executing_def)
  then have "holder (procs s p) = Some (ID r)" "holder (procs s q) = Some (ID r)"
    using assms(2,3) by (auto simp: executing_def)
  then show ?thesis using inv locked_byD(2)[of "ID r" "tbl s" "procs s"] by (auto simp: idem_inv_def)
qed

text \<open>
  C12. A stored success is final as long as its record has never passed its expiry: in every state reached before, a
  step of any request, of a lease renewal, of a crash, of the cleaner or of the clock leaves a succeeded record exactly
  as it is, and no request is executing under its key. A record that did expire once and was executed again has no such
  guarantee, even while its new expiry is ahead: see \<open>late_reclaim_reopens_success\<close>.
\<close>

theorem succeeded_record_is_final:
  assumes "idem_reach L cfg (ID r) s" and "r \<in> set (records (tbl s))" and "Status r = IdempotencyStatusSucceeded"
    and "idem_step L cfg s s'"
  shows "r \<in> set (records (tbl s')) \<and> (\<forall>p. \<not> executing s' p r)"
proof -
  let ?i = "ID r"
  have inv: "idem_inv ?i s" "fresh ?i s" using idem_reach_inv[OF assms(1)] by auto
  have wf: "idem_wf (tbl s)" and l: "locked_by ?i (tbl s) (procs s)" using inv(1) by (auto simp: idem_inv_def)
  have free: "holder (procs s p) \<noteq> Some ?i" for p
  proof
    assume "holder (procs s p) = Some ?i"
    from locked_byD(1)[OF l this] record_by_id[OF wf _ assms(2)] assms(3) show False by fastforce
  qed
  have c: "r \<in> set (records t')"
    if at: "procs s p = Call c k" "\<not> is_exec c" "do_call (clk s) c (tbl s) = (t', rep :: 'a idem_reply)" for p c k t' rep
  proof -
    obtain n where n: "n \<le> clk s" "disciplined ?i n (Call c k)"
      using inv(1) at(1) unfolding idem_inv_def by metis
    have "call_ok ?i c" using n(2) by simp
    moreover have "holder (Call c k) \<noteq> Some ?i" using free[of p] at(1) by simp
    ultimately show ?thesis
      using at(2,3) assms(2,3)
      by (cases c)
        (auto simp: do_call_def is_exec_def CreateProcessing_def Let_def TryReclaim_def MarkSucceeded_def
          MarkFailedRetryable_def update_where_def image_iff split: prod.splits if_splits)
  qed
  have mem: "r \<in> set (records (tbl s'))"
    using assms(4)
  proof cases
    case (renew p i k ttl fp)
    then show ?thesis using assms(2,3) unfolding renew(1)
      by (simp add: renew_tick_def ExtendProcessingLock_def) (rule update_one_status, auto)
  next
    case (clean limit)
    then show ?thesis using assms(2) inv(2) DeleteExpired_fresh[OF wf assms(2), of "clk s" limit] by (simp add: fresh_def)
  qed (use c assms(2) in auto)
  have inv': "idem_inv ?i s'" by (rule idem_step_inv[OF assms(4) inv])
  have "\<not> executing s' p r" for p
  proof
    assume "executing s' p r"
    then have "holder (procs s' p) = Some ?i" by (auto simp: executing_def)
    then obtain r' where "r' \<in> set (records (tbl s'))" "ID r' = ?i" "Status r' = IdempotencyStatusProcessing"
      using inv' locked_byD(1)[of ?i "tbl s'" "procs s'" p] unfolding idem_inv_def by blast
    with record_by_id[of "tbl s'" r' r] mem inv' assms(3) show False by (auto simp: idem_inv_def)
  qed
  with mem show ?thesis by blast
qed

section \<open>A run of the system\<close>

definition demo_lib :: "string lib" where
  "demo_lib = \<lparr>Marshal = Some, Unmarshal = Some, EmptyObject = ''{}'', RedactText = id, Sha256Hex = id\<rparr>"

definition demo_opts :: "string IdempotencyExecuteOptions" where
  "demo_opts = \<lparr>opt_Scope = ''s'', ActorScope = ''a'', Method = ''PUT'', opt_Route = ''/r'',
     IdempotencyKey = ''k'', Payload = ''{}'', TTL = 100, RequireKey = True, ExecutionTimeout = 0\<rparr>"

definition demo_fp :: string where
  "demo_fp = ''PUT'' @ [CHR 0x0A] @ ''/r'' @ [CHR 0x0A] @ ''a'' @ [CHR 0x0A] @ ''{}''"

abbreviation demo_cfg :: IdempotencyConfig where
  "demo_cfg \<equiv> DefaultIdempotencyConfig"

lemma demo_Execute:
  "Execute demo_lib demo_cfg True True n demo_opts = claim_phase demo_lib demo_cfg demo_opts n ''k'' demo_fp"
proof -
  have "TrimSpace ''k'' = ''k''" by (simp add: TrimSpace_visible visible_def)
  then show ?thesis
    by (simp add: Execute_def NormalizeIdempotencyKey_def demo_opts_def visible_def demo_fp_def
        BuildIdempotencyFingerprint_def demo_lib_def ToUpper_def upper_char_def)
qed

definition demo_row :: "string \<Rightarrow> int option \<Rightarrow> string option \<Rightarrow> gotime option \<Rightarrow> IdempotencyRecord" where
  "demo_row st rs body lk = \<lparr>ID = 1, Scope = ''s'', IdempotencyKeyHash = ''k'', RequestFingerprint = demo_fp,
     Status = st, ResponseStatus = rs, ResponseBody = body, ErrorReason = None, LockedUntil = lk,
     ExpiresAt = 100, CreatedAt = 0, UpdatedAt = 0\<rparr>"

definition demo_sys :: "IdempotencyRecord list \<Rightarrow> int \<Rightarrow> string prog \<Rightarrow> string idem_sys" where
  "demo_sys rs i q = \<lparr>tbl = \<lparr>records = rs, next_record_id = i\<rparr>, clk = 0, procs = (\<lambda>_. unavail)(0 := q)\<rparr>"

abbreviation demo_claimed :: IdempotencyRecord where
  "demo_claimed \<equiv> demo_row IdempotencyStatusProcessing None None (Some (30 * Second))"

abbreviation demo_stored :: IdempotencyRecord where
  "demo_stored \<equiv> demo_row IdempotencyStatusSucceeded (Some 200) (Some ''x'') None"

lemma demo_sys_set: "demo_sys rs i q\<lparr>procs := (procs (demo_sys rs i q))(0 := q')\<rparr> = demo_sys rs i q'"
  "demo_sys rs i q\<lparr>tbl := \<lparr>records = rs', next_record_id = i'\<rparr>, procs := (procs (demo_sys rs i q))(0 := q')\<rparr> =
   demo_sys rs' i' q'"
  by (simp_all add: demo_sys_def)

lemma demo_reach_claimed:
  "idem_reach demo_lib demo_cfg 1 (demo_sys [demo_claimed] 2 (exec_phase demo_lib demo_cfg demo_opts 1 100 100))"
proof -
  have i: "idem_reach demo_lib demo_cfg 1 (demo_sys [] 1 unavail)"
    using idem_reach.init[of demo_lib demo_cfg 1 0] by (simp add: demo_sys_def fun_upd_idem)
  let ?c = "claim_phase demo_lib demo_cfg demo_opts 0 ''k'' demo_fp"
  have "idem_step demo_lib demo_cfg (demo_sys [] 1 unavail) (demo_sys [] 1 ?c)"
    using idem_step.start[where s = "demo_sys [] 1 unavail" and p = 0 and L = demo_lib and cfg = demo_cfg and opts = demo_opts]
    unfolding demo_sys_set demo_Execute by (simp add: demo_sys_def demo_Execute)
  from idem_reach.step[OF i this] have s1: "idem_reach demo_lib demo_cfg 1 (demo_sys [] 1 ?c)"
    by (simp add: fresh_def demo_sys_def)
  let ?rec = "claim_record ''s'' ''k'' demo_fp (30 * Second) 100"
  obtain k where k: "?c = Call (CallCreate ?rec) k" "k (ReplyCreated (Some 1)) = exec_phase demo_lib demo_cfg demo_opts 1 100 100"
    by (simp add: claim_phase_def Let_def demo_opts_def HashIdempotencyKey_def demo_lib_def DefaultIdempotencyConfig_def)
  have "do_call 0 (CallCreate ?rec) \<lparr>records = [], next_record_id = 1\<rparr> =
      (\<lparr>records = [demo_claimed], next_record_id = 2\<rparr>, ReplyCreated (Some 1) :: string idem_reply)"
    by (simp add: do_call_def CreateProcessing_def claim_record_def demo_row_def)
  then have "idem_step demo_lib demo_cfg (demo_sys [] 1 ?c) (demo_sys [demo_claimed] 2 (k (ReplyCreated (Some 1))))"
    using idem_step.call[of "demo_sys [] 1 ?c" 0 "CallCreate ?rec" k "\<lparr>records = [demo_claimed], next_record_id = 2\<rparr>"
        "ReplyCreated (Some 1)" demo_lib demo_cfg, unfolded demo_sys_set] k(1)
    by (simp add: demo_sys_def is_exec_def)
  from idem_reach.step[OF s1 this] show ?thesis unfolding k(2) by (simp add: fresh_def demo_sys_def demo_row_def)
qed

lemma demo_reach_stored:
  "\<exists>q. idem_reach demo_lib demo_cfg 1 (demo_sys [demo_stored] 2 q)"
proof -
  let ?e = "exec_phase demo_lib demo_cfg demo_opts 1 100 100"
  let ?f = "finish_phase demo_lib demo_cfg demo_opts 1 100 100 0 (Inr ''x'')"
  obtain k where k: "?e = Call (CallExec (Some 1)) k" "k (ReplyExec 0 (Inr ''x'')) = ?f"
    by (simp add: exec_phase_def)
  have "idem_step demo_lib demo_cfg (demo_sys [demo_claimed] 2 ?e) (demo_sys [demo_claimed] 2 ?f)"
    using idem_step.exec[of "demo_sys [demo_claimed] 2 ?e" 0 "Some 1" k demo_lib demo_cfg "Inr ''x''", unfolded demo_sys_set] k
    by (simp add: demo_sys_def)
  from idem_reach.step[OF demo_reach_claimed this]
  have s1: "idem_reach demo_lib demo_cfg 1 (demo_sys [demo_claimed] 2 ?f)" by (simp add: fresh_def demo_sys_def demo_row_def)
  obtain k' where k': "?f = Call (CallSucceeded 1 200 ''x'' 100) k'"
    by (simp add: finish_phase_def Let_def demo_opts_def marshalStoredResponse_def demo_lib_def DefaultIdempotencyConfig_def)
  have "do_call 0 (CallSucceeded 1 200 ''x'' 100) \<lparr>records = [demo_claimed], next_record_id = 2\<rparr> =
      (\<lparr>records = [demo_stored], next_record_id = 2\<rparr>, ReplyDone :: string idem_reply)"
    by (simp add: do_call_def MarkSucceeded_def update_where_def demo_row_def)
  then have "idem_step demo_lib demo_cfg (demo_sys [demo_claimed] 2 ?f) (demo_sys [demo_stored] 2 (k' ReplyDone))"
    using idem_step.call[of "demo_sys [demo_claimed] 2 ?f" 0 "CallSucceeded 1 200 ''x'' 100" k'
        "\<lparr>records = [demo_stored], next_record_id = 2\<rparr>" ReplyDone demo_lib demo_cfg, unfolded demo_sys_set] k'
    by (simp add: demo_sys_def is_exec_def)
  from idem_reach.step[OF s1 this] show ?thesis by (auto simp: fresh_def demo_sys_def demo_row_def)
qed

theorem single_executor_per_key_witness:
  "\<exists>s. idem_reach demo_lib demo_cfg (ID demo_claimed) s \<and> executing s 0 demo_claimed \<and> \<not> executing s 1 demo_claimed"
proof -
  let ?s = "demo_sys [demo_claimed] 2 (exec_phase demo_lib demo_cfg demo_opts 1 100 100)"
  have e: "executing ?s 0 demo_claimed" by (simp add: executing_def demo_sys_def exec_phase_def demo_row_def)
  have i: "ID demo_claimed = 1" by (simp add: demo_row_def)
  have reach: "idem_reach demo_lib demo_cfg (ID demo_claimed) ?s" unfolding i by (rule demo_reach_claimed)
  have "\<not> executing ?s 1 demo_claimed"
    using single_executor_per_key[OF reach e, of 1 demo_claimed] by auto
  with e reach show ?thesis by blast
qed

theorem succeeded_record_is_final_witness:
  "\<exists>s s'. idem_reach demo_lib demo_cfg (ID demo_stored) s \<and> idem_step demo_lib demo_cfg s s' \<and> clk s' = 50 \<and>
     demo_stored \<in> set (records (tbl s')) \<and> (\<forall>p. \<not> executing s' p demo_stored)"
proof -
  have i: "ID demo_stored = 1" by (simp add: demo_row_def)
  obtain q where q: "idem_reach demo_lib demo_cfg (ID demo_stored) (demo_sys [demo_stored] 2 q)"
    using demo_reach_stored unfolding i by blast
  let ?s' = "demo_sys [demo_stored] 2 q\<lparr>clk := 50\<rparr>"
  have st: "idem_step demo_lib demo_cfg (demo_sys [demo_stored] 2 q) ?s'" by (rule idem_step.tick) (simp add: demo_sys_def)
  have "demo_stored \<in> set (records (tbl (demo_sys [demo_stored] 2 q)))" "Status demo_stored = IdempotencyStatusSucceeded"
    by (simp_all add: demo_sys_def demo_row_def)
  from succeeded_record_is_final[OF q this st] q st show ?thesis
    by (intro exI[of _ "demo_sys [demo_stored] 2 q"] exI[of _ ?s']) (simp add: demo_sys_def)
qed

section \<open>After an expiry\<close>

text \<open>
  \<open>TryReclaim\<close> asks for the status and the lease the request read, not for the expiry. Requests 0 and 1 both read the
  stored success of the run above after it expired; request 0 reclaims the record, executes and stores a new success,
  valid for another 100; the reclaim of request 1 then finds a succeeded record without a lease, takes it away and
  request 1 executes too, at the very same instant.
\<close>

definition duo :: "IdempotencyRecord list \<Rightarrow> int \<Rightarrow> gotime \<Rightarrow> string prog \<Rightarrow> string prog \<Rightarrow> string idem_sys" where
  "duo rs i n q0 q1 = \<lparr>tbl = \<lparr>records = rs, next_record_id = i\<rparr>, clk = n, procs = (\<lambda>_. unavail)(0 := q0, 1 := q1)\<rparr>"

abbreviation duo_steps :: "string idem_sys \<Rightarrow> string idem_sys \<Rightarrow> bool" where
  "duo_steps \<equiv> (idem_step demo_lib demo_cfg)\<^sup>*\<^sup>*"

lemma duo_set:
  "duo rs i n q0 q1\<lparr>procs := (procs (duo rs i n q0 q1))(0 := q)\<rparr> = duo rs i n q q1"
  "duo rs i n q0 q1\<lparr>procs := (procs (duo rs i n q0 q1))(Suc 0 := q)\<rparr> = duo rs i n q0 q"
  "duo rs i n q0 q1\<lparr>tbl := \<lparr>records = rs', next_record_id = i'\<rparr>, procs := (procs (duo rs i n q0 q1))(0 := q)\<rparr> = duo rs' i' n q q1"
  "duo rs i n q0 q1\<lparr>tbl := \<lparr>records = rs', next_record_id = i'\<rparr>, procs := (procs (duo rs i n q0 q1))(Suc 0 := q)\<rparr> = duo rs' i' n q0 q"
  by (auto simp: duo_def fun_upd_twist)

lemma duo_proc [simp]: "procs (duo rs i n q0 q1) 0 = q0" "procs (duo rs i n q0 q1) (Suc 0) = q1"
  "clk (duo rs i n q0 q1) = n" "tbl (duo rs i n q0 q1) = \<lparr>records = rs, next_record_id = i\<rparr>"
  by (simp_all add: duo_def)

lemma duo_call0:
  assumes "\<not> is_exec c" "do_call n c \<lparr>records = rs, next_record_id = i\<rparr> = (\<lparr>records = rs', next_record_id = i'\<rparr>, rep)"
  shows "idem_step demo_lib demo_cfg (duo rs i n (Call c k) q1) (duo rs' i' n (k rep) q1)"
  using idem_step.call[of "duo rs i n (Call c k) q1" 0 c k _ rep demo_lib demo_cfg] assms by (simp add: duo_set)

lemma duo_call1:
  assumes "\<not> is_exec c" "do_call n c \<lparr>records = rs, next_record_id = i\<rparr> = (\<lparr>records = rs', next_record_id = i'\<rparr>, rep)"
  shows "idem_step demo_lib demo_cfg (duo rs i n q0 (Call c k)) (duo rs' i' n q0 (k rep))"
  using idem_step.call[of "duo rs i n q0 (Call c k)" 1 c k _ rep demo_lib demo_cfg] assms by (simp add: duo_set)

abbreviation late_conflict :: "string prog" where
  "late_conflict \<equiv> conflict_phase demo_lib demo_cfg demo_opts 200 100 (200 + 30 * Second) 300 ''k'' demo_fp"

abbreviation late_reclaim :: idem_call where
  "late_reclaim \<equiv> CallReclaim 1 IdempotencyStatusSucceeded 200 (200 + 30 * Second) 300"

lemma demo_fields: "opt_Scope demo_opts = ''s''" "TTL demo_opts = 100" "ProcessingTimeout demo_cfg = 30 * Second"
  "HashIdempotencyKey demo_lib ''k'' = ''k''"
  by (simp_all add: demo_opts_def DefaultIdempotencyConfig_def HashIdempotencyKey_def demo_lib_def)

lemma late_claim:
  "\<exists>k. Execute demo_lib demo_cfg True True 200 demo_opts =
      Call (CallCreate (claim_record ''s'' ''k'' demo_fp (200 + 30 * Second) 300)) k \<and>
    k (ReplyCreated None) = late_conflict"
  by (simp add: demo_Execute claim_phase_def Let_def demo_fields)

lemma late_create: "do_call 200 (CallCreate (claim_record ''s'' ''k'' demo_fp l e)) \<lparr>records = [demo_stored], next_record_id = i\<rparr> =
    (\<lparr>records = [demo_stored], next_record_id = i + 1\<rparr>, ReplyCreated None :: string idem_reply)"
  by (simp add: do_call_def CreateProcessing_def Let_def claim_record_def has_key_def demo_row_def)

lemma late_read:
  "\<exists>k k'. late_conflict = Call (CallGet ''s'' ''k'') k \<and> k (ReplyRecord (Some demo_stored)) = Call late_reclaim k' \<and>
    k' (ReplyTaken True) = exec_phase demo_lib demo_cfg demo_opts 1 100 300"
  by (simp add: conflict_phase_def demo_fields) (simp add: demo_row_def)

lemma late_get: "do_call 200 (CallGet ''s'' ''k'') \<lparr>records = [demo_stored], next_record_id = i\<rparr> =
    (\<lparr>records = [demo_stored], next_record_id = i\<rparr>, ReplyRecord (Some demo_stored) :: string idem_reply)"
  by (simp add: do_call_def GetByScopeAndKeyHash_def has_key_def demo_row_def)

text \<open>The row of an execution under way since 200, and of the success it stores.\<close>

definition late_row :: "string \<Rightarrow> gotime option \<Rightarrow> IdempotencyRecord" where
  "late_row st lk = (demo_row st (Some 200) (Some ''x'') lk)\<lparr>ExpiresAt := 300, UpdatedAt := 200\<rparr>"

abbreviation late_stored :: IdempotencyRecord where
  "late_stored \<equiv> late_row IdempotencyStatusSucceeded None"

abbreviation late_claimed :: IdempotencyRecord where
  "late_claimed \<equiv> late_row IdempotencyStatusProcessing (Some (200 + 30 * Second))"

lemma late_take:
  "do_call 200 late_reclaim \<lparr>records = [demo_stored], next_record_id = i\<rparr> =
    (\<lparr>records = [late_claimed], next_record_id = i\<rparr>, ReplyTaken True :: string idem_reply)"
  "do_call 200 late_reclaim \<lparr>records = [late_stored], next_record_id = i\<rparr> =
    (\<lparr>records = [late_claimed], next_record_id = i\<rparr>, ReplyTaken True :: string idem_reply)"
  "do_call 200 (CallSucceeded 1 200 ''x'' 300) \<lparr>records = [late_claimed], next_record_id = i\<rparr> =
    (\<lparr>records = [late_stored], next_record_id = i\<rparr>, ReplyDone :: string idem_reply)"
  by (simp_all add: do_call_def TryReclaim_def MarkSucceeded_def update_where_def demo_row_def late_row_def)

lemma late_finish:
  "\<exists>k k'. exec_phase demo_lib demo_cfg demo_opts 1 100 300 = Call (CallExec (Some 1)) k \<and>
    k (ReplyExec 200 (Inr ''x'')) = Call (CallSucceeded 1 200 ''x'' 300) k'"
  by (simp add: exec_phase_def finish_phase_def Let_def demo_opts_def marshalStoredResponse_def demo_lib_def DefaultIdempotencyConfig_def)

lemma duo_exec0: "idem_step demo_lib demo_cfg (duo rs i n (Call (CallExec j) k) q1) (duo rs i n (k (ReplyExec n out)) q1)"
  using idem_step.exec[of "duo rs i n (Call (CallExec j) k) q1" 0 j k demo_lib demo_cfg out] by (simp add: duo_set)

lemma duo_start:
  "idem_step demo_lib demo_cfg (duo rs i 200 unavail q1) (duo rs i 200 (Execute demo_lib demo_cfg True True 200 demo_opts) q1)"
  "idem_step demo_lib demo_cfg (duo rs i 200 q0 unavail) (duo rs i 200 q0 (Execute demo_lib demo_cfg True True 200 demo_opts))"
  using idem_step.start[of "duo rs i 200 unavail q1" 0 _ demo_lib demo_cfg demo_opts]
    idem_step.start[of "duo rs i 200 q0 unavail" 1 _ demo_lib demo_cfg demo_opts] by (simp_all add: duo_set)

text \<open>Both requests have read the expired success and are about to reclaim it.\<close>

lemma duo_both_read:
  assumes "Execute demo_lib demo_cfg True True 200 demo_opts =
      Call (CallCreate (claim_record ''s'' ''k'' demo_fp (200 + 30 * Second) 300)) c" "c (ReplyCreated None) = late_conflict"
    and "late_conflict = Call (CallGet ''s'' ''k'') g" "g (ReplyRecord (Some demo_stored)) = Call late_reclaim k"
  shows "duo_steps (demo_sys [demo_stored] 2 q) (duo [demo_stored] 4 200 (Call late_reclaim k) (Call late_reclaim k))"
proof -
  have d: "demo_sys [demo_stored] 2 unavail\<lparr>clk := 200\<rparr> = duo [demo_stored] 2 200 unavail unavail"
    by (auto simp: demo_sys_def duo_def)
  let ?c = "Call (CallCreate (claim_record ''s'' ''k'' demo_fp (200 + 30 * Second) 300)) c"
  let ?g = "Call (CallGet ''s'' ''k'') g"
  let ?r = "Call late_reclaim k"
  let ?d = "\<lambda>n. duo [demo_stored] n 200"
  note start = duo_start[of "[demo_stored]", unfolded assms(1)]
  have create: "idem_step demo_lib demo_cfg (?d 2 ?c q1) (?d 3 ?g q1)" "idem_step demo_lib demo_cfg (?d 3 q1 ?c) (?d 4 q1 ?g)" for q1
    using duo_call0[OF _ late_create, of _ _ 2 c q1] duo_call1[OF _ late_create, of _ _ 3 q1 c] unfolding assms(2,3)
    by (simp_all add: is_exec_def)
  have get: "idem_step demo_lib demo_cfg (?d 4 ?g q1) (?d 4 ?r q1)" "idem_step demo_lib demo_cfg (?d 4 q1 ?g) (?d 4 q1 ?r)" for q1
    using duo_call0[OF _ late_get, of 4 g q1] duo_call1[OF _ late_get, of 4 q1 g] unfolding assms(4)
    by (simp_all add: is_exec_def)
  have "idem_step demo_lib demo_cfg (demo_sys [demo_stored] 2 q) (demo_sys [demo_stored] 2 unavail)"
    using idem_step.crash[of demo_lib demo_cfg "demo_sys [demo_stored] 2 q" 0] unfolding demo_sys_set .
  then have "duo_steps (demo_sys [demo_stored] 2 q) (demo_sys [demo_stored] 2 unavail)" by (rule r_into_rtranclp)
  also have "idem_step demo_lib demo_cfg (demo_sys [demo_stored] 2 unavail) (?d 2 unavail unavail)"
    unfolding d[symmetric] by (rule idem_step.tick) (simp add: demo_sys_def)
  also have "idem_step demo_lib demo_cfg (?d 2 unavail unavail) (?d 2 ?c unavail)" by (rule start(1))
  also have "idem_step demo_lib demo_cfg (?d 2 ?c unavail) (?d 2 ?c ?c)" by (rule start(2))
  also note create(1) also note create(2) also note get(1) also note get(2)
  finally show ?thesis .
qed

text \<open>
  A stored success whose expiry is ahead is reopened and executed again: this step is possible in a state the system
  can run into.
\<close>

theorem late_reclaim_reopens_success:
  "\<exists>s0 s s' r. idem_reach demo_lib demo_cfg 1 s0 \<and> duo_steps s0 s \<and> idem_step demo_lib demo_cfg s s' \<and>
     clk s = 200 \<and> clk s' = 200 \<and> r \<in> set (records (tbl s)) \<and> Status r = IdempotencyStatusSucceeded \<and> ExpiresAt r = 300 \<and>
     r \<notin> set (records (tbl s')) \<and> executing s' 1 late_claimed"
proof -
  obtain q where q: "idem_reach demo_lib demo_cfg 1 (demo_sys [demo_stored] 2 q)" using demo_reach_stored by blast
  obtain c where c: "Execute demo_lib demo_cfg True True 200 demo_opts =
      Call (CallCreate (claim_record ''s'' ''k'' demo_fp (200 + 30 * Second) 300)) c" "c (ReplyCreated None) = late_conflict"
    using late_claim by blast
  obtain g k where g: "late_conflict = Call (CallGet ''s'' ''k'') g" "g (ReplyRecord (Some demo_stored)) = Call late_reclaim k"
    and k: "k (ReplyTaken True) = exec_phase demo_lib demo_cfg demo_opts 1 100 300" using late_read by blast
  obtain x f where x: "exec_phase demo_lib demo_cfg demo_opts 1 100 300 = Call (CallExec (Some 1)) x"
    "x (ReplyExec 200 (Inr ''x'')) = Call (CallSucceeded 1 200 ''x'' 300) f" using late_finish by blast
  let ?b = "Call late_reclaim k"
  have "duo_steps (demo_sys [demo_stored] 2 q) (duo [demo_stored] 4 200 ?b ?b)" by (rule duo_both_read[OF c g])
  also have "idem_step demo_lib demo_cfg (duo [demo_stored] 4 200 ?b ?b) (duo [late_claimed] 4 200 (Call (CallExec (Some 1)) x) ?b)"
    using duo_call0[OF _ late_take(1), of 4 k] unfolding k x(1) by (simp add: is_exec_def)
  also have "idem_step demo_lib demo_cfg (duo [late_claimed] 4 200 (Call (CallExec (Some 1)) x) ?b)
      (duo [late_claimed] 4 200 (Call (CallSucceeded 1 200 ''x'' 300) f) ?b)"
    using duo_exec0[of _ _ 200 _ x _ "Inr ''x''"] unfolding x(2) .
  also have "idem_step demo_lib demo_cfg (duo [late_claimed] 4 200 (Call (CallSucceeded 1 200 ''x'' 300) f) ?b)
      (duo [late_stored] 4 200 (f ReplyDone) ?b)"
    using duo_call0[OF _ late_take(3)] by (simp add: is_exec_def)
  finally have s: "duo_steps (demo_sys [demo_stored] 2 q) (duo [late_stored] 4 200 (f ReplyDone) ?b)" .
  let ?s' = "duo [late_claimed] 4 200 (f ReplyDone) (Call (CallExec (Some 1)) x)"
  have "idem_step demo_lib demo_cfg (duo [late_stored] 4 200 (f ReplyDone) ?b) ?s'"
    using duo_call1[OF _ late_take(2), of 4 _ k] unfolding k x(1) by (simp add: is_exec_def)
  moreover have "executing ?s' 1 late_claimed" by (simp add: executing_def late_row_def demo_row_def)
  moreover have "late_stored \<noteq> late_claimed" "Status late_stored = IdempotencyStatusSucceeded" "ExpiresAt late_stored = 300"
    by (simp_all add: late_row_def demo_row_def)
  ultimately show ?thesis using q s by (metis duo_proc(3,4) idem_table.select_convs(1) list.set_intros(1) set_ConsD empty_iff empty_set)
qed

end
