(* ===== verification/IdempotencyReplay.thy ===== *)
theory IdempotencyReplay
  imports IdempotencyConcurrent
begin

text \<open>
  What one request after another observes: first execution, replay of the stored response, conflict on
  a different payload, backoff after a failure and retry after the backoff. The lemmas are proved once
  from the contract of \<open>IdempotencyRepository\<close> (\<open>idempotency_repository\<close>) and hold for the SQL
  repository by interpretation.
\<close>

section \<open>Requests\<close>

text \<open>A request with a usable key, a scope and a payload that can be serialised.\<close>

definition accepted :: "'v lib \<Rightarrow> 'v IdempotencyExecuteOptions \<Rightarrow> string \<Rightarrow> string \<Rightarrow> bool" where
  "accepted L opts key fp \<longleftrightarrow>
     NormalizeIdempotencyKey (IdempotencyKey opts) = Inr key \<and> key \<noteq> [] \<and> opt_Scope opts \<noteq> [] \<and>
     BuildIdempotencyFingerprint L (Method opts) (opt_Route opts) (ActorScope opts) (Payload opts) = Inr fp"

lemma Execute_accepted:
  "accepted L opts key fp \<Longrightarrow> Execute L cfg True True now opts = claim_phase L cfg opts now key fp"
  by (simp add: accepted_def Execute_def)

definition effective_ttl :: "IdempotencyConfig \<Rightarrow> 'v IdempotencyExecuteOptions \<Rightarrow> duration" where
  "effective_ttl cfg opts = (if TTL opts \<le> 0 then DefaultTTL cfg else TTL opts)"

text \<open>When the record of a request that started at \<open>now\<close> and finished at \<open>x\<close> expires.\<close>

definition expiry :: "IdempotencyConfig \<Rightarrow> 'v IdempotencyExecuteOptions \<Rightarrow> gotime \<Rightarrow> gotime \<Rightarrow> gotime" where
  "expiry cfg opts now x = (if ExecutionTimeout opts > 0 then x else now) + effective_ttl cfg opts"

section \<open>The contract of the repository\<close>

locale idempotency_repository =
  fixes wf :: "'s \<Rightarrow> bool"
    and get :: "'s \<Rightarrow> string \<Rightarrow> string \<Rightarrow> IdempotencyRecord option"
    and h :: "gotime \<Rightarrow> idem_call \<Rightarrow> 's \<Rightarrow> 's \<times> 'v idem_reply"
  assumes h_get: "h n (CallGet s k) t = (t, ReplyRecord (get t s k))"
    and h_create_new: "wf t \<Longrightarrow> get t (Scope rec) (IdempotencyKeyHash rec) = None \<Longrightarrow>
      \<exists>t' r. h n (CallCreate rec) t = (t', ReplyCreated (Some (ID r))) \<and> wf t' \<and> ID r \<noteq> 0 \<and>
        get t' (Scope rec) (IdempotencyKeyHash rec) = Some r \<and> Status r = Status rec \<and>
        RequestFingerprint r = RequestFingerprint rec \<and> LockedUntil r = LockedUntil rec \<and> ExpiresAt r = ExpiresAt rec"
    and h_create_conflict: "wf t \<Longrightarrow> get t (Scope rec) (IdempotencyKeyHash rec) = Some r \<Longrightarrow>
      \<exists>t'. h n (CallCreate rec) t = (t', ReplyCreated None) \<and> wf t' \<and> get t' = get t"
    and h_succeeded: "wf t \<Longrightarrow> get t s k = Some r \<Longrightarrow>
      \<exists>t'. h n (CallSucceeded (ID r) st b e) t = (t', ReplyDone) \<and> wf t' \<and>
        get t' s k = Some (r\<lparr>Status := IdempotencyStatusSucceeded, ResponseStatus := Some st, ResponseBody := Some b,
          ErrorReason := None, LockedUntil := None, ExpiresAt := e, UpdatedAt := n\<rparr>)"
    and h_failed: "wf t \<Longrightarrow> get t s k = Some r \<Longrightarrow>
      \<exists>t'. h n (CallFailed (ID r) reason l e) t = (t', ReplyDone) \<and> wf t' \<and>
        get t' s k = Some (r\<lparr>Status := IdempotencyStatusFailedRetryable, ErrorReason := Some reason,
          LockedUntil := Some l, ExpiresAt := e, UpdatedAt := n\<rparr>)"
    and h_reclaim: "wf t \<Longrightarrow> get t s k = Some r \<Longrightarrow> (case LockedUntil r of None \<Rightarrow> True | Some u \<Rightarrow> u \<le> m) \<Longrightarrow>
      \<exists>t'. h n (CallReclaim (ID r) (Status r) m l e) t = (t', ReplyTaken True) \<and> wf t' \<and>
        get t' s k = Some (r\<lparr>Status := IdempotencyStatusProcessing, LockedUntil := Some l, ErrorReason := None,
          UpdatedAt := n, ExpiresAt := e\<rparr>)"
    and record_id: "wf t \<Longrightarrow> get t s k = Some r \<Longrightarrow> ID r \<noteq> 0"
begin

lemma exec_phase_stores:
  assumes "wf t" "get t (opt_Scope opts) kh = Some r" "ID r = i" "marshalStoredResponse L cfg data = Some body"
  shows "\<exists>t'. run (h n) (x, Inr data) (exec_phase L cfg opts i ttl e) t =
      (t', Inr \<lparr>Data = data, Replayed = False\<rparr>, [Some i]) \<and> wf t' \<and>
    get t' (opt_Scope opts) kh = Some (r\<lparr>Status := IdempotencyStatusSucceeded, ResponseStatus := Some 200,
      ResponseBody := Some body, ErrorReason := None, LockedUntil := None,
      ExpiresAt := (if ExecutionTimeout opts > 0 then x + ttl else e), UpdatedAt := n\<rparr>)"
proof -
  let ?e = "if ExecutionTimeout opts > 0 then x + ttl else e"
  obtain t' where t': "h n (CallSucceeded i 200 body ?e) t = (t', ReplyDone)" "wf t'"
    "get t' (opt_Scope opts) kh = Some (r\<lparr>Status := IdempotencyStatusSucceeded, ResponseStatus := Some 200,
      ResponseBody := Some body, ErrorReason := None, LockedUntil := None, ExpiresAt := ?e, UpdatedAt := n\<rparr>)"
    using h_succeeded[OF assms(1,2), of n 200 body ?e] assms(3) by auto
  have "run (h n) (x, Inr data) (exec_phase L cfg opts i ttl e) t =
      (t', Inr \<lparr>Data = data, Replayed = False\<rparr>, [Some i])"
    using t'(1) assms(3,4) record_id[OF assms(1,2)] by (simp add: exec_phase_def finish_phase_def Let_def)
  with t' show ?thesis by blast
qed

lemma exec_phase_fails:
  assumes "wf t" "get t (opt_Scope opts) kh = Some r" "ID r = i"
  shows "\<exists>t'. run (h n) (x, Inl reason) (exec_phase L cfg opts i ttl e) t = (t', Inl (ErrExec reason), [Some i]) \<and> wf t' \<and>
    get t' (opt_Scope opts) kh = Some (r\<lparr>Status := IdempotencyStatusFailedRetryable,
      ErrorReason := Some (if reason = [] then ''EXECUTION_FAILED'' else reason),
      LockedUntil := Some (x + FailedRetryBackoff cfg),
      ExpiresAt := (if ExecutionTimeout opts > 0 then x + ttl else e), UpdatedAt := n\<rparr>)"
proof -
  let ?e = "if ExecutionTimeout opts > 0 then x + ttl else e"
  let ?rs = "if reason = [] then ''EXECUTION_FAILED'' else reason"
  obtain t' where t': "h n (CallFailed i ?rs (x + FailedRetryBackoff cfg) ?e) t = (t', ReplyDone)" "wf t'"
    "get t' (opt_Scope opts) kh = Some (r\<lparr>Status := IdempotencyStatusFailedRetryable, ErrorReason := Some ?rs,
      LockedUntil := Some (x + FailedRetryBackoff cfg), ExpiresAt := ?e, UpdatedAt := n\<rparr>)"
    using h_failed[OF assms(1,2), of n ?rs "x + FailedRetryBackoff cfg" ?e] assms(3) by blast
  have "run (h n) (x, Inl reason) (exec_phase L cfg opts i ttl e) t = (t', Inl (ErrExec reason), [Some i])"
    using t'(1) assms(3) record_id[OF assms(1,2)] by (simp add: exec_phase_def finish_phase_def Let_def)
  with t' show ?thesis by blast
qed

lemma first_request:
  assumes "wf t" "accepted L opts key fp" "get t (opt_Scope opts) (HashIdempotencyKey L key) = None"
    and "run (h n) (x, out) (Execute L cfg True True now opts) t = (t', res, es)"
  shows "out = Inr data \<Longrightarrow> marshalStoredResponse L cfg data = Some body \<Longrightarrow>
      res = Inr \<lparr>Data = data, Replayed = False\<rparr> \<and> length es = 1 \<and> wf t' \<and>
      (\<exists>r. get t' (opt_Scope opts) (HashIdempotencyKey L key) = Some r \<and> RequestFingerprint r = fp \<and>
        Status r = IdempotencyStatusSucceeded \<and> ResponseBody r = Some body \<and> ExpiresAt r = expiry cfg opts now x)"
    and "out = Inl reason \<Longrightarrow> res = Inl (ErrExec reason) \<and> length es = 1 \<and> wf t' \<and>
      (\<exists>r. get t' (opt_Scope opts) (HashIdempotencyKey L key) = Some r \<and> RequestFingerprint r = fp \<and>
        Status r = IdempotencyStatusFailedRetryable \<and> LockedUntil r = Some (x + FailedRetryBackoff cfg) \<and>
        ExpiresAt r = expiry cfg opts now x)"
proof -
  let ?kh = "HashIdempotencyKey L key" and ?ttl = "effective_ttl cfg opts"
  let ?rec = "claim_record (opt_Scope opts) ?kh fp (now + ProcessingTimeout cfg) (now + ?ttl)"
  have rec: "Scope ?rec = opt_Scope opts" "IdempotencyKeyHash ?rec = ?kh" "RequestFingerprint ?rec = fp"
    by (simp_all add: claim_record_def)
  obtain t1 r where t1: "h n (CallCreate ?rec) t = (t1, ReplyCreated (Some (ID r)))" "wf t1"
    "get t1 (opt_Scope opts) ?kh = Some r" "RequestFingerprint r = fp"
    using h_create_new[OF assms(1), of ?rec n] assms(3) unfolding rec by blast
  have run1: "run (h n) (x, out) (exec_phase L cfg opts (ID r) ?ttl (now + ?ttl)) t1 = (t', res, es)"
    using t1(1) assms(4) unfolding Execute_accepted[OF assms(2)] claim_phase_def Let_def effective_ttl_def by simp
  have exp: "(if ExecutionTimeout opts > 0 then x + ?ttl else now + ?ttl) = expiry cfg opts now x"
    by (simp add: expiry_def)
  show "res = Inr \<lparr>Data = data, Replayed = False\<rparr> \<and> length es = 1 \<and> wf t' \<and>
      (\<exists>r. get t' (opt_Scope opts) ?kh = Some r \<and> RequestFingerprint r = fp \<and>
        Status r = IdempotencyStatusSucceeded \<and> ResponseBody r = Some body \<and> ExpiresAt r = expiry cfg opts now x)"
    if out: "out = Inr data" "marshalStoredResponse L cfg data = Some body"
    using exec_phase_stores[OF t1(2,3) refl out(2), of n x ?ttl "now + ?ttl"] run1 t1(4)
    unfolding out(1) exp by auto
  show "res = Inl (ErrExec reason) \<and> length es = 1 \<and> wf t' \<and>
      (\<exists>r. get t' (opt_Scope opts) ?kh = Some r \<and> RequestFingerprint r = fp \<and>
        Status r = IdempotencyStatusFailedRetryable \<and> LockedUntil r = Some (x + FailedRetryBackoff cfg) \<and>
        ExpiresAt r = expiry cfg opts now x)" if out: "out = Inl reason"
    using exec_phase_fails[OF t1(2,3) refl, of n x reason L cfg ?ttl "now + ?ttl"] run1 t1(4)
    unfolding out exp by auto
qed

text \<open>A request that finds a record of its key.\<close>

lemma later_request:
  assumes "wf t" "accepted L opts key fp" "get t (opt_Scope opts) (HashIdempotencyKey L key) = Some r"
  shows "RequestFingerprint r \<noteq> fp \<Longrightarrow>
      \<exists>t'. run (h n) x (Execute L cfg True True now opts) t = (t', Inl ErrIdempotencyKeyConflict, []) \<and> wf t' \<and> get t' = get t"
    and "RequestFingerprint r = fp \<Longrightarrow> now < ExpiresAt r \<Longrightarrow>
      \<exists>t'. run (h n) x (Execute L cfg True True now opts) t =
          run (h n) x (existing_phase L cfg opts now (effective_ttl cfg opts) (now + ProcessingTimeout cfg)
            (now + effective_ttl cfg opts) r) t' \<and> wf t' \<and> get t' = get t"
proof -
  let ?kh = "HashIdempotencyKey L key" and ?ttl = "effective_ttl cfg opts"
  let ?rec = "claim_record (opt_Scope opts) ?kh fp (now + ProcessingTimeout cfg) (now + ?ttl)"
  have rec: "Scope ?rec = opt_Scope opts" "IdempotencyKeyHash ?rec = ?kh" by (simp_all add: claim_record_def)
  obtain t1 where t1: "h n (CallCreate ?rec) t = (t1, ReplyCreated None)" "wf t1" "get t1 = get t"
    using h_create_conflict[OF assms(1), of ?rec r n] assms(3) unfolding rec by blast
  have run1: "run (h n) x (Execute L cfg True True now opts) t =
      run (h n) x (conflict_phase L cfg opts now ?ttl (now + ProcessingTimeout cfg) (now + ?ttl) ?kh fp) t1"
    using t1(1) unfolding Execute_accepted[OF assms(2)] claim_phase_def Let_def effective_ttl_def by simp
  have get1: "get t1 (opt_Scope opts) ?kh = Some r" using t1(3) assms(3) by simp
  show "\<exists>t'. run (h n) x (Execute L cfg True True now opts) t = (t', Inl ErrIdempotencyKeyConflict, []) \<and> wf t' \<and> get t' = get t"
    if "RequestFingerprint r \<noteq> fp"
    unfolding run1 conflict_phase_def using get1 that t1(2,3) by (simp add: h_get)
  show "\<exists>t'. run (h n) x (Execute L cfg True True now opts) t =
          run (h n) x (existing_phase L cfg opts now ?ttl (now + ProcessingTimeout cfg) (now + ?ttl) r) t' \<and> wf t' \<and> get t' = get t"
    if "RequestFingerprint r = fp" "now < ExpiresAt r"
    unfolding run1 conflict_phase_def using get1 that t1(2,3) by (auto simp: h_get)
qed

lemma retry_after_success:
  assumes "wf t" "accepted L opts key fp" "get t (opt_Scope opts) (HashIdempotencyKey L key) = Some r"
    and "RequestFingerprint r = fp" "now < ExpiresAt r" "Status r = IdempotencyStatusSucceeded"
  shows "\<exists>t'. run (h n) x (Execute L cfg True True now opts) t =
    (t', case decodeStoredResponse L (ResponseBody r) of
           None \<Rightarrow> Inl ErrIdempotencyStoreUnavail | Some d \<Rightarrow> Inr \<lparr>Data = d, Replayed = True\<rparr>, []) \<and> get t' = get t"
  using later_request(2)[OF assms(1-5), of n x cfg] assms(6)
  by (auto simp: existing_phase_def split: option.splits)

lemma retry_after_failure:
  assumes "wf t" "accepted L opts key fp" "get t (opt_Scope opts) (HashIdempotencyKey L key) = Some r"
    and "RequestFingerprint r = fp" "now < ExpiresAt r" "Status r = IdempotencyStatusFailedRetryable"
    and "LockedUntil r = Some u"
  shows "now < u \<Longrightarrow> \<exists>t'. run (h n) x (Execute L cfg True True now opts) t =
      (t', Inl (conflictWithRetryAfter ErrIdempotencyRetryBackoff (Some u) now), []) \<and> get t' = get t"
    and "u \<le> now \<Longrightarrow> marshalStoredResponse L cfg data = Some body \<Longrightarrow>
      \<exists>t'. run (h n) (tx, Inr data) (Execute L cfg True True now opts) t =
        (t', Inr \<lparr>Data = data, Replayed = False\<rparr>, [Some (ID r)]) \<and> wf t'"
proof -
  note later = later_request(2)[OF assms(1-5), of n _ cfg]
  show "\<exists>t'. run (h n) x (Execute L cfg True True now opts) t =
      (t', Inl (conflictWithRetryAfter ErrIdempotencyRetryBackoff (Some u) now), []) \<and> get t' = get t" if "now < u"
    using later[of x] assms(6,7) that by (auto simp: existing_phase_def)
  assume u: "u \<le> now" and m: "marshalStoredResponse L cfg data = Some body"
  let ?ttl = "effective_ttl cfg opts"
  obtain t1 where t1: "run (h n) (tx, Inr data) (Execute L cfg True True now opts) t =
      run (h n) (tx, Inr data) (existing_phase L cfg opts now ?ttl (now + ProcessingTimeout cfg) (now + ?ttl) r) t1"
    "wf t1" "get t1 = get t" using later[of "(tx, Inr data)"] by blast
  have g: "get t1 (opt_Scope opts) (HashIdempotencyKey L key) = Some r" using t1(3) assms(3) by simp
  obtain t2 r2 where t2: "h n (CallReclaim (ID r) (Status r) now (now + ProcessingTimeout cfg) (now + ?ttl)) t1 = (t2, ReplyTaken True)"
    "wf t2" "get t2 (opt_Scope opts) (HashIdempotencyKey L key) = Some r2" "ID r2 = ID r"
    using h_reclaim[OF t1(2) g, of now n "now + ProcessingTimeout cfg" "now + ?ttl"] assms(7) u by auto
  from exec_phase_stores[OF t2(2-4) m, of n tx ?ttl "now + ?ttl"] t2(1) assms(6,7) u
  show "\<exists>t'. run (h n) (tx, Inr data) (Execute L cfg True True now opts) t =
        (t', Inr \<lparr>Data = data, Replayed = False\<rparr>, [Some (ID r)]) \<and> wf t'"
    unfolding t1(1) by (auto simp: existing_phase_def)
qed

end

section \<open>The SQL repository keeps the contract\<close>

lemma Get_mark:
  assumes "idem_wf t" "GetByScopeAndKeyHash t s k = Some r"
    and "\<And>r. Scope (f r) = Scope r" "\<And>r. IdempotencyKeyHash (f r) = IdempotencyKeyHash r" "P r"
  shows "GetByScopeAndKeyHash (fst (update_where P f t)) s k = Some (f r)"
  using Get_update_where[of f P t s k] assms by simp

interpretation sql_idem: idempotency_repository idem_wf GetByScopeAndKeyHash do_call
proof
  fix n m l e st s k t rec r b i reason
  show "do_call n (CallGet s k) t = (t, ReplyRecord (GetByScopeAndKeyHash t s k))" by (simp add: do_call_def)
  show "\<exists>t' r. do_call n (CallCreate rec) t = (t', ReplyCreated (Some (ID r))) \<and> idem_wf t' \<and> ID r \<noteq> 0 \<and>
        GetByScopeAndKeyHash t' (Scope rec) (IdempotencyKeyHash rec) = Some r \<and> Status r = Status rec \<and>
        RequestFingerprint r = RequestFingerprint rec \<and> LockedUntil r = LockedUntil rec \<and> ExpiresAt r = ExpiresAt rec"
    if "idem_wf t" and none: "GetByScopeAndKeyHash t (Scope rec) (IdempotencyKeyHash rec) = None"
  proof -
    obtain t' j where c: "CreateProcessing n t rec = (t', j)" by fastforce
    have wf: "idem_wf t'" using CreateProcessing_wf[OF that(1), of n rec] c by simp
    define r where "r = \<lparr>ID = next_record_id t, Scope = Scope rec, IdempotencyKeyHash = IdempotencyKeyHash rec,
      RequestFingerprint = RequestFingerprint rec, Status = Status rec, ResponseStatus = None, ResponseBody = None,
      ErrorReason = None, LockedUntil = LockedUntil rec, ExpiresAt = ExpiresAt rec, CreatedAt = n, UpdatedAt = n\<rparr>"
    from c none[unfolded Get_None_iff] have r: "records t' = records t @ [r]" "j = Some (ID r)"
      "has_key (Scope rec) (IdempotencyKeyHash rec) r" "Status r = Status rec"
      "RequestFingerprint r = RequestFingerprint rec" "LockedUntil r = LockedUntil rec" "ExpiresAt r = ExpiresAt rec"
      by (auto simp: CreateProcessing_def Let_def has_key_def r_def)
    then have "GetByScopeAndKeyHash t' (Scope rec) (IdempotencyKeyHash rec) = Some r"
      using Get_Some_iff[OF wf] by simp
    moreover have "ID r \<noteq> 0" using idem_wfD(4)[OF wf, of r] r(1) by simp
    ultimately show ?thesis using c r wf by (auto simp: do_call_def)
  qed
  show "\<exists>t'. do_call n (CallCreate rec) t = (t', ReplyCreated None) \<and> idem_wf t' \<and>
        GetByScopeAndKeyHash t' = GetByScopeAndKeyHash t"
    if "idem_wf t" "GetByScopeAndKeyHash t (Scope rec) (IdempotencyKeyHash rec) = Some r"
  proof -
    have "list_ex (has_key (Scope rec) (IdempotencyKeyHash rec)) (records t)"
      using that(2) Get_None_iff by (metis option.distinct(1))
    then show ?thesis using CreateProcessing_wf[OF that(1), of n rec]
      by (auto simp: do_call_def CreateProcessing_def Let_def GetByScopeAndKeyHash_def fun_eq_iff)
  qed
  show "\<exists>t'. do_call n (CallSucceeded (ID r) st b e) t = (t', ReplyDone) \<and> idem_wf t' \<and>
        GetByScopeAndKeyHash t' s k = Some (r\<lparr>Status := IdempotencyStatusSucceeded, ResponseStatus := Some st,
          ResponseBody := Some b, ErrorReason := None, LockedUntil := None, ExpiresAt := e, UpdatedAt := n\<rparr>)"
    if "idem_wf t" "GetByScopeAndKeyHash t s k = Some r"
    using Get_mark[OF that, of "\<lambda>r. r\<lparr>Status := IdempotencyStatusSucceeded, ResponseStatus := Some st,
          ResponseBody := Some b, ErrorReason := None, LockedUntil := None, ExpiresAt := e, UpdatedAt := n\<rparr>" "\<lambda>x. ID x = ID r"]
      statements_wf(3)[OF that(1), of n "ID r" st b e] by (simp add: do_call_def MarkSucceeded_def)
  show "\<exists>t'. do_call n (CallFailed (ID r) reason l e) t = (t', ReplyDone) \<and> idem_wf t' \<and>
        GetByScopeAndKeyHash t' s k = Some (r\<lparr>Status := IdempotencyStatusFailedRetryable, ErrorReason := Some reason,
          LockedUntil := Some l, ExpiresAt := e, UpdatedAt := n\<rparr>)"
    if "idem_wf t" "GetByScopeAndKeyHash t s k = Some r"
    using Get_mark[OF that, of "\<lambda>r. r\<lparr>Status := IdempotencyStatusFailedRetryable, ErrorReason := Some reason,
          LockedUntil := Some l, ExpiresAt := e, UpdatedAt := n\<rparr>" "\<lambda>x. ID x = ID r"]
      statements_wf(4)[OF that(1), of n "ID r" reason l e] by (simp add: do_call_def MarkFailedRetryable_def)
  show "\<exists>t'. do_call n (CallReclaim (ID r) (Status r) m l e) t = (t', ReplyTaken True) \<and> idem_wf t' \<and>
        GetByScopeAndKeyHash t' s k = Some (r\<lparr>Status := IdempotencyStatusProcessing, LockedUntil := Some l,
          ErrorReason := None, UpdatedAt := n, ExpiresAt := e\<rparr>)"
    if "idem_wf t" "GetByScopeAndKeyHash t s k = Some r" "case LockedUntil r of None \<Rightarrow> True | Some u \<Rightarrow> u \<le> m"
  proof -
    let ?P = "\<lambda>x. ID x = ID r \<and> Status x = Status r \<and> (case LockedUntil x of None \<Rightarrow> True | Some u \<Rightarrow> u \<le> m)"
    have "r \<in> set (records t)" using that(2) Get_Some_iff[OF that(1)] by blast
    then have "list_ex ?P (records t)" using that(3) by (auto simp: list_ex_iff)
    then show ?thesis
      using Get_mark[OF that(1,2), of "\<lambda>r. r\<lparr>Status := IdempotencyStatusProcessing, LockedUntil := Some l,
          ErrorReason := None, UpdatedAt := n, ExpiresAt := e\<rparr>" ?P] that(3)
        statements_wf(1)[OF that(1), of n "ID r" "Status r" m l e]
      by (simp add: do_call_def TryReclaim_def update_where_def)
  qed
  show "ID r \<noteq> 0" if "idem_wf t" "GetByScopeAndKeyHash t s k = Some r"
    using idem_wfD(4)[OF that(1)] Get_Some_iff[OF that(1)] that(2) by fastforce
qed

section \<open>Properties\<close>

text \<open>
  C11. Execute runs the work once and replays the stored response. A first request under a fresh key
  runs the executor exactly once and returns its data; the same request sent again before the record
  expires does not run the executor: it returns the decoded stored response marked as replayed.
\<close>

theorem retry_replays_stored_response:
  assumes "idem_wf t" and "accepted L opts key fp"
    and "GetByScopeAndKeyHash t (opt_Scope opts) (HashIdempotencyKey L key) = None"
    and "marshalStoredResponse L cfg data = Some body" and "decodeStoredResponse L (Some body) = Some d"
    and "run (do_call n) (x, Inr data) (Execute L cfg True True now opts) t = (t1, res1, execs1)"
    and "now2 < expiry cfg opts now x"
    and "run (do_call n2) x2 (Execute L cfg True True now2 opts) t1 = (t2, res2, execs2)"
  shows "res1 = Inr \<lparr>Data = data, Replayed = False\<rparr> \<and> length execs1 = 1 \<and>
    res2 = Inr \<lparr>Data = d, Replayed = True\<rparr> \<and> execs2 = []"
proof -
  note one = sql_idem.first_request(1)[OF assms(1-3,6) refl assms(4)]
  then obtain r where r: "idem_wf t1" "GetByScopeAndKeyHash t1 (opt_Scope opts) (HashIdempotencyKey L key) = Some r"
    "RequestFingerprint r = fp" "Status r = IdempotencyStatusSucceeded" "ResponseBody r = Some body"
    "ExpiresAt r = expiry cfg opts now x" by blast
  have "now2 < ExpiresAt r" using r(6) assms(7) by simp
  from sql_idem.retry_after_success[OF r(1) assms(2) r(2,3) this r(4), of n2 x2 cfg] assms(5,8) r(5) one
  show ?thesis by auto
qed

lemma demo_accepted: "accepted demo_lib demo_opts ''k'' demo_fp"
proof -
  have "TrimSpace ''k'' = ''k''" by (simp add: TrimSpace_visible visible_def)
  then show ?thesis
    by (simp add: accepted_def NormalizeIdempotencyKey_def demo_opts_def visible_def demo_fp_def
        BuildIdempotencyFingerprint_def demo_lib_def ToUpper_def upper_char_def)
qed

definition demo_empty :: idem_table where
  "demo_empty = \<lparr>records = [], next_record_id = 1\<rparr>"

lemma demo_empty_ok:
  "idem_wf demo_empty" "GetByScopeAndKeyHash demo_empty (opt_Scope demo_opts) (HashIdempotencyKey demo_lib ''k'') = None"
  by (simp_all add: demo_empty_def idem_wf_def GetByScopeAndKeyHash_def)

lemma demo_codec:
  "marshalStoredResponse demo_lib demo_cfg ''{1}'' = Some ''{1}''" "decodeStoredResponse demo_lib (Some ''{1}'') = Some ''{1}''"
  by (simp_all add: marshalStoredResponse_def demo_lib_def DefaultIdempotencyConfig_def decodeStoredResponse_def
      TrimSpace_visible visible_def)

theorem retry_replays_stored_response_witness:
  "\<exists>t1 res1 execs1 t2 res2 execs2.
     run (do_call 0) (7, Inr ''{1}'') (Execute demo_lib demo_cfg True True 0 demo_opts) demo_empty = (t1, res1, execs1) \<and>
     run (do_call 50) (60, Inl ''never'') (Execute demo_lib demo_cfg True True 50 demo_opts) t1 = (t2, res2, execs2) \<and>
     length execs1 = 1 \<and> res2 = Inr \<lparr>Data = ''{1}'', Replayed = True\<rparr> \<and> execs2 = []"
proof -
  obtain t1 res1 execs1 where r1: "run (do_call 0) (7, Inr ''{1}'') (Execute demo_lib demo_cfg True True 0 demo_opts) demo_empty =
    (t1, res1, execs1)" by (metis prod_cases3)
  obtain t2 res2 execs2 where r2: "run (do_call 50) (60, Inl ''never'') (Execute demo_lib demo_cfg True True 50 demo_opts) t1 =
    (t2, res2, execs2)" by (metis prod_cases3)
  have "50 < expiry demo_cfg demo_opts 0 7" by (simp add: expiry_def effective_ttl_def demo_opts_def)
  from retry_replays_stored_response[OF demo_empty_ok(1) demo_accepted demo_empty_ok(2) demo_codec r1 this r2] r1 r2
  show ?thesis by blast
qed

text \<open>
  C14. A key is bound to its payload: while a record of the key exists, a request with another method,
  route, actor or payload (another fingerprint) is refused as a conflict without running the executor,
  whatever the status of the record, and no record changes.
\<close>

theorem key_reuse_conflicts:
  assumes "idem_wf t" and "accepted L opts key fp"
    and "GetByScopeAndKeyHash t (opt_Scope opts) (HashIdempotencyKey L key) = Some r" and "RequestFingerprint r \<noteq> fp"
    and "run (do_call n) x (Execute L cfg True True now opts) t = (t', res, execs)"
  shows "res = Inl ErrIdempotencyKeyConflict \<and> execs = [] \<and> GetByScopeAndKeyHash t' = GetByScopeAndKeyHash t"
  using sql_idem.later_request(1)[OF assms(1-4), of n x cfg now] assms(5) by auto

theorem key_reuse_conflicts_witness:
  "\<exists>t' execs. run (do_call 5) (6, Inr ''y'') (Execute demo_lib demo_cfg True True 5 (demo_opts\<lparr>Payload := ''[]''\<rparr>))
     \<lparr>records = [demo_stored], next_record_id = 2\<rparr> = (t', Inl ErrIdempotencyKeyConflict, execs) \<and> execs = []"
proof -
  let ?t = "\<lparr>records = [demo_stored], next_record_id = 2\<rparr>" and ?o = "demo_opts\<lparr>Payload := ''[]''\<rparr>"
  let ?fp = "''PUT'' @ [CHR 0x0A] @ ''/r'' @ [CHR 0x0A] @ ''a'' @ [CHR 0x0A] @ ''[]''"
  obtain t' res execs where r: "run (do_call 5) (6, Inr ''y'') (Execute demo_lib demo_cfg True True 5 ?o) ?t = (t', res, execs)"
    by (metis prod_cases3)
  have "TrimSpace ''k'' = ''k''" by (simp add: TrimSpace_visible visible_def)
  then have acc: "accepted demo_lib ?o ''k'' ?fp"
    by (simp add: accepted_def NormalizeIdempotencyKey_def demo_opts_def visible_def
        BuildIdempotencyFingerprint_def demo_lib_def ToUpper_def upper_char_def)
  have "idem_wf ?t" "GetByScopeAndKeyHash ?t (opt_Scope ?o) (HashIdempotencyKey demo_lib ''k'') = Some demo_stored"
    "RequestFingerprint demo_stored \<noteq> ?fp"
    by (simp_all add: idem_wf_def demo_row_def GetByScopeAndKeyHash_def has_key_def demo_opts_def HashIdempotencyKey_def
        demo_lib_def demo_fp_def)
  from key_reuse_conflicts[OF this(1) acc this(2,3) r] r show ?thesis by blast
qed

lemma retry_after_seconds:
  assumes "E = ErrIdempotencyInProgress \<or> E = ErrIdempotencyRetryBackoff" and "in_int64 (u - now)"
  shows "RetryAfterSecondsFromError (conflictWithRetryAfter E (Some u) now) = max 1 ((u - now) sdiv Second)"
proof -
  have ts: "time_sub u now = u - now" by (rule time_sub_exact[OF assms(2)])
  let ?s = "max 1 ((u - now) sdiv Second)"
  have e: "conflictWithRetryAfter E (Some u) now = E (Some (Itoa ?s))"
    by (simp add: conflictWithRetryAfter_def ts Let_def max_def)
  have "\<bar>(u - now) sdiv Second\<bar> \<le> \<bar>u - now\<bar>"
    by (simp add: signed_divide_int_def Second_def abs_mult abs_sgn_eq) (smt (verit) div_by_0 zdiv_mono2 div_by_1 abs_ge_zero)
  then have "(u - now) sdiv Second \<le> 2 ^ 63 - 1"
  proof (cases "0 \<le> u - now")
    case True
    with \<open>\<bar>(u - now) sdiv Second\<bar> \<le> \<bar>u - now\<bar>\<close> assms(2) show ?thesis by (simp add: in_int64_def)
  next
    case False
    then have "(u - now) sdiv Second \<le> 0"
      by (simp add: signed_divide_int_def Second_def sgn_if pos_imp_zdiv_nonneg_iff)
    then show ?thesis by simp
  qed
  then have "in_int64 ?s" by (simp add: in_int64_def)
  then show ?thesis
    using assms(1) unfolding e by (auto simp: RetryAfterSecondsFromError_def Let_def)
qed

text \<open>
  C13. A failed execution is retried after its backoff, not before. When the executor fails, the caller
  gets its error; the same request sent again during the backoff is refused without running the
  executor and told to wait the remaining seconds, at least one; sent again after the backoff, and
  before the record expires, it runs the executor exactly once more and returns its data.
\<close>

theorem failure_backs_off_then_retries:
  assumes "idem_wf t" and "accepted L opts key fp"
    and "GetByScopeAndKeyHash t (opt_Scope opts) (HashIdempotencyKey L key) = None"
    and "run (do_call n) (x, Inl reason) (Execute L cfg True True now opts) t = (t1, res1, execs1)"
    and "now2 < expiry cfg opts now x" and "in_int64 (x + FailedRetryBackoff cfg - now2)"
    and "marshalStoredResponse L cfg data = Some body"
    and "run (do_call n2) (x2, Inr data) (Execute L cfg True True now2 opts) t1 = (t2, res2, execs2)"
  shows "res1 = Inl (ErrExec reason) \<and> length execs1 = 1 \<and>
    (if now2 < x + FailedRetryBackoff cfg
     then execs2 = [] \<and> (\<exists>e. res2 = Inl e \<and>
       RetryAfterSecondsFromError e = max 1 ((x + FailedRetryBackoff cfg - now2) sdiv Second))
     else length execs2 = 1 \<and> res2 = Inr \<lparr>Data = data, Replayed = False\<rparr>)"
proof -
  note one = sql_idem.first_request(2)[OF assms(1-4) refl]
  then obtain r where r: "idem_wf t1" "GetByScopeAndKeyHash t1 (opt_Scope opts) (HashIdempotencyKey L key) = Some r"
    "RequestFingerprint r = fp" "Status r = IdempotencyStatusFailedRetryable"
    "LockedUntil r = Some (x + FailedRetryBackoff cfg)" "ExpiresAt r = expiry cfg opts now x" by blast
  have ex: "now2 < ExpiresAt r" using r(6) assms(5) by simp
  note retry = sql_idem.retry_after_failure[OF r(1) assms(2) r(2,3) ex r(4,5)]
  show ?thesis
  proof (cases "now2 < x + FailedRetryBackoff cfg")
    case True
    from retry(1)[OF True, of n2 "(x2, Inr data)" cfg] assms(8) one
      retry_after_seconds[OF disjI2[OF refl] assms(6)] True show ?thesis by auto
  next
    case False
    then have "x + FailedRetryBackoff cfg \<le> now2" by simp
    from retry(2)[OF this assms(7), of n2 x2] assms(8) one False show ?thesis by auto
  qed
qed

theorem failure_backs_off_then_retries_witness:
  "\<exists>t1 res1 execs1 t2 res2. run (do_call 0) (7, Inl ''BOOM'') (Execute demo_lib (demo_cfg\<lparr>FailedRetryBackoff := 20\<rparr>) True True 0 demo_opts) demo_empty =
       (t1, res1, execs1) \<and> res1 = Inl (ErrExec ''BOOM'') \<and>
     run (do_call 50) (60, Inr ''{1}'') (Execute demo_lib (demo_cfg\<lparr>FailedRetryBackoff := 20\<rparr>) True True 50 demo_opts) t1 =
       (t2, res2) \<and> fst res2 = Inr \<lparr>Data = ''{1}'', Replayed = False\<rparr> \<and> length (snd res2) = 1"
proof -
  let ?c = "demo_cfg\<lparr>FailedRetryBackoff := 20\<rparr>"
  obtain t1 res1 execs1 where r1: "run (do_call 0) (7, Inl ''BOOM'') (Execute demo_lib ?c True True 0 demo_opts) demo_empty =
    (t1, res1, execs1)" by (metis prod_cases3)
  obtain t2 res2 execs2 where r2: "run (do_call 50) (60, Inr ''{1}'') (Execute demo_lib ?c True True 50 demo_opts) t1 =
    (t2, res2, execs2)" by (metis prod_cases3)
  have "50 < expiry ?c demo_opts 0 7" "in_int64 (7 + FailedRetryBackoff ?c - 50)"
    "marshalStoredResponse demo_lib ?c ''{1}'' = Some ''{1}''"
    by (simp_all add: expiry_def effective_ttl_def demo_opts_def in_int64_def marshalStoredResponse_def demo_lib_def
        DefaultIdempotencyConfig_def)
  from failure_backs_off_then_retries[OF demo_empty_ok(1) demo_accepted demo_empty_ok(2) r1 this r2] r1 r2
  show ?thesis by fastforce
qed

text \<open>
  C15. A response longer than the configured limit is stored cut off and marked, and cannot be replayed:
  the first request returns its data, but the same request sent again is answered with
  \<open>store unavailable\<close> until the record expires, since no JSON text ends in the mark. The work is not run
  again.
\<close>

theorem oversized_response_cannot_be_replayed:
  assumes "idem_wf t" and "accepted L opts key fp"
    and "GetByScopeAndKeyHash t (opt_Scope opts) (HashIdempotencyKey L key) = None"
    and "Marshal L data = Some raw" and "0 < MaxStoredResponseLen cfg"
    and "MaxStoredResponseLen cfg < int (length (RedactText L raw))"
    and json: "\<And>s. Unmarshal L (s @ ''...(truncated)'') = None"
    and "run (do_call n) (x, Inr data) (Execute L cfg True True now opts) t = (t1, res1, execs1)"
    and "now2 < expiry cfg opts now x"
    and "run (do_call n2) x2 (Execute L cfg True True now2 opts) t1 = (t2, res2, execs2)"
  shows "res1 = Inr \<lparr>Data = data, Replayed = False\<rparr> \<and> res2 = Inl ErrIdempotencyStoreUnavail \<and> execs2 = []"
proof -
  let ?b = "truncateUTF8 (RedactText L raw) (MaxStoredResponseLen cfg) @ ''...(truncated)''"
  have m: "marshalStoredResponse L cfg data = Some ?b" using assms(4-6) by (simp add: marshalStoredResponse_def)
  note one = sql_idem.first_request(1)[OF assms(1-3,8) refl m]
  then obtain r where r: "idem_wf t1" "GetByScopeAndKeyHash t1 (opt_Scope opts) (HashIdempotencyKey L key) = Some r"
    "RequestFingerprint r = fp" "Status r = IdempotencyStatusSucceeded" "ResponseBody r = Some ?b"
    "ExpiresAt r = expiry cfg opts now x" by blast
  have ex: "now2 < ExpiresAt r" using r(6) assms(9) by simp
  have "TrimSpace ?b \<noteq> []" by (rule TrimSpace_visible_last) (simp_all add: visible_def)
  then have "decodeStoredResponse L (Some ?b) = None" by (simp add: decodeStoredResponse_def json)
  with sql_idem.retry_after_success[OF r(1) assms(2) r(2,3) ex r(4), of n2 x2 cfg] assms(10) r(5) one
  show ?thesis by auto
qed

definition strict_lib :: "string lib" where
  "strict_lib = demo_lib\<lparr>Unmarshal := (\<lambda>s. if HasSuffix s ''...(truncated)'' then None else Some s)\<rparr>"

theorem oversized_response_cannot_be_replayed_witness:
  "\<exists>t1 execs1 t2 execs2.
     run (do_call 0) (7, Inr ''[1,2,3]'') (Execute strict_lib (demo_cfg\<lparr>MaxStoredResponseLen := 4\<rparr>) True True 0 demo_opts) demo_empty =
       (t1, Inr \<lparr>Data = ''[1,2,3]'', Replayed = False\<rparr>, execs1) \<and>
     run (do_call 50) (60, Inl ''never'') (Execute strict_lib (demo_cfg\<lparr>MaxStoredResponseLen := 4\<rparr>) True True 50 demo_opts) t1 =
       (t2, Inl ErrIdempotencyStoreUnavail, execs2) \<and> execs2 = []"
proof -
  let ?c = "demo_cfg\<lparr>MaxStoredResponseLen := 4\<rparr>"
  obtain t1 res1 execs1 where r1: "run (do_call 0) (7, Inr ''[1,2,3]'') (Execute strict_lib ?c True True 0 demo_opts) demo_empty =
    (t1, res1, execs1)" by (metis prod_cases3)
  obtain t2 res2 execs2 where r2: "run (do_call 50) (60, Inl ''never'') (Execute strict_lib ?c True True 50 demo_opts) t1 =
    (t2, res2, execs2)" by (metis prod_cases3)
  have acc: "accepted strict_lib demo_opts ''k'' demo_fp"
    using demo_accepted by (simp add: accepted_def BuildIdempotencyFingerprint_def strict_lib_def demo_lib_def)
  have none: "GetByScopeAndKeyHash demo_empty (opt_Scope demo_opts) (HashIdempotencyKey strict_lib ''k'') = None"
    using demo_empty_ok(2) by (simp add: HashIdempotencyKey_def strict_lib_def)
  have "Marshal strict_lib ''[1,2,3]'' = Some ''[1,2,3]''" "0 < MaxStoredResponseLen ?c"
    "MaxStoredResponseLen ?c < int (length (RedactText strict_lib ''[1,2,3]''))"
    "\<And>s. Unmarshal strict_lib (s @ ''...(truncated)'') = None"
    by (simp_all add: strict_lib_def demo_lib_def HasSuffix_split)
  moreover have "50 < expiry ?c demo_opts 0 7" by (simp add: expiry_def effective_ttl_def demo_opts_def)
  ultimately show ?thesis
    using oversized_response_cannot_be_replayed[OF demo_empty_ok(1) acc none _ _ _ _ r1 _ r2] r1 r2 by blast
qed

section \<open>Cutting at a character boundary\<close>

lemma truncate_loop_spec:
  "prefix (truncate_loop s n) s \<and> length (truncate_loop s n) \<le> n \<and> ValidString (truncate_loop s n)"
  by (induction s n rule: truncate_loop.induct) (auto simp: take_is_prefix)

lemma truncate_loop_longest:
  "m \<le> n \<Longrightarrow> m \<le> length s \<Longrightarrow> ValidString (take m s) \<Longrightarrow> m \<le> length (truncate_loop s n)"
proof (induction s n rule: truncate_loop.induct)
  case (2 s n)
  then show ?case by (cases "m = Suc n") auto
qed simp

text \<open>
  C16. Cutting a text keeps it well-formed: for a positive limit that the text exceeds, \<open>truncateUTF8\<close>
  returns a prefix of at most that many bytes that is valid UTF-8, and it is the longest such prefix.
\<close>

theorem truncateUTF8_longest_valid_prefix:
  assumes "0 < n" and "n < int (length s)"
  shows "prefix (truncateUTF8 s n) s \<and> int (length (truncateUTF8 s n)) \<le> n \<and> ValidString (truncateUTF8 s n) \<and>
    (\<forall>p. prefix p s \<longrightarrow> int (length p) \<le> n \<longrightarrow> ValidString p \<longrightarrow> length p \<le> length (truncateUTF8 s n))"
proof -
  have t: "truncateUTF8 s n = truncate_loop s (nat n)" using assms by (simp add: truncateUTF8_def)
  have "length p \<le> length (truncate_loop s (nat n))" if "prefix p s" "int (length p) \<le> n" "ValidString p" for p
    using truncate_loop_longest[of "length p" "nat n" s] that by (auto simp: prefix_def)
  with truncate_loop_spec[of s "nat n"] assms show ?thesis unfolding t by auto
qed

theorem truncateUTF8_longest_valid_prefix_witness:
  "truncateUTF8 [CHR ''a'', CHR 0xE4, CHR 0xB8, CHR 0xAD, CHR ''b''] 3 = ''a'' \<and> ValidString ''a''"
proof -
  let ?s = "[CHR ''a'', CHR 0xE4, CHR 0xB8, CHR 0xAD, CHR ''b'']"
  have "truncateUTF8 ?s 3 = ''a''"
    by (simp add: truncateUTF8_def eval_nat_numeral ValidString.simps rune_len_def byte_in_def Let_def)
  with truncateUTF8_longest_valid_prefix[of 3 ?s] show ?thesis by simp
qed

end
