(* ===== verification/InflightCache.thy ===== *)
theory InflightCache
  imports Complex_Main GoPrelude "HOL-Library.AList"
begin

text \<open>
  The Redis side of the in-flight balance reservations, \<open>repository/billing_inflight_cache.go\<close>: one
  sorted set of request identifiers scored by expiry and one hash of amounts per user, three Lua
  scripts and the Go methods that run them. A script is one atomic function of the database. Amounts
  are exact rationals: \<open>FormatFloat(.., -1, ..)\<close> prints a \<open>float64\<close> so that it is read back unchanged;
  the rounding of a floating-point sum is not modelled. The instants \<open>now\<close> (the Go clock passed to a
  script) and \<open>rnow\<close> (the clock of the server, which expires keys) are milliseconds.
\<close>

section \<open>Sorted sets and hashes with an expiry\<close>

type_synonym zset = "(string \<times> int) list \<times> int"
type_synonym rhash = "(string \<times> rat) list \<times> int"

record inflight_db =
  zsets :: "string \<Rightarrow> zset option"
  hashes :: "string \<Rightarrow> rhash option"

definition zmembers :: "int \<Rightarrow> inflight_db \<Rightarrow> string \<Rightarrow> (string \<times> int) list" where
  "zmembers rnow db k =
     (case zsets db k of None \<Rightarrow> [] | Some (ms, e) \<Rightarrow> if rnow < e then ms else [])"

definition hfields :: "int \<Rightarrow> inflight_db \<Rightarrow> string \<Rightarrow> (string \<times> rat) list" where
  "hfields rnow db k =
     (case hashes db k of None \<Rightarrow> [] | Some (fs, e) \<Rightarrow> if rnow < e then fs else [])"

text \<open>The rest of the life of a live key; a key that does not exist has none.\<close>

definition zpttl :: "int \<Rightarrow> inflight_db \<Rightarrow> string \<Rightarrow> int" where
  "zpttl rnow db k = (case zsets db k of None \<Rightarrow> -2 | Some (_, e) \<Rightarrow> if rnow < e then e - rnow else -2)"

definition hpttl :: "int \<Rightarrow> inflight_db \<Rightarrow> string \<Rightarrow> int" where
  "hpttl rnow db k = (case hashes db k of None \<Rightarrow> -2 | Some (_, e) \<Rightarrow> if rnow < e then e - rnow else -2)"

text \<open>Storing members: an empty collection is no key; the expiry of a live key is kept.\<close>

definition zput :: "string \<Rightarrow> (string \<times> int) list \<Rightarrow> int \<Rightarrow> inflight_db \<Rightarrow> inflight_db" where
  "zput k ms e db = db\<lparr>zsets := (zsets db)(k := if ms = [] then None else Some (ms, e))\<rparr>"

definition hput :: "string \<Rightarrow> (string \<times> rat) list \<Rightarrow> int \<Rightarrow> inflight_db \<Rightarrow> inflight_db" where
  "hput k fs e db = db\<lparr>hashes := (hashes db)(k := if fs = [] then None else Some (fs, e))\<rparr>"

definition ZREM :: "int \<Rightarrow> string \<Rightarrow> string list \<Rightarrow> inflight_db \<Rightarrow> inflight_db" where
  "ZREM rnow k xs db =
     zput k (filter (\<lambda>p. fst p \<notin> set xs) (zmembers rnow db k)) (rnow + zpttl rnow db k) db"

definition HDEL_fields :: "int \<Rightarrow> string \<Rightarrow> string list \<Rightarrow> inflight_db \<Rightarrow> inflight_db" where
  "HDEL_fields rnow k xs db =
     hput k (filter (\<lambda>p. fst p \<notin> set xs) (hfields rnow db k)) (rnow + hpttl rnow db k) db"

section \<open>The scripts\<close>

text \<open>
  \<open>reserve\<close>: the reply is the flag, the sum of the amounts and the number of reservations found after
  the expired ones were removed.
\<close>

definition reserveInflightBalanceScript ::
    "int \<Rightarrow> string \<Rightarrow> string \<Rightarrow> int \<Rightarrow> int \<Rightarrow> string \<Rightarrow> rat \<Rightarrow> rat \<Rightarrow> int \<Rightarrow> inflight_db
      \<Rightarrow> inflight_db \<times> (int \<times> rat \<times> nat)" where
  "reserveInflightBalanceScript rnow zkey hkey now expire_at member amount balance key_ttl db =
     (let expired = map fst (filter (\<lambda>p. snd p \<le> now) (zmembers rnow db zkey));
          db = (if expired \<noteq> [] then HDEL_fields rnow hkey expired (ZREM rnow zkey expired db) else db);
          inflight_sum = sum_list (map snd (hfields rnow db hkey));
          count = length (zmembers rnow db zkey)
      in if count > 0 \<and> balance - inflight_sum < amount then (db, (0, inflight_sum, count))
         else
           (let zs = AList.update member expire_at (zmembers rnow db zkey);
                hs = AList.update member amount (hfields rnow db hkey)
            in (hput hkey hs (rnow + key_ttl) (zput zkey zs (rnow + key_ttl) db), (1, inflight_sum, count))))"

definition renewInflightBalanceScript ::
    "int \<Rightarrow> string \<Rightarrow> string \<Rightarrow> string \<Rightarrow> int \<Rightarrow> int \<Rightarrow> int \<Rightarrow> inflight_db \<Rightarrow> inflight_db \<times> int" where
  "renewInflightBalanceScript rnow zkey hkey member expire_at key_ttl now db =
     (case map_of (zmembers rnow db zkey) member of
        None \<Rightarrow> (db, 0)
      | Some score \<Rightarrow>
          if score \<le> now then (HDEL_fields rnow hkey [member] (ZREM rnow zkey [member] db), 0)
          else
            (let zs = AList.update member expire_at (zmembers rnow db zkey);
                 ze = rnow + (if zpttl rnow db zkey < key_ttl then key_ttl else zpttl rnow db zkey);
                 he = rnow + (if hpttl rnow db hkey < key_ttl then key_ttl else hpttl rnow db hkey)
             in (hput hkey (hfields rnow db hkey) he (zput zkey zs ze db), 1)))"

definition releaseInflightBalanceScript :: "int \<Rightarrow> string \<Rightarrow> string \<Rightarrow> string \<Rightarrow> inflight_db \<Rightarrow> inflight_db" where
  "releaseInflightBalanceScript rnow zkey hkey member db =
     HDEL_fields rnow hkey [member] (ZREM rnow zkey [member] db)"

section \<open>The methods of the cache\<close>

definition billingInflightKeyPrefix :: string where "billingInflightKeyPrefix = ''billing:inflight:''"
definition billingInflightAmtKeyPrefix :: string where "billingInflightAmtKeyPrefix = ''billing:inflight_amt:''"

definition billingInflightKeys :: "int \<Rightarrow> string \<times> string" where
  "billingInflightKeys userID =
     (billingInflightKeyPrefix @ ''{'' @ Itoa userID @ ''}'',
      billingInflightAmtKeyPrefix @ ''{'' @ Itoa userID @ ''}'')"

definition ttl_ms :: "duration \<Rightarrow> int" where
  "ttl_ms ttl = (let ms = ttl sdiv Millisecond in if ms \<le> 0 then 1 else ms)"

text \<open>\<open>None\<close> is an error of the call to Redis; otherwise whether it was allowed, and the sum before.\<close>

definition ReserveInflightBalance ::
    "bool \<Rightarrow> int \<Rightarrow> inflight_db \<Rightarrow> int \<Rightarrow> string \<Rightarrow> rat \<Rightarrow> rat \<Rightarrow> duration \<Rightarrow> inflight_db \<times> (bool \<times> rat) option" where
  "ReserveInflightBalance redis_fails now db userID requestID amount balance ttl =
     (if redis_fails then (db, None)
      else
        let (zkey, hkey) = billingInflightKeys userID
        in case reserveInflightBalanceScript now zkey hkey now (now + ttl_ms ttl) requestID amount balance
                  (ttl_ms ttl) db of
             (db', allowed, inflight_sum, _) \<Rightarrow> (db', Some (allowed = 1, inflight_sum)))"

definition ReleaseInflightBalance :: "bool \<Rightarrow> int \<Rightarrow> inflight_db \<Rightarrow> int \<Rightarrow> string \<Rightarrow> inflight_db \<times> bool" where
  "ReleaseInflightBalance redis_fails now db userID requestID =
     (if redis_fails then (db, False)
      else let (zkey, hkey) = billingInflightKeys userID
           in (releaseInflightBalanceScript now zkey hkey requestID db, True))"

definition RenewInflightBalance ::
    "bool \<Rightarrow> int \<Rightarrow> inflight_db \<Rightarrow> int \<Rightarrow> string \<Rightarrow> duration \<Rightarrow> inflight_db \<times> bool option" where
  "RenewInflightBalance redis_fails now db userID requestID ttl =
     (if redis_fails then (db, None)
      else
        let (zkey, hkey) = billingInflightKeys userID
        in case renewInflightBalanceScript now zkey hkey requestID (now + ttl_ms ttl) (ttl_ms ttl) now db of
             (db', n) \<Rightarrow> (db', Some (n = 1)))"

lemma billingInflightKeys_inj:
  "fst (billingInflightKeys a) = fst (billingInflightKeys b) \<longleftrightarrow> a = b"
  "snd (billingInflightKeys a) = snd (billingInflightKeys b) \<longleftrightarrow> a = b"
  by (auto simp: billingInflightKeys_def) (metis option.inject parse_int_Itoa)+

section \<open>What is reserved\<close>

text \<open>The reservations of a user that have not expired, with their amounts.\<close>

definition live :: "int \<Rightarrow> inflight_db \<Rightarrow> int \<Rightarrow> (string \<times> rat) list" where
  "live now db u =
     (let (zk, hk) = billingInflightKeys u
      in filter (\<lambda>p. \<exists>e. map_of (zmembers now db zk) (fst p) = Some e \<and> now < e) (hfields now db hk))"

definition reserved :: "int \<Rightarrow> inflight_db \<Rightarrow> int \<Rightarrow> rat" where
  "reserved now db u = sum_list (map snd (live now db u))"

text \<open>
  The two keys of a user agree: the same members, the same expiry, which is not before the expiry of
  any member nor after a given instant, and positive amounts.
\<close>

definition members_wf :: "int \<Rightarrow> int \<Rightarrow> (string \<times> int) list \<Rightarrow> (string \<times> rat) list \<Rightarrow> bool" where
  "members_wf bound e ms fs \<longleftrightarrow>
     e \<le> bound \<and> distinct (map fst ms) \<and> distinct (map fst fs) \<and> set (map fst ms) = set (map fst fs) \<and>
     list_all (\<lambda>p. 0 < snd p) fs \<and> list_all (\<lambda>p. snd p \<le> e) ms"

definition pair_wf :: "int \<Rightarrow> zset option \<Rightarrow> rhash option \<Rightarrow> bool" where
  "pair_wf bound z h \<longleftrightarrow>
     z = None \<and> h = None \<or> (\<exists>ms fs e. z = Some (ms, e) \<and> h = Some (fs, e) \<and> members_wf bound e ms fs)"

definition user_wf :: "int \<Rightarrow> inflight_db \<Rightarrow> int \<Rightarrow> bool" where
  "user_wf bound db u =
     pair_wf bound (zsets db (fst (billingInflightKeys u))) (hashes db (snd (billingInflightKeys u)))"

lemma zput_sel [simp]:
  "zsets (zput k ms e db) = (zsets db)(k := if ms = [] then None else Some (ms, e))" "hashes (zput k ms e db) = hashes db"
  by (simp_all add: zput_def)

lemma hput_sel [simp]:
  "hashes (hput k fs e db) = (hashes db)(k := if fs = [] then None else Some (fs, e))" "zsets (hput k fs e db) = zsets db"
  by (simp_all add: hput_def)

lemma members_wf_filter:
  assumes "members_wf b e ms fs"
  shows "members_wf b e (filter (\<lambda>p. fst p \<notin> X) ms) (filter (\<lambda>p. fst p \<notin> X) fs)"
    and "filter (\<lambda>p. fst p \<notin> X) ms = [] \<longleftrightarrow> filter (\<lambda>p. fst p \<notin> X) fs = []"
proof -
  have st: "set (map fst (filter (\<lambda>p. fst p \<notin> X) xs)) = set (map fst xs) - X" for xs :: "(string \<times> 'x) list"
    by force
  have eq: "set (map fst ms) = set (map fst fs)" using assms by (simp add: members_wf_def)
  show "members_wf b e (filter (\<lambda>p. fst p \<notin> X) ms) (filter (\<lambda>p. fst p \<notin> X) fs)"
    using assms unfolding members_wf_def st by (simp add: distinct_map_filter list_all_iff)
  have "xs = [] \<longleftrightarrow> set (map fst xs) = {}" for xs :: "(string \<times> 'x) list" by simp
  then show "filter (\<lambda>p. fst p \<notin> X) ms = [] \<longleftrightarrow> filter (\<lambda>p. fst p \<notin> X) fs = []"
    by (metis st eq)
qed

lemma update_member: "p \<in> set (AList.update m v xs) \<Longrightarrow> snd p = v \<or> p \<in> set xs"
  by (induction xs) (auto split: if_splits)

lemma members_wf_update:
  assumes "members_wf b e ms fs" "e \<le> e'" "e' \<le> b'" "sc \<le> e'" "0 < a"
  shows "members_wf b' e' (AList.update m sc ms) (AList.update m a fs)"
proof -
  have keys: "set (map fst (AList.update m v xs)) = insert m (set (map fst xs))" for v and xs :: "(string \<times> 'x) list"
    by (auto simp: update_keys)
  have "snd p \<le> e'" if "p \<in> set (AList.update m sc ms)" for p
    using update_member[OF that] assms(1,2,4) by (auto simp: members_wf_def list_all_iff)
  moreover have "0 < snd p" if "p \<in> set (AList.update m a fs)" for p
    using update_member[OF that] assms(1,5) by (auto simp: members_wf_def list_all_iff)
  ultimately show ?thesis
    using assms(1,3) unfolding members_wf_def keys by (simp add: distinct_update list_all_iff)
qed

lemma members_wf_Nil [simp]: "e \<le> b \<Longrightarrow> members_wf b e [] []"
  by (simp add: members_wf_def)

lemma user_wf_mono: "user_wf b db u \<Longrightarrow> b \<le> b' \<Longrightarrow> user_wf b' db u"
  by (fastforce simp: user_wf_def pair_wf_def members_wf_def)

text \<open>What the scripts see of a user whose keys agree.\<close>

lemma user_view:
  assumes "user_wf b db u"
  obtains (gone) "zmembers now db (fst (billingInflightKeys u)) = []" "hfields now db (snd (billingInflightKeys u)) = []"
  | (there) e ms fs where "zmembers now db (fst (billingInflightKeys u)) = ms" "hfields now db (snd (billingInflightKeys u)) = fs"
      "zpttl now db (fst (billingInflightKeys u)) = e - now" "hpttl now db (snd (billingInflightKeys u)) = e - now"
      "now < e" "members_wf b e ms fs"
proof -
  consider "zsets db (fst (billingInflightKeys u)) = None" "hashes db (snd (billingInflightKeys u)) = None"
    | ms fs e where "zsets db (fst (billingInflightKeys u)) = Some (ms, e)" "hashes db (snd (billingInflightKeys u)) = Some (fs, e)"
      "members_wf b e ms fs"
    using assms unfolding user_wf_def pair_wf_def by (elim disjE exE conjE) auto
  then show thesis
  proof cases
    case 1
    then show thesis by (intro gone) (simp_all add: zmembers_def hfields_def)
  next
    case (2 ms fs e)
    show thesis
    proof (cases "now < e")
      case True
      with 2 show thesis by (intro there[of ms fs e]) (simp_all add: zmembers_def hfields_def zpttl_def hpttl_def)
    next
      case False
      with 2 show thesis by (intro gone) (simp_all add: zmembers_def hfields_def)
    qed
  qed
qed

text \<open>Removing members keeps the keys of the user in agreement.\<close>

definition drop_members :: "int \<Rightarrow> string list \<Rightarrow> int \<Rightarrow> inflight_db \<Rightarrow> inflight_db" where
  "drop_members now xs u db =
     HDEL_fields now (snd (billingInflightKeys u)) xs (ZREM now (fst (billingInflightKeys u)) xs db)"

lemma put_view:
  "zmembers now (zput k ms e db) k' = (if k' = k then (if now < e then ms else []) else zmembers now db k')"
  "hfields now (hput k fs e db) k' = (if k' = k then (if now < e then fs else []) else hfields now db k')"
  "zmembers now (hput k fs e db) k' = zmembers now db k'" "hfields now (zput k ms e db) k' = hfields now db k'"
  "hpttl now (zput k ms e db) k' = hpttl now db k'" "zpttl now (hput k fs e db) k' = zpttl now db k'"
  by (auto simp: zmembers_def hfields_def hpttl_def zpttl_def)

lemma drop_members_view:
  assumes "user_wf b db u"
  shows "zmembers now (drop_members now xs u db) (fst (billingInflightKeys u)) =
     filter (\<lambda>p. fst p \<notin> set xs) (zmembers now db (fst (billingInflightKeys u)))"
  and "hfields now (drop_members now xs u db) (snd (billingInflightKeys u)) =
     filter (\<lambda>p. fst p \<notin> set xs) (hfields now db (snd (billingInflightKeys u)))"
  by (rule user_view[OF assms, of now]; simp add: drop_members_def HDEL_fields_def ZREM_def put_view)+

lemma put_wf:
  assumes "ms = [] \<longleftrightarrow> fs = []" "members_wf b e ms fs"
  shows "user_wf b (hput (snd (billingInflightKeys u)) fs e (zput (fst (billingInflightKeys u)) ms e db)) u"
  using assms by (simp add: user_wf_def pair_wf_def)

lemma drop_members_wf:
  assumes "user_wf b db u"
  shows "user_wf b (drop_members now xs u db) u"
  using assms
proof (cases rule: user_view[where now = now])
  case gone
  then show ?thesis by (simp add: drop_members_def HDEL_fields_def ZREM_def put_view user_wf_def pair_wf_def)
next
  case (there e ms fs)
  note f = members_wf_filter[OF there(6), of "set xs"]
  have "drop_members now xs u db = hput (snd (billingInflightKeys u)) (filter (\<lambda>p. fst p \<notin> set xs) fs) e
      (zput (fst (billingInflightKeys u)) (filter (\<lambda>p. fst p \<notin> set xs) ms) e db)"
    using there by (simp add: drop_members_def HDEL_fields_def ZREM_def put_view)
  then show ?thesis using put_wf[OF f(2,1)] by simp
qed

section \<open>The effect of the methods\<close>

abbreviation zkey :: "int \<Rightarrow> string" where "zkey u \<equiv> fst (billingInflightKeys u)"
abbreviation hkey :: "int \<Rightarrow> string" where "hkey u \<equiv> snd (billingInflightKeys u)"

lemma live_view:
  "live now db u =
     filter (\<lambda>p. \<exists>e. map_of (zmembers now db (zkey u)) (fst p) = Some e \<and> now < e) (hfields now db (hkey u))"
  by (simp add: live_def split_def Let_def)

definition expired_members :: "int \<Rightarrow> inflight_db \<Rightarrow> int \<Rightarrow> string list" where
  "expired_members now db u = map fst (filter (\<lambda>p. snd p \<le> now) (zmembers now db (zkey u)))"

lemma expired_iff:
  assumes "distinct (map fst ms)" "k \<in> set (map fst ms)"
  shows "k \<notin> set (map fst (filter (\<lambda>p. snd p \<le> now) ms)) \<longleftrightarrow> (\<exists>e. map_of ms k = Some e \<and> now < (e :: int))"
proof -
  obtain e where e: "map_of ms k = Some e" using assms(2) by (metis map_of_eq_None_iff not_None_eq set_map)
  then have "k \<in> set (map fst (filter (\<lambda>p. snd p \<le> now) ms)) \<longleftrightarrow> e \<le> now"
  proof -
    have "k \<in> set (map fst (filter (\<lambda>p. snd p \<le> now) ms)) \<longleftrightarrow> (\<exists>e'. (k, e') \<in> set ms \<and> e' \<le> now)" by force
    also have "\<dots> \<longleftrightarrow> e \<le> now" by (simp add: map_of_eq_Some_iff[OF assms(1), symmetric] e)
    finally show ?thesis .
  qed
  with e show ?thesis by auto
qed

lemma live_is_unexpired:
  assumes "user_wf b db u"
  shows "live now db u = filter (\<lambda>p. fst p \<notin> set (expired_members now db u)) (hfields now db (hkey u))"
    and "filter (\<lambda>p. fst p \<notin> set (expired_members now db u)) (zmembers now db (zkey u)) =
         filter (\<lambda>p. now < snd p) (zmembers now db (zkey u))"
proof -
  have w: "distinct (map fst (zmembers now db (zkey u)))"
    "set (map fst (hfields now db (hkey u))) = set (map fst (zmembers now db (zkey u)))"
    by (rule user_view[OF assms, of now]; simp add: members_wf_def)+
  show "live now db u = filter (\<lambda>p. fst p \<notin> set (expired_members now db u)) (hfields now db (hkey u))"
    unfolding live_view expired_members_def
  proof (rule filter_cong[OF refl])
    fix p assume "p \<in> set (hfields now db (hkey u))"
    then have "fst p \<in> set (map fst (zmembers now db (zkey u)))" using w(2) by (metis image_eqI set_map)
    from expired_iff[OF w(1) this] show "(\<exists>e. map_of (zmembers now db (zkey u)) (fst p) = Some e \<and> now < e) =
      (fst p \<notin> set (map fst (filter (\<lambda>p. snd p \<le> now) (zmembers now db (zkey u)))))" by blast
  qed
  show "filter (\<lambda>p. fst p \<notin> set (expired_members now db u)) (zmembers now db (zkey u)) =
         filter (\<lambda>p. now < snd p) (zmembers now db (zkey u))"
    unfolding expired_members_def
  proof (rule filter_cong[OF refl])
    fix p assume p: "p \<in> set (zmembers now db (zkey u))"
    then have "fst p \<in> set (map fst (zmembers now db (zkey u)))" by simp
    moreover have "map_of (zmembers now db (zkey u)) (fst p) = Some (snd p)" using map_of_is_SomeI[OF w(1)] p by simp
    ultimately show "(fst p \<notin> set (map fst (filter (\<lambda>p. snd p \<le> now) (zmembers now db (zkey u))))) = (now < snd p)"
      using expired_iff[OF w(1)] by simp
  qed
qed

text \<open>The database after the expired reservations of a user were removed.\<close>

definition clean :: "int \<Rightarrow> int \<Rightarrow> inflight_db \<Rightarrow> inflight_db" where
  "clean now u db =
     (if expired_members now db u \<noteq> [] then drop_members now (expired_members now db u) u db else db)"

lemma clean_spec:
  assumes "user_wf b db u"
  shows "user_wf b (clean now u db) u" "hfields now (clean now u db) (hkey u) = live now db u"
    "zmembers now (clean now u db) (zkey u) = filter (\<lambda>p. now < snd p) (zmembers now db (zkey u))"
    "zmembers now (clean now u db) (zkey u) = [] \<longleftrightarrow> live now db u = []"
proof -
  show wf: "user_wf b (clean now u db) u" using assms drop_members_wf by (simp add: clean_def)
  show h: "hfields now (clean now u db) (hkey u) = live now db u"
    using live_is_unexpired(1)[OF assms, of now] drop_members_view(2)[OF assms, of now "expired_members now db u"]
    by (simp add: clean_def)
  show z: "zmembers now (clean now u db) (zkey u) = filter (\<lambda>p. now < snd p) (zmembers now db (zkey u))"
  proof (cases "expired_members now db u = []")
    case True
    then show ?thesis using live_is_unexpired(2)[OF assms, of now] by (simp add: clean_def)
  next
    case False
    then show ?thesis
      using live_is_unexpired(2)[OF assms, of now] drop_members_view(1)[OF assms, of now "expired_members now db u"]
      by (simp add: clean_def)
  qed
  show "zmembers now (clean now u db) (zkey u) = [] \<longleftrightarrow> live now db u = []"
    unfolding h [symmetric]
    by (rule user_view[OF wf, of now]) (simp_all add: members_wf_def, metis image_is_empty set_empty)
qed

lemma live_all:
  assumes "user_wf b db u" "\<forall>p \<in> set (zmembers now db (zkey u)). now < snd p"
  shows "live now db u = hfields now db (hkey u)"
proof -
  have "expired_members now db u = []" using assms(2) by (auto simp: expired_members_def filter_empty_conv)
  then show ?thesis using live_is_unexpired(1)[OF assms(1), of now] by simp
qed

lemma live_clean: "user_wf b db u \<Longrightarrow> live now (clean now u db) u = live now db u"
  using live_all[OF clean_spec(1)] clean_spec(2,3) by auto

definition enter :: "int \<Rightarrow> int \<Rightarrow> string \<Rightarrow> rat \<Rightarrow> int \<Rightarrow> inflight_db \<Rightarrow> inflight_db" where
  "enter now u rid amount T db =
     hput (hkey u) (AList.update rid amount (hfields now db (hkey u))) (now + T)
       (zput (zkey u) (AList.update rid (now + T) (zmembers now db (zkey u))) (now + T) db)"

lemma reserve_script_eq:
  "reserveInflightBalanceScript now (zkey u) (hkey u) now (now + T) rid amount balance T db =
     (if zmembers now (clean now u db) (zkey u) \<noteq> [] \<and>
         balance - sum_list (map snd (hfields now (clean now u db) (hkey u))) < amount
      then (clean now u db, (0, sum_list (map snd (hfields now (clean now u db) (hkey u))),
              length (zmembers now (clean now u db) (zkey u))))
      else (enter now u rid amount T (clean now u db),
            (1, sum_list (map snd (hfields now (clean now u db) (hkey u))), length (zmembers now (clean now u db) (zkey u)))))"
  unfolding reserveInflightBalanceScript_def Let_def clean_def expired_members_def drop_members_def enter_def
  by simp

lemma enter_spec:
  assumes "user_wf (now + T) db u" "0 < amount" "0 < T" "\<forall>p \<in> set (zmembers now db (zkey u)). now < snd p"
  shows "user_wf (now + T) (enter now u rid amount T db) u"
    "live now (enter now u rid amount T db) u = AList.update rid amount (hfields now db (hkey u))"
proof -
  have ne: "AList.update k v xs \<noteq> []" for k v and xs :: "(string \<times> 'x) list" by (cases xs) auto
  have "\<exists>e \<le> now + T. members_wf (now + T) e (zmembers now db (zkey u)) (hfields now db (hkey u))"
    by (rule user_view[OF assms(1), of now]) (auto simp: members_wf_def)
  then have "members_wf (now + T) (now + T) (AList.update rid (now + T) (zmembers now db (zkey u)))
      (AList.update rid amount (hfields now db (hkey u)))"
    using members_wf_update assms(2) by blast
  then show wf: "user_wf (now + T) (enter now u rid amount T db) u"
    unfolding enter_def by (intro put_wf) (simp_all add: ne)
  have "now < snd p" if "p \<in> set (AList.update rid (now + T) (zmembers now db (zkey u)))" for p
    using update_member[OF that] assms(3,4) by auto
  then show "live now (enter now u rid amount T db) u = AList.update rid amount (hfields now db (hkey u))"
    using live_all[OF wf, of now] assms(3) by (simp add: enter_def put_view)
qed

lemma ttl_ms_pos: "0 < ttl_ms ttl"
  by (simp add: ttl_ms_def Let_def)

lemma Reserve_spec:
  assumes wf: "user_wf (now + ttl_ms ttl) db u" and pos: "0 < amount"
    and r: "ReserveInflightBalance False now db u rid amount balance ttl = (db', r)"
  shows "r = Some (live now db u = [] \<or> amount \<le> balance - reserved now db u, reserved now db u)"
    "user_wf (now + ttl_ms ttl) db' u"
    "live now db' u = (if live now db u = [] \<or> amount \<le> balance - reserved now db u
       then AList.update rid amount (live now db u) else live now db u)"
proof -
  note c = clean_spec[OF wf, of now]
  have all: "\<forall>p \<in> set (zmembers now (clean now u db) (zkey u)). now < snd p" using c(3) by simp
  note e = enter_spec[OF c(1) pos ttl_ms_pos all, of rid]
  have r': "(db', r) = (if live now db u \<noteq> [] \<and> balance - reserved now db u < amount
      then (clean now u db, Some (False, reserved now db u))
      else (enter now u rid amount (ttl_ms ttl) (clean now u db), Some (True, reserved now db u)))"
    using r c(2,4) by (auto simp: ReserveInflightBalance_def split_def Let_def reserve_script_eq reserved_def split: if_splits)
  show "r = Some (live now db u = [] \<or> amount \<le> balance - reserved now db u, reserved now db u)"
    using r' by (auto split: if_splits)
  show "user_wf (now + ttl_ms ttl) db' u" using r' c(1) e(1) by (auto split: if_splits)
  show "live now db' u = (if live now db u = [] \<or> amount \<le> balance - reserved now db u
       then AList.update rid amount (live now db u) else live now db u)"
    using r' live_clean[OF wf] e(2) c(2) by (auto split: if_splits)
qed

lemma Release_spec:
  assumes "user_wf b db u" "ReleaseInflightBalance False now db u rid = (db', ok)"
  shows "ok" "user_wf b db' u" "live now db' u = filter (\<lambda>p. fst p \<noteq> rid) (live now db u)"
proof -
  have d: "db' = drop_members now [rid] u db" "ok"
    using assms(2) by (auto simp: ReleaseInflightBalance_def split_def Let_def releaseInflightBalanceScript_def drop_members_def)
  show "ok" by (rule d(2))
  show "user_wf b db' u" unfolding d(1) by (rule drop_members_wf[OF assms(1)])
  have "map_of (filter (\<lambda>p. fst p \<noteq> rid) ms) k = (if k = rid then None else map_of ms k)" for k and ms :: "(string \<times> int) list"
    by (induction ms) auto
  then show "live now db' u = filter (\<lambda>p. fst p \<noteq> rid) (live now db u)"
    unfolding d(1) live_view drop_members_view[OF assms(1)] by (auto intro!: filter_cong)
qed

lemma Renew_spec:
  assumes wf: "user_wf (now + ttl_ms ttl) db u" and r: "RenewInflightBalance False now db u rid ttl = (db', ok)"
  shows "ok = Some (rid \<in> fst ` set (live now db u))" "user_wf (now + ttl_ms ttl) db' u"
    "live now db' u = live now db u"
    "ok = Some True \<Longrightarrow> now \<le> n \<Longrightarrow> n < now + ttl_ms ttl \<Longrightarrow> rid \<in> fst ` set (live n db' u)"
proof -
  let ?T = "ttl_ms ttl"
  let ?ms = "zmembers now db (zkey u)" and ?fs = "hfields now db (hkey u)"
  have fm: "fst ` set ?fs = fst ` set ?ms" "distinct (map fst ?ms)"
    by (rule user_view[OF wf, of now]; simp add: members_wf_def)+
  have live_rid: "rid \<in> fst ` set (live now db u) \<longleftrightarrow> (\<exists>e. map_of ?ms rid = Some e \<and> now < e)"
  proof -
    have "rid \<in> fst ` set ?fs" if "map_of ?ms rid = Some e" for e
      using map_of_SomeD[OF that] fm(1) by force
    then show ?thesis unfolding live_view by force
  qed
  have "ok = Some (rid \<in> fst ` set (live now db u)) \<and> user_wf (now + ?T) db' u \<and> live now db' u = live now db u \<and>
    (ok = Some True \<longrightarrow> now \<le> n \<longrightarrow> n < now + ?T \<longrightarrow> rid \<in> fst ` set (live n db' u))"
  proof (cases "map_of ?ms rid")
    case None
    then show ?thesis using r wf live_rid by (auto simp: RenewInflightBalance_def split_def Let_def renewInflightBalanceScript_def)
  next
    case (Some sc)
    show ?thesis
    proof (cases "sc \<le> now")
      case True
      then have d: "db' = drop_members now [rid] u db" "ok = Some False"
        using r Some by (auto simp: RenewInflightBalance_def split_def Let_def renewInflightBalanceScript_def drop_members_def)
      have no: "rid \<notin> fst ` set (live now db u)" using live_rid Some True by simp
      have "live now db' u = filter (\<lambda>p. fst p \<noteq> rid) (live now db u)"
        using Release_spec(3)[OF wf, of now rid db' True] d(1)
        by (simp add: ReleaseInflightBalance_def split_def Let_def releaseInflightBalanceScript_def drop_members_def)
      also have "\<dots> = live now db u" using no by (intro filter_True) force
      finally show ?thesis using d no drop_members_wf[OF wf] by simp
    next
      case False
      from wf show ?thesis
      proof (cases rule: user_view[where now = now])
        case gone
        with Some show ?thesis by simp
      next
        case (there e ms fs)
        have me: "e \<le> now + ?T" using there(6) by (simp add: members_wf_def)
        let ?zs = "AList.update rid (now + ?T) ms"
        have d: "db' = hput (hkey u) fs (now + ?T) (zput (zkey u) ?zs (now + ?T) db)" "ok = Some True"
        proof -
          have e: "e = now + ?T" if "\<not> e - now < ?T" using me that by simp
          show "db' = hput (hkey u) fs (now + ?T) (zput (zkey u) ?zs (now + ?T) db)" "ok = Some True"
            by (cases "e - now < ?T"; insert r Some False there; force simp: RenewInflightBalance_def split_def Let_def
                renewInflightBalanceScript_def dest: e)+
        qed
        have rid: "rid \<in> set (map fst ms)" using Some there(1) by (metis map_of_eq_None_iff option.distinct(1) set_map)
        have keys: "set (map fst ?zs) = set (map fst ms)" using rid by (auto simp: update_keys)
        have mw: "members_wf (now + ?T) (now + ?T) ?zs fs"
          using there(6) me update_member[of _ rid "now + ?T" ms] keys
          unfolding members_wf_def by (fastforce simp: distinct_update list_all_iff)
        have "?zs \<noteq> []" by (cases ms) auto
        moreover have "fs \<noteq> []" using fm(1) rid there(1,2) by auto
        ultimately have wf': "user_wf (now + ?T) db' u" unfolding d(1) by (intro put_wf mw) simp
        have view: "zmembers m db' (zkey u) = ?zs" "hfields m db' (hkey u) = fs" if "m < now + ?T" for m
          using that by (simp_all add: d(1) put_view)
        have upd: "map_of ?zs = (map_of ms)(rid \<mapsto> now + ?T)" by (simp add: update_conv')
        have L: "live now db' u = live now db u"
          unfolding live_view view[of now, simplified, OF ttl_ms_pos] there(1,2) upd
          using Some False there(1) ttl_ms_pos[of ttl] by (auto intro!: filter_cong)
        have "rid \<in> fst ` set (live n db' u)" if "now \<le> n" "n < now + ?T"
        proof -
          have "rid \<in> fst ` set fs" using rid fm(1) there(1,2) by simp
          then show ?thesis unfolding live_view view[OF that(2)] upd using that(2) by force
        qed
        then show ?thesis using d(2) wf' L live_rid Some False by auto
      qed
    qed
  qed
  then show "ok = Some (rid \<in> fst ` set (live now db u))" "user_wf (now + ttl_ms ttl) db' u"
    "live now db' u = live now db u"
    "ok = Some True \<Longrightarrow> now \<le> n \<Longrightarrow> n < now + ttl_ms ttl \<Longrightarrow> rid \<in> fst ` set (live n db' u)" by auto
qed

end
