(* ===== verification/InflightLedger.thy ===== *)
theory InflightLedger
  imports InflightCache
begin

text \<open>
  What the in-flight reservations guarantee together: the interface the billing service relies on as
  a locale, discharged for the Redis methods, and the runs of many requests of many users on one
  database, with the passage of time, Redis failures and the settlement of bills between their calls.
\<close>

section \<open>A call touches the keys of its user only\<close>

lemma put_wf_other:
  "u' \<noteq> u \<Longrightarrow> user_wf b (hput (hkey u) fs e (zput (zkey u) ms e' db)) u' = user_wf b db u'"
  "u' \<noteq> u \<Longrightarrow> live n (hput (hkey u) fs e (zput (zkey u) ms e' db)) u' = live n db u'"
  by (simp_all add: user_wf_def live_view put_view billingInflightKeys_inj)

lemma drop_members_other:
  assumes "u' \<noteq> u"
  shows "user_wf b (drop_members now xs u db) u' = user_wf b db u'"
    "live n (drop_members now xs u db) u' = live n db u'"
  using assms put_wf_other by (simp_all add: drop_members_def HDEL_fields_def ZREM_def)

lemma clean_other:
  assumes "u' \<noteq> u"
  shows "user_wf b (clean now u db) u' = user_wf b db u'" "live n (clean now u db) u' = live n db u'"
  using drop_members_other[OF assms] by (simp_all add: clean_def)

lemma Reserve_other:
  assumes "u' \<noteq> u" "ReserveInflightBalance f now db u rid a bal ttl = (db', r)"
  shows "user_wf b db' u' = user_wf b db u'" "live n db' u' = live n db u'"
  using assms clean_other[OF assms(1)] put_wf_other[OF assms(1)]
  by (auto simp: ReserveInflightBalance_def split_def Let_def reserve_script_eq enter_def split: if_splits)

lemma Release_other:
  assumes "u' \<noteq> u" "ReleaseInflightBalance f now db u rid = (db', r)"
  shows "user_wf b db' u' = user_wf b db u'" "live n db' u' = live n db u'"
  using assms drop_members_other[OF assms(1)]
  by (auto simp: ReleaseInflightBalance_def split_def Let_def releaseInflightBalanceScript_def
      drop_members_def split: if_splits)

lemma Renew_other:
  assumes "u' \<noteq> u" "RenewInflightBalance f now db u rid ttl = (db', r)"
  shows "user_wf b db' u' = user_wf b db u'" "live n db' u' = live n db u'"
  using assms drop_members_other[OF assms(1)] put_wf_other[OF assms(1)]
  by (auto simp: RenewInflightBalance_def split_def Let_def renewInflightBalanceScript_def drop_members_def
      split: if_splits option.splits)

section \<open>Time only ends reservations\<close>

lemma live_later:
  assumes "user_wf b db u" "now \<le> n"
  shows "\<exists>P. live n db u = filter P (live now db u)"
  using assms(1)
proof (cases rule: user_view[where now = n])
  case gone
  then have "live n db u = filter (\<lambda>_. False) (live now db u)" by (simp add: live_view)
  then show ?thesis by blast
next
  case (there e ms fs)
  have same: "zmembers now db (zkey u) = ms" "hfields now db (hkey u) = fs"
    using there(1,2,5) assms(2) there(3,4)
    by (auto simp: zmembers_def hfields_def zpttl_def hpttl_def split: option.splits if_splits)
  have "live n db u = filter (\<lambda>p. \<exists>e. map_of ms (fst p) = Some e \<and> n < e) (live now db u)"
    using assms(2) unfolding live_view same there(1,2) by (auto intro!: filter_cong)
  then show ?thesis by blast
qed

lemma live_wf:
  assumes "user_wf b db u"
  shows "distinct (map fst (live n db u))" "p \<in> set (live n db u) \<Longrightarrow> 0 < snd p"
  by (rule user_view[OF assms, of n]; force simp: live_view members_wf_def list_all_iff distinct_map_filter)+

lemma sum_filter_le:
  assumes "\<And>p. p \<in> set xs \<Longrightarrow> 0 < (snd p :: rat)"
  shows "sum_list (map snd (filter P xs)) \<le> sum_list (map snd xs)"
  using assms by (induction xs) (auto intro: order.strict_implies_order add_increasing)

lemma sum_update_le:
  assumes "\<And>p. p \<in> set xs \<Longrightarrow> 0 < (snd p :: rat)"
  shows "sum_list (map snd (AList.update k v xs)) \<le> sum_list (map snd xs) + v"
  using assms
proof (induction xs)
  case (Cons p xs)
  then show ?case using Cons.prems[of p] by (cases p) (auto simp: add_increasing)
qed simp

lemma length_update_le: "length (AList.update k v xs) \<le> Suc (length xs)"
  by (induction xs) auto

section \<open>Covered reservations\<close>

text \<open>What the requests holding the reservations \<open>L\<close> may still be charged, when \<open>billed\<close> was already.\<close>

definition remaining :: "(string \<Rightarrow> rat) \<Rightarrow> (string \<times> rat) list \<Rightarrow> rat" where
  "remaining billed L = sum_list (map (\<lambda>p. snd p - billed (fst p)) L)"

text \<open>One request alone may exceed the balance; several together may not.\<close>

definition covered :: "(string \<Rightarrow> rat) \<Rightarrow> rat \<Rightarrow> (string \<times> rat) list \<Rightarrow> bool" where
  "covered billed balance L \<longleftrightarrow>
     list_all (\<lambda>p. 0 \<le> billed (fst p) \<and> billed (fst p) \<le> snd p) L \<and>
     (length L \<le> 1 \<or> remaining billed L \<le> balance)"

lemma remaining_filter:
  "list_all (\<lambda>p. billed (fst p) \<le> snd p) L \<Longrightarrow> remaining billed (filter P L) \<le> remaining billed L"
  by (induction L) (auto simp: remaining_def intro: add_increasing)

lemma remaining_sum:
  "list_all (\<lambda>p. 0 \<le> billed (fst p)) L \<Longrightarrow> remaining billed L \<le> sum_list (map snd L)"
  by (induction L) (auto simp: remaining_def)

lemma covered_filter:
  assumes "covered billed balance L"
  shows "covered billed balance (filter P L)"
proof -
  have le: "list_all (\<lambda>p. 0 \<le> billed (fst p) \<and> billed (fst p) \<le> snd p) L" using assms by (simp add: covered_def)
  then have "remaining billed (filter P L) \<le> remaining billed L"
    by (intro remaining_filter) (simp add: list_all_iff)
  then show ?thesis
    using assms le order_trans[OF length_filter_le[of P L]] by (auto simp: covered_def list_all_iff)
qed

lemma covered_update:
  assumes c: "covered billed B L" and pos: "\<And>p. p \<in> set L \<Longrightarrow> 0 < snd p" "0 < amount"
    and ok: "L = [] \<or> amount \<le> balance - sum_list (map snd L)" and d: "distinct (map fst L)"
  shows "covered (billed(rid := 0)) balance (AList.update rid amount L)"
proof -
  let ?b = "billed(rid := 0)" and ?L = "AList.update rid amount L"
  have all: "0 \<le> ?b (fst p) \<and> ?b (fst p) \<le> snd p" if p: "p \<in> set ?L" for p
  proof (cases "fst p = rid")
    case True
    then show ?thesis using update_member[OF p] pos(1)[of p] pos(2) by auto
  next
    case False
    have "map_of ?L (fst p) = Some (snd p)" using p d by (intro map_of_is_SomeI) (simp_all add: distinct_update)
    then have "p \<in> set L" using False by (cases p) (auto simp: update_conv' dest: map_of_SomeD)
    then show ?thesis using c False by (auto simp: covered_def list_all_iff)
  qed
  have "length ?L \<le> 1 \<or> remaining ?b ?L \<le> balance"
  proof (cases "L = []")
    case False
    have "remaining ?b ?L \<le> sum_list (map snd ?L)" using all by (intro remaining_sum) (simp add: list_all_iff)
    also have "\<dots> \<le> sum_list (map snd L) + amount" by (rule sum_update_le[OF pos(1)])
    finally show ?thesis using ok False by auto
  qed simp
  then show ?thesis using all by (simp add: covered_def list_all_iff)
qed

lemma remaining_charge:
  assumes "distinct (map fst L)" "map_of L rid = Some a"
  shows "remaining (billed(rid := billed rid + c)) L = remaining billed L - c"
  using assms
proof (induction L)
  case (Cons p L)
  have fr: "remaining (billed(rid := x)) L = remaining billed L" if "rid \<notin> fst ` set L" for x
    using that by (force simp: remaining_def intro!: arg_cong[where f = sum_list] map_cong)
  show ?case
  proof (cases "fst p = rid")
    case True
    then show ?thesis using Cons.prems fr by (simp add: remaining_def)
  next
    case False
    then show ?thesis using Cons by (cases p) (simp add: remaining_def)
  qed
qed simp

lemma covered_charge:
  assumes "covered billed balance L" "distinct (map fst L)" "map_of L rid = Some a" "0 \<le> c" "billed rid + c \<le> a"
  shows "covered (billed(rid := billed rid + c)) (balance - c) L"
proof -
  have "snd p = a" if "p \<in> set L" "fst p = rid" for p
    using assms(2,3) that by (metis map_of_is_SomeI option.inject prod.collapse)
  then show ?thesis
    using assms remaining_charge[OF assms(2,3)] by (auto simp: covered_def list_all_iff)
qed

lemma covered_mono: "covered billed balance L \<Longrightarrow> balance \<le> balance' \<Longrightarrow> covered billed balance' L"
  by (auto simp: covered_def)

section \<open>The interface of the reservation cache\<close>

text \<open>
  \<open>InflightBalanceReservationCache\<close> and \<open>InflightBalanceReservationRenewer\<close>: the calls of one
  deployment with time to live \<open>T\<close> milliseconds, the reservations that count at an instant, and what
  the comments of the interface promise of each call.
\<close>

locale reservation_cache =
  fixes reserve :: "bool \<Rightarrow> int \<Rightarrow> 'db \<Rightarrow> int \<Rightarrow> string \<Rightarrow> rat \<Rightarrow> rat \<Rightarrow> 'db \<times> (bool \<times> rat) option"
    and release :: "bool \<Rightarrow> int \<Rightarrow> 'db \<Rightarrow> int \<Rightarrow> string \<Rightarrow> 'db \<times> bool"
    and renew :: "bool \<Rightarrow> int \<Rightarrow> 'db \<Rightarrow> int \<Rightarrow> string \<Rightarrow> 'db \<times> bool option"
    and held :: "int \<Rightarrow> 'db \<Rightarrow> int \<Rightarrow> (string \<times> rat) list"
    and ok :: "int \<Rightarrow> 'db \<Rightarrow> bool"
  assumes ok_later: "ok now db \<Longrightarrow> now \<le> n \<Longrightarrow> ok n db"
    and held_wf: "ok now db \<Longrightarrow> distinct (map fst (held now db u))"
      "ok now db \<Longrightarrow> p \<in> set (held now db u) \<Longrightarrow> 0 < snd p"
    and held_later: "ok now db \<Longrightarrow> now \<le> n \<Longrightarrow> \<exists>P. held n db u = filter P (held now db u)"
    and reserve_fails: "reserve True now db u rid a bal = (db, None)"
    and reserve_ok: "ok now db \<Longrightarrow> 0 < a \<Longrightarrow> reserve False now db u rid a bal = (db', r) \<Longrightarrow> ok now db'"
    and reserve_reply: "ok now db \<Longrightarrow> 0 < a \<Longrightarrow> reserve False now db u rid a bal = (db', r) \<Longrightarrow>
        r = Some (held now db u = [] \<or> a \<le> bal - sum_list (map snd (held now db u)), sum_list (map snd (held now db u)))"
    and reserve_held: "ok now db \<Longrightarrow> 0 < a \<Longrightarrow> reserve False now db u rid a bal = (db', r) \<Longrightarrow>
        held now db' u' = (if u' = u \<and> (held now db u = [] \<or> a \<le> bal - sum_list (map snd (held now db u)))
          then AList.update rid a (held now db u) else held now db u')"
    and release_fails: "release True now db u rid = (db, False)"
    and release_ok: "ok now db \<Longrightarrow> release False now db u rid = (db', s) \<Longrightarrow> ok now db'"
    and release_held: "ok now db \<Longrightarrow> release False now db u rid = (db', s) \<Longrightarrow>
        held now db' u' = (if u' = u then filter (\<lambda>p. fst p \<noteq> rid) (held now db u) else held now db u')"
    and renew_fails: "renew True now db u rid = (db, None)"
    and renew_ok: "ok now db \<Longrightarrow> renew False now db u rid = (db', t) \<Longrightarrow> ok now db'"
    and renew_held: "ok now db \<Longrightarrow> renew False now db u rid = (db', t) \<Longrightarrow> held now db' u' = held now db u'"
begin

lemma ok_calls:
  assumes "ok now db"
  shows "0 < a \<Longrightarrow> ok now (fst (reserve f now db u rid a bal))"
    "ok now (fst (release f now db u rid))" "ok now (fst (renew f now db u rid))"
  using assms reserve_fails release_fails renew_fails
  by (cases f; metis fst_conv prod.collapse reserve_ok release_ok renew_ok)+

lemma later_covered:
  assumes "ok now db" "now \<le> n" "covered b B (held now db u)"
  shows "covered b B (held n db u)"
  using held_later[OF assms(1,2), of u] covered_filter[OF assms(3)] by metis

lemma release_covered:
  assumes "ok now db" "covered b B (held now db u')"
  shows "covered b B (held now (fst (release f now db u rid)) u')"
  using assms release_fails release_held[OF assms(1) surjective_pairing, of u rid u'] covered_filter
  by (cases f) auto

lemma renew_covered:
  assumes "ok now db" "covered b B (held now db u')"
  shows "covered b B (held now (fst (renew f now db u rid)) u')"
  using assms renew_fails renew_held[OF assms(1) surjective_pairing, of u rid u'] by (cases f) auto

text \<open>
  Every reply of a reservation keeps every user covered; an admission starts a bill of its own, and from then on what is
  held is covered by the balance \<open>bal\<close> the request had read.
\<close>

lemma reserve_covered:
  assumes ok: "ok now db" and pos: "0 < a" and c: "covered (b u') B (held now db u')"
    and r: "reserve f now db u rid a bal = (db', r)"
  shows "covered ((if \<exists>s. r = Some (True, s) then b(u := (b u)(rid := 0)) else b) u')
    (if u' = u \<and> (\<exists>s. r = Some (True, s)) then bal else B) (held now db' u')"
proof (cases f)
  case True
  then show ?thesis using r c reserve_fails by simp
next
  case False
  then have r': "reserve False now db u rid a bal = (db', r)" using r by simp
  note reply = reserve_reply[OF ok pos r'] and new = reserve_held[OF ok pos r', of u']
  let ?adm = "held now db u = [] \<or> a \<le> bal - sum_list (map snd (held now db u))"
  show ?thesis
  proof (cases "u' = u \<and> ?adm")
    case True
    then show ?thesis
      using covered_update[where rid = rid, OF c held_wf(2)[OF ok] pos] held_wf(1)[OF ok] reply new by auto
  next
    case False
    then show ?thesis using c new reply by auto
  qed
qed

end

section \<open>The Redis methods provide it\<close>

definition cache_ok :: "duration \<Rightarrow> int \<Rightarrow> inflight_db \<Rightarrow> bool" where
  "cache_ok ttl now db \<longleftrightarrow> (\<forall>u. user_wf (now + ttl_ms ttl) db u)"

interpretation redis_cache: reservation_cache
  "\<lambda>f now db u rid a bal. ReserveInflightBalance f now db u rid a bal ttl"
  ReleaseInflightBalance "\<lambda>f now db u rid. RenewInflightBalance f now db u rid ttl" live "cache_ok ttl"
  for ttl
proof (unfold_locales, goal_cases)
  case (1 now db n)
  then show ?case by (auto simp: cache_ok_def intro: user_wf_mono)
next
  case (2 now db u)
  then show ?case using live_wf(1) by (simp add: cache_ok_def) blast
next
  case (3 now db p u)
  then show ?case using live_wf(2) by (simp add: cache_ok_def) blast
next
  case (4 now db n u)
  then show ?case using live_later by (simp add: cache_ok_def) blast
next
  case (5 now db u rid a bal)
  show ?case by (simp add: ReserveInflightBalance_def)
next
  case (6 now db a u rid bal db' r)
  have "user_wf (now + ttl_ms ttl) db' u'" for u'
    using 6 Reserve_spec(2)[OF _ 6(2,3)] Reserve_other(1)[OF _ 6(3)] by (cases "u' = u") (auto simp: cache_ok_def)
  then show ?case by (simp add: cache_ok_def)
next
  case (7 now db a u rid bal db' r)
  then show ?case using Reserve_spec(1)[OF _ 7(2,3)] by (simp add: cache_ok_def reserved_def)
next
  case (8 now db a u rid bal db' r u')
  then show ?case
    using Reserve_spec(3)[OF _ 8(2,3)] Reserve_other(2)[OF _ 8(3)]
    by (cases "u' = u") (simp_all add: cache_ok_def reserved_def)
next
  case (9 now db u rid)
  show ?case by (simp add: ReleaseInflightBalance_def)
next
  case (10 now db u rid db' s)
  have "user_wf (now + ttl_ms ttl) db' u'" for u'
    using 10 Release_spec(2)[OF _ 10(2)] Release_other(1)[OF _ 10(2)] by (cases "u' = u") (auto simp: cache_ok_def)
  then show ?case by (simp add: cache_ok_def)
next
  case (11 now db u rid db' s u')
  then show ?case using Release_spec(3)[OF _ 11(2)] Release_other(2)[OF _ 11(2)] by (auto simp: cache_ok_def)
next
  case (12 now db u rid)
  show ?case by (simp add: RenewInflightBalance_def)
next
  case (13 now db u rid db' t)
  have "user_wf (now + ttl_ms ttl) db' u'" for u'
    using 13 Renew_spec(2)[OF _ 13(2)] Renew_other(1)[OF _ 13(2)] by (cases "u' = u") (auto simp: cache_ok_def)
  then show ?case by (simp add: cache_ok_def)
next
  case (14 now db u rid db' t u')
  then show ?case
    using Renew_spec(3)[OF _ 14(2)] Renew_other(2)[OF _ 14(2)] by (cases "u' = u") (auto simp: cache_ok_def)
qed

section \<open>Runs of many requests\<close>

text \<open>
  The balances of the users and, per user and request, what was charged of its reservation. A request reads the balance
  before it runs the script, from a cache: \<open>bal\<close> is whatever it read, current or not. A charge is any amount at any time,
  for a request that holds a reservation or not. Top-ups raise a balance. The ledger \<open>gap\<close> of a user counts what no
  reservation accounts for: by how much the balance read for the latest admission was above the balance at that moment,
  and what was charged since beyond the reservations.
  A reservation whose reply is lost, so that the request goes on without a handle, is the same step: the script ran.
\<close>

record inflight_run =
  clock :: int
  store :: inflight_db
  balances :: "int \<Rightarrow> rat"
  billed :: "int \<Rightarrow> string \<Rightarrow> rat"
  gap :: "int \<Rightarrow> rat"

definition within_hold :: "inflight_run \<Rightarrow> int \<Rightarrow> string \<Rightarrow> rat \<Rightarrow> rat" where
  "within_hold s u rid cost =
     (case map_of (live (clock s) (store s) u) rid of
        None \<Rightarrow> 0
      | Some amount \<Rightarrow> min cost (amount - billed s u rid))"

inductive inflight_step :: "duration \<Rightarrow> inflight_run \<Rightarrow> inflight_run \<Rightarrow> bool" for ttl where
  reserve: "0 < amount \<Longrightarrow>
    ReserveInflightBalance fails (clock s) (store s) u rid amount bal ttl = (db', r) \<Longrightarrow>
    inflight_step ttl s (s\<lparr>store := db',
      billed := if \<exists>x. r = Some (True, x) then (billed s)(u := (billed s u)(rid := 0)) else billed s,
      gap := if \<exists>x. r = Some (True, x) then (gap s)(u := max 0 (bal - balances s u)) else gap s\<rparr>)"
| renew: "inflight_step ttl s (s\<lparr>store := fst (RenewInflightBalance fails (clock s) (store s) u rid ttl)\<rparr>)"
| release: "inflight_step ttl s (s\<lparr>store := fst (ReleaseInflightBalance fails (clock s) (store s) u rid)\<rparr>)"
| tick: "clock s \<le> n \<Longrightarrow> inflight_step ttl s (s\<lparr>clock := n\<rparr>)"
| top_up: "0 \<le> x \<Longrightarrow> inflight_step ttl s (s\<lparr>balances := (balances s)(u := balances s u + x)\<rparr>)"
| charge: "0 \<le> cost \<Longrightarrow> w = within_hold s u rid cost \<Longrightarrow>
    inflight_step ttl s (s\<lparr>balances := (balances s)(u := balances s u - cost),
      billed := (billed s)(u := (billed s u)(rid := billed s u rid + w)),
      gap := (gap s)(u := gap s u + (cost - w))\<rparr>)"

inductive inflight_reach :: "duration \<Rightarrow> inflight_run \<Rightarrow> bool" for ttl where
  start: "zsets (store s) = (\<lambda>_. None) \<Longrightarrow> hashes (store s) = (\<lambda>_. None) \<Longrightarrow> inflight_reach ttl s"
| step: "inflight_reach ttl s \<Longrightarrow> inflight_step ttl s s' \<Longrightarrow> inflight_reach ttl s'"

definition run_ok :: "duration \<Rightarrow> inflight_run \<Rightarrow> bool" where
  "run_ok ttl s \<longleftrightarrow> cache_ok ttl (clock s) (store s) \<and>
     (\<forall>u. covered (billed s u) (balances s u + gap s u) (live (clock s) (store s) u))"

lemma within_hold_le: "within_hold s u rid cost \<le> cost \<or> map_of (live (clock s) (store s) u) rid = None"
  by (simp add: within_hold_def split: option.split)

lemma run_ok_step: "inflight_step ttl s s' \<Longrightarrow> run_ok ttl s \<Longrightarrow> run_ok ttl s'"
proof (induction rule: inflight_step.induct)
  case (reserve amount fails s u rid bal db' r)
  then have ok: "cache_ok ttl (clock s) (store s)" by (simp add: run_ok_def)
  let ?adm = "\<exists>x. r = Some (True, x)"
  have "covered ((if ?adm then (billed s)(u := (billed s u)(rid := 0)) else billed s) u')
      (balances s u' + (if ?adm then (gap s)(u := max 0 (bal - balances s u)) else gap s) u') (live (clock s) db' u')" for u'
  proof -
    have "covered (billed s u') (balances s u' + gap s u') (live (clock s) (store s) u')"
      using reserve.prems by (simp add: run_ok_def)
    from redis_cache.reserve_covered[where b = "billed s" and rid = rid, OF ok reserve(1) this reserve(2)]
    show ?thesis by (rule covered_mono) (auto simp: max_def)
  qed
  then show ?case
    using redis_cache.ok_calls(1)[OF ok reserve(1), of fails u rid bal] reserve(2) by (simp add: run_ok_def)
next
  case (renew s fails u rid)
  then show ?case using redis_cache.ok_calls(3) redis_cache.renew_covered by (simp add: run_ok_def)
next
  case (release s fails u rid)
  then show ?case using redis_cache.ok_calls(2) redis_cache.release_covered by (simp add: run_ok_def) blast
next
  case (tick s n)
  then show ?case using redis_cache.ok_later redis_cache.later_covered by (simp add: run_ok_def) blast
next
  case (top_up x s u)
  then show ?case by (auto simp: run_ok_def intro: covered_mono)
next
  case (charge cost w s u rid)
  then have ok: "cache_ok ttl (clock s) (store s)" by (simp add: run_ok_def)
  let ?L = "live (clock s) (store s) u"
  have c: "covered (billed s u) (balances s u + gap s u) ?L" using charge.prems by (simp add: run_ok_def)
  have "covered ((billed s u)(rid := billed s u rid + w)) (balances s u + gap s u - w) ?L"
  proof (cases "map_of ?L rid")
    case None
    then have "w = 0" using charge(2) by (simp add: within_hold_def)
    then show ?thesis using c by (simp add: fun_upd_idem)
  next
    case (Some amount)
    then have w: "w = min cost (amount - billed s u rid)" using charge(2) by (simp add: within_hold_def)
    have "billed s u rid \<le> amount" using c map_of_SomeD[OF Some] by (auto simp: covered_def list_all_iff)
    then show ?thesis
      using covered_charge[OF c redis_cache.held_wf(1)[OF ok] Some, of w] charge(1) by (simp add: w min_def)
  qed
  then show ?case using charge by (auto simp: run_ok_def algebra_simps)
qed

lemma run_ok_reach: "inflight_reach ttl s \<Longrightarrow> run_ok ttl s"
proof (induction rule: inflight_reach.induct)
  case (start s)
  then show ?case
    by (simp add: run_ok_def cache_ok_def user_wf_def pair_wf_def live_view hfields_def covered_def)
qed (rule run_ok_step)

section \<open>Properties\<close>

lemma reach_user_wf: "inflight_reach ttl s \<Longrightarrow> user_wf (clock s + ttl_ms ttl) (store s) u"
  using run_ok_reach by (simp add: run_ok_def cache_ok_def)

lemma enter_until:
  "rid \<in> fst ` set (live n (enter now u rid a T db) u) \<longleftrightarrow> n < now + T"
proof -
  have "map_of (AList.update rid a (hfields now db (hkey u))) rid = Some a" by (simp add: update_conv')
  then have "(rid, a) \<in> set (AList.update rid a (hfields now db (hkey u)))" by (rule map_of_SomeD)
  then show ?thesis
    by (auto simp: enter_def live_view put_view update_conv' intro!: image_eqI[where x = "(rid, _)"])
qed

lemma Reserve_until:
  assumes "ReserveInflightBalance False now db u rid a bal ttl = (db', Some (True, x))"
  shows "rid \<in> fst ` set (live n db' u) \<longleftrightarrow> n < now + ttl_ms ttl"
proof -
  have "db' = enter now u rid a (ttl_ms ttl) (clean now u db)"
    using assms by (auto simp: ReserveInflightBalance_def split_def Let_def reserve_script_eq split: if_splits)
  then show ?thesis using enter_until by simp
qed

text \<open>
  C17. However the calls of many requests of many users interleave, with lost Redis calls, stale balances, top-ups and
  charges of any amount between them: while two or more reservations of a user are held, all that their requests may
  still be charged is covered by the balance of the user, but for the \<open>gap\<close>: what the latest admission had read above the
  balance of that moment, and what was charged since beyond the reservations. With a current balance and charges within
  their reservations the gap is zero and charging every request in full leaves the balance non-negative.
\<close>

theorem reservations_never_overdraw:
  assumes "inflight_reach ttl s" "2 \<le> length (live (clock s) (store s) u)"
  shows "remaining (billed s u) (live (clock s) (store s) u) \<le> balances s u + gap s u"
  using run_ok_reach[OF assms(1)] assms(2) by (force simp: run_ok_def covered_def)

text \<open>
  C21. In every reachable state a reservation of a positive amount is admitted exactly when the user
  holds none or the balance less what is held covers it; the reply carries what was held; an admitted
  one is held until its time to live is over and not longer; no other user is affected.
\<close>

theorem reserve_admits_exactly:
  assumes "inflight_reach ttl s" "0 < amount"
    and "ReserveInflightBalance False (clock s) (store s) u rid amount balance ttl = (db', r)"
  shows "r = Some (live (clock s) (store s) u = [] \<or> amount \<le> balance - reserved (clock s) (store s) u,
      reserved (clock s) (store s) u) \<and>
    (r = Some (True, x) \<longrightarrow> rid \<in> fst ` set (live n db' u) \<longleftrightarrow> n < clock s + ttl_ms ttl) \<and>
    (u' \<noteq> u \<longrightarrow> live n db' u' = live n (store s) u')"
  using Reserve_spec(1)[OF reach_user_wf[OF assms(1)] assms(2,3)] Reserve_until Reserve_other(2)[OF _ assms(3)] assms(3)
  by blast

text \<open>
  A renewal succeeds exactly when the reservation is still held, keeps what every user holds, and
  then holds it for a whole time to live from now on: an expired reservation is never revived. A
  release ends that reservation only.
\<close>

theorem renew_extends_held_only:
  assumes "inflight_reach ttl s"
    and "RenewInflightBalance False (clock s) (store s) u rid ttl = (db', alive)"
    and "ReleaseInflightBalance False (clock s) (store s) u rid = (db'', done)"
  shows "alive = Some (rid \<in> fst ` set (live (clock s) (store s) u)) \<and>
    (\<forall>u'. live (clock s) db' u' = live (clock s) (store s) u') \<and>
    (alive = Some True \<longrightarrow> clock s \<le> n \<longrightarrow> n < clock s + ttl_ms ttl \<longrightarrow> rid \<in> fst ` set (live n db' u)) \<and>
    (\<forall>u'. live (clock s) db'' u' =
      (if u' = u then filter (\<lambda>p. fst p \<noteq> rid) (live (clock s) (store s) u) else live (clock s) (store s) u'))"
proof (intro conjI allI impI)
  note wf = reach_user_wf[OF assms(1), of u]
  note spec = Renew_spec[OF wf assms(2)]
  show "alive = Some (rid \<in> fst ` set (live (clock s) (store s) u))" by (rule spec(1))
  show "live (clock s) db' u' = live (clock s) (store s) u'" for u'
    using spec(3) Renew_other(2)[OF _ assms(2)] by (cases "u' = u") auto
  show "rid \<in> fst ` set (live n db' u)"
    if "alive = Some True" "clock s \<le> n" "n < clock s + ttl_ms ttl" using spec(4) that by blast
  show "live (clock s) db'' u' =
      (if u' = u then filter (\<lambda>p. fst p \<noteq> rid) (live (clock s) (store s) u) else live (clock s) (store s) u')" for u'
    using Release_spec(3)[OF wf assms(3)] Release_other(2)[OF _ assms(3)] by auto
qed

section \<open>Witnesses\<close>

definition empty_run :: inflight_run where
  "empty_run = \<lparr>clock = 0, store = \<lparr>zsets = (\<lambda>_. None), hashes = (\<lambda>_. None)\<rparr>,
     balances = (\<lambda>_. 10), billed = (\<lambda>_ _. 0), gap = (\<lambda>_. 0)\<rparr>"

lemma empty_run_sel [simp]: "clock empty_run = 0" "balances empty_run u = 10" "billed empty_run u rid = 0" "gap empty_run u = 0"
  by (simp_all add: empty_run_def)

lemma empty_run_reach: "inflight_reach ttl empty_run"
  by (rule inflight_reach.start) (simp_all add: empty_run_def)

lemma empty_run_live [simp]: "live n (store empty_run) u = []"
  by (simp add: empty_run_def live_view hfields_def)

text \<open>User 1, with a balance of 10, holds a first reservation of 3 and then a second of 4.\<close>

lemma one_reserved:
  obtains s where "inflight_reach ttl s" "clock s = 0" "balances s = (\<lambda>_. 10)" "billed s 1 = (\<lambda>_. 0)"
    "live 0 (store s) 1 = [(''a'', 3)]"
proof -
  obtain db r where r: "ReserveInflightBalance False 0 (store empty_run) 1 ''a'' 3 10 ttl = (db, r)" by fastforce
  note wf = reach_user_wf[OF empty_run_reach, of ttl 1, unfolded empty_run_sel]
  note spec = Reserve_spec[OF wf _ r]
  let ?s = "empty_run\<lparr>store := db, billed := if \<exists>x. r = Some (True, x) then (billed empty_run)(1 := (billed empty_run 1)(''a'' := 0))
      else billed empty_run, gap := if \<exists>x. r = Some (True, x) then (gap empty_run)(1 := max 0 (10 - balances empty_run 1)) else gap empty_run\<rparr>"
  have "inflight_reach ttl ?s"
    using inflight_reach.step[OF empty_run_reach] inflight_step.reserve[of 3 False empty_run 1 "''a''" 10 ttl db r] r by simp
  then show thesis
    using that[of ?s] spec(3) by (simp add: fun_eq_iff)
qed

lemma two_reserved:
  obtains s where "inflight_reach ttl s" "clock s = 0" "balances s = (\<lambda>_. 10)" "billed s 1 = (\<lambda>_. 0)"
    "live 0 (store s) 1 = [(''a'', 3), (''b'', 4)]"
proof -
  obtain s where s: "inflight_reach ttl s" "clock s = 0" "balances s = (\<lambda>_. 10)" "billed s 1 = (\<lambda>_. 0)"
    "live 0 (store s) 1 = [(''a'', 3)]" by (rule one_reserved)
  obtain db r where r: "ReserveInflightBalance False 0 (store s) 1 ''b'' 4 10 ttl = (db, r)" by fastforce
  note spec = Reserve_spec[OF reach_user_wf[OF s(1), of 1, unfolded s(2)] _ r]
  let ?s = "s\<lparr>store := db, billed := if \<exists>x. r = Some (True, x) then (billed s)(1 := (billed s 1)(''b'' := 0)) else billed s,
      gap := if \<exists>x. r = Some (True, x) then (gap s)(1 := max 0 (10 - balances s 1)) else gap s\<rparr>"
  have "inflight_reach ttl ?s"
    using inflight_reach.step[OF s(1)] inflight_step.reserve[of 4 False s 1 "''b''" 10 ttl db r] r s(2,3) by simp
  then show thesis using that[of ?s] spec(3) s by (simp add: reserved_def fun_eq_iff)
qed

text \<open>
  User 1 holds a reservation of 3, is charged 4 by a request without a reservation, and a request that still reads the
  balance of 10 reserves 7: the two hold 10 against a balance of 6, and the gap is 4.
\<close>

lemma stale_reserved:
  obtains s where "inflight_reach ttl s" "clock s = 0" "balances s 1 = 6" "billed s 1 = (\<lambda>_. 0)" "gap s 1 = 4"
    "live 0 (store s) 1 = [(''a'', 3), (''b'', 7)]"
proof -
  obtain s0 where s0: "inflight_reach ttl s0" "clock s0 = 0" "balances s0 = (\<lambda>_. 10)" "billed s0 1 = (\<lambda>_. 0)"
    "live 0 (store s0) 1 = [(''a'', 3)]" by (rule one_reserved)
  let ?s = "s0\<lparr>balances := (balances s0)(1 := balances s0 1 - 4), billed := (billed s0)(1 := (billed s0 1)(''x'' := billed s0 1 ''x'' + 0)),
      gap := (gap s0)(1 := gap s0 1 + (4 - 0))\<rparr>"
  have "inflight_step ttl s0 ?s" by (rule inflight_step.charge) (simp_all add: within_hold_def s0(2,5))
  then have s: "inflight_reach ttl ?s" by (rule inflight_reach.step[OF s0(1)])
  have f: "clock ?s = 0" "balances ?s 1 = 6" "billed ?s 1 = (\<lambda>_. 0)" "live 0 (store ?s) 1 = [(''a'', 3)]"
    using s0 by (auto simp: fun_eq_iff)
  obtain db r where r: "ReserveInflightBalance False 0 (store ?s) 1 ''b'' 7 10 ttl = (db, r)" by fastforce
  note spec = Reserve_spec[OF reach_user_wf[OF s, of 1, unfolded f(1)] _ r]
  have adm: "r = Some (True, 3)" "live 0 db 1 = [(''a'', 3), (''b'', 7)]" using spec(1,3) f(4) by (simp_all add: reserved_def)
  let ?t = "?s\<lparr>store := db, billed := (billed ?s)(1 := (billed ?s 1)(''b'' := 0)), gap := (gap ?s)(1 := max 0 (10 - balances ?s 1))\<rparr>"
  have "inflight_step ttl ?s ?t"
    using inflight_step.reserve[of 7 False ?s 1 "''b''" 10 ttl db r] r f(1) adm(1) by simp
  then have "inflight_reach ttl ?t" by (rule inflight_reach.step[OF s])
  moreover have "clock ?t = 0" "balances ?t 1 = 6" "billed ?t 1 = (\<lambda>_. 0)" "gap ?t 1 = 4" "live 0 (store ?t) 1 = [(''a'', 3), (''b'', 7)]"
    using f adm s0(4) by (auto simp: fun_eq_iff s0(3))
  ultimately show thesis by (rule that)
qed

theorem reservations_never_overdraw_witness:
  "\<exists>s. inflight_reach Minute s \<and> length (live (clock s) (store s) 1) = 2 \<and>
     remaining (billed s 1) (live (clock s) (store s) 1) = 10 \<and> balances s 1 = 6 \<and> gap s 1 = 4 \<and>
     remaining (billed s 1) (live (clock s) (store s) 1) \<le> balances s 1 + gap s 1"
proof -
  obtain s where s: "inflight_reach Minute s" "clock s = 0" "balances s 1 = 6" "billed s 1 = (\<lambda>_. 0)" "gap s 1 = 4"
    "live 0 (store s) 1 = [(''a'', 3), (''b'', 7)]" by (rule stale_reserved)
  then show ?thesis using reservations_never_overdraw[OF s(1), of 1] by (intro exI[of _ s]) (simp add: remaining_def)
qed

theorem reserve_admits_exactly_witness:
  "\<exists>s db db' x. inflight_reach Minute s \<and>
     ReserveInflightBalance False (clock s) (store s) 1 ''c'' 4 10 Minute = (db, Some (False, 7)) \<and>
     ReserveInflightBalance False (clock s) (store s) 1 ''c'' 3 10 Minute = (db', Some (True, x)) \<and>
     ''c'' \<in> fst ` set (live 59999 db' 1) \<and> ''c'' \<notin> fst ` set (live 60000 db' 1)"
proof -
  obtain s where s: "inflight_reach Minute s" "clock s = 0" "balances s = (\<lambda>_. 10)" "billed s 1 = (\<lambda>_. 0)"
    "live 0 (store s) 1 = [(''a'', 3), (''b'', 4)]" by (rule two_reserved)
  obtain db r where r: "ReserveInflightBalance False (clock s) (store s) 1 ''c'' 4 10 Minute = (db, r)" by fastforce
  obtain db' r' where r': "ReserveInflightBalance False (clock s) (store s) 1 ''c'' 3 10 Minute = (db', r')" by fastforce
  have T: "ttl_ms Minute = 60000" by (simp add: ttl_ms_def go_def)
  have "r = Some (False, 7)" using reserve_admits_exactly[OF s(1) _ r] s(2,5) by (simp add: reserved_def)
  moreover have "r' = Some (True, 7)" "\<And>n. ''c'' \<in> fst ` set (live n db' 1) \<longleftrightarrow> n < 60000"
    using reserve_admits_exactly[OF s(1) _ r', of 7] s(2,5) T by (simp_all add: reserved_def)
  ultimately show ?thesis using s(1) r r' by (intro exI[of _ s] exI[of _ db] exI[of _ db'] exI[of _ 7]) simp
qed

theorem renew_extends_held_only_witness:
  "\<exists>s db db'. inflight_reach Minute s \<and>
     RenewInflightBalance False (clock s) (store s) 1 ''a'' Minute = (db, Some True) \<and>
     ''a'' \<in> fst ` set (live 59999 db 1) \<and>
     ReleaseInflightBalance False (clock s) (store s) 1 ''a'' = (db', True) \<and>
     live (clock s) db' 1 = [(''b'', 4)]"
proof -
  obtain s where s: "inflight_reach Minute s" "clock s = 0" "balances s = (\<lambda>_. 10)" "billed s 1 = (\<lambda>_. 0)"
    "live 0 (store s) 1 = [(''a'', 3), (''b'', 4)]" by (rule two_reserved)
  obtain db alive where r: "RenewInflightBalance False (clock s) (store s) 1 ''a'' Minute = (db, alive)" by fastforce
  obtain db' ok where l: "ReleaseInflightBalance False (clock s) (store s) 1 ''a'' = (db', ok)" by fastforce
  have "ok" using l by (auto simp: ReleaseInflightBalance_def split_def Let_def)
  then show ?thesis
    using s(1,2,5) r l renew_extends_held_only[OF s(1) r l, of 59999]
    by (intro exI[of _ s] exI[of _ db] exI[of _ db']) (simp add: ttl_ms_def go_def)
qed

end
