(* ===== verification/InflightHandle.thy ===== *)
theory InflightHandle
  imports GoPrelude
begin

text \<open>
  The life of one reservation handle, \<open>InflightReservation\<close> of \<open>service/billing_inflight_reservation.go\<close>:
  a reference count shared by the handler, the billing tasks and callers of \<open>Release\<close>, each a thread
  that takes one atomic operation at a time, and the goroutine that renews the reservation.
\<close>

section \<open>State\<close>

text \<open>
  The threads. The handler owns the first reference; a task asks for one with \<open>Acquire\<close> and returns
  it through the closure it got; a direct caller runs \<open>Release\<close>.
\<close>

datatype actor = Handler | Task nat | Direct nat

text \<open>
  Where a thread stands: before its call, in \<open>Acquire\<close> between load and compare-and-swap, in \<open>Acquire\<close> after a
  compare-and-swap that failed, about to load again, owning a reference, in \<open>HandlerDone\<close> waiting for the renewal goroutine, in \<open>Release\<close> before closing the
  channel, waiting for the goroutine, in the cache call inside \<open>releaseOnce\<close>, or returned.
\<close>

datatype pc = Idle | Loaded int | Retrying | Holding | StopWait | RelClose | RelWait | Calling | Finished

datatype renewal = NotStarted | Running | Stopped

record handle =
  refs :: int
  releaseOnce :: bool
  closed :: bool
  renewing :: renewal
  pcs :: "actor \<Rightarrow> pc"
  calls :: nat

definition goto :: "actor \<Rightarrow> pc \<Rightarrow> handle \<Rightarrow> handle" where
  "goto a p h = h\<lparr>pcs := (pcs h)(a := p)\<rparr>"

text \<open>What \<open>reserveInflight\<close> returns: one reference, and the goroutine when it renews.\<close>

definition new_handle :: "bool \<Rightarrow> handle" where
  "new_handle renew = \<lparr>refs = 1, releaseOnce = False, closed = False,
     renewing = (if renew then Running else NotStarted),
     pcs = (\<lambda>a. if a = Handler then Holding else Idle), calls = 0\<rparr>"

section \<open>The atomic operations\<close>

text \<open>\<open>Acquire\<close>: load; give up when no reference is left; compare and swap, else the loop loads again.\<close>

definition acquire_load :: "actor \<Rightarrow> handle \<Rightarrow> handle" where
  "acquire_load a h = (if refs h \<le> 0 then goto a Finished h else goto a (Loaded (refs h)) h)"

definition acquire_cas :: "actor \<Rightarrow> int \<Rightarrow> handle \<Rightarrow> handle" where
  "acquire_cas a cur h =
     (if refs h = cur then goto a Holding (h\<lparr>refs := cur + 1\<rparr>) else goto a Retrying h)"

definition decRef :: "actor \<Rightarrow> handle \<Rightarrow> handle" where
  "decRef a h =
     (let h = h\<lparr>refs := refs h - 1\<rparr>
      in if refs h \<le> 0 then goto a RelClose h else goto a Finished h)"

text \<open>\<open>stopRenewal\<close> without a goroutine returns at once, as does the wait for one that ended.\<close>

definition stopRenewal_close :: "actor \<Rightarrow> pc \<Rightarrow> handle \<Rightarrow> handle" where
  "stopRenewal_close a next h =
     goto a next (if renewing h = NotStarted then h else h\<lparr>closed := True\<rparr>)"

text \<open>\<open>releaseOnce.Do\<close>: the first caller clears the count and calls the cache, the others do nothing.\<close>

definition Release_once :: "actor \<Rightarrow> handle \<Rightarrow> handle" where
  "Release_once a h =
     (if releaseOnce h then goto a Finished h
      else goto a Calling (h\<lparr>releaseOnce := True, refs := 0\<rparr>))"

definition Release_call :: "actor \<Rightarrow> handle \<Rightarrow> handle" where
  "Release_call a h = goto a Finished (h\<lparr>calls := calls h + 1\<rparr>)"

text \<open>
  One round of the renewal goroutine when the ticker fires: an error keeps it running, a reservation
  that is gone ends it.
\<close>

definition renew_round :: "bool option \<Rightarrow> handle \<Rightarrow> handle" where
  "renew_round alive h = (if alive = Some False then h\<lparr>renewing := Stopped\<rparr> else h)"

text \<open>The ticker of \<open>startRenewal\<close>: a third of the time to live, at least ten milliseconds.\<close>

definition startRenewal_interval :: "duration \<Rightarrow> duration" where
  "startRenewal_interval ttl =
     (let interval = ttl sdiv 3 in if interval < 10 * Millisecond then 10 * Millisecond else interval)"

text \<open>
  A caller of a \<open>Once\<close> that another thread is in waits for it, so it passes \<open>releaseOnce\<close> only when
  no call is under way. Both cases of the \<open>select\<close> may be taken when the channel is closed while the
  ticker fires.
\<close>

inductive handle_step :: "handle \<Rightarrow> handle \<Rightarrow> bool" where
  acquire_load: "pcs h (Task t) = Idle \<or> pcs h (Task t) = Retrying \<Longrightarrow> handle_step h (acquire_load (Task t) h)"
| acquire_cas: "pcs h (Task t) = Loaded cur \<Longrightarrow> handle_step h (acquire_cas (Task t) cur h)"
| task_done: "pcs h (Task t) = Holding \<Longrightarrow> handle_step h (decRef (Task t) h)"
| HandlerDone: "pcs h Handler = Holding \<Longrightarrow> handle_step h (stopRenewal_close Handler StopWait h)"
| handler_dec: "pcs h Handler = StopWait \<Longrightarrow> renewing h \<noteq> Running \<Longrightarrow> handle_step h (decRef Handler h)"
| Release: "pcs h (Direct d) = Idle \<Longrightarrow> handle_step h (goto (Direct d) RelClose h)"
| close: "pcs h a = RelClose \<Longrightarrow> handle_step h (stopRenewal_close a RelWait h)"
| once: "pcs h a = RelWait \<Longrightarrow> renewing h \<noteq> Running \<Longrightarrow> (\<And>b. pcs h b \<noteq> Calling) \<Longrightarrow> handle_step h (Release_once a h)"
| call: "pcs h a = Calling \<Longrightarrow> handle_step h (Release_call a h)"
| renew: "renewing h = Running \<Longrightarrow> handle_step h (renew_round alive h)"
| stop: "renewing h = Running \<Longrightarrow> closed h \<Longrightarrow> handle_step h (h\<lparr>renewing := Stopped\<rparr>)"

inductive handle_reach :: "handle \<Rightarrow> bool" where
  start: "handle_reach (new_handle renew)"
| step: "handle_reach h \<Longrightarrow> handle_step h h' \<Longrightarrow> handle_reach h'"

section \<open>The invariant\<close>

definition holders :: "handle \<Rightarrow> actor set" where
  "holders h = {a. pcs h a = Holding \<or> pcs h a = StopWait}"

definition releasing :: "handle \<Rightarrow> actor set" where
  "releasing h = {a. pcs h a = RelClose \<or> pcs h a = RelWait}"

definition calling :: "handle \<Rightarrow> actor set" where
  "calling h = {a. pcs h a = Calling}"

text \<open>
  The count is the number of references owned until the release, then not positive; nobody compares
  with a count that is not positive; a count of zero has somebody on the way to the release; the
  cache call is made once. Without a direct release, one on the way to the release means that no
  reference is owned.
\<close>

definition direct_used :: "handle \<Rightarrow> bool" where
  "direct_used h \<longleftrightarrow> (\<exists>d. pcs h (Direct d) \<noteq> Idle)"

definition handle_inv :: "handle \<Rightarrow> bool" where
  "handle_inv h \<longleftrightarrow>
     finite (holders h) \<and>
     (\<forall>a c. pcs h a = Loaded c \<longrightarrow> 1 \<le> c) \<and>
     (\<not> releaseOnce h \<longrightarrow> refs h = int (card (holders h)) \<and> calls h = 0 \<and> calling h = {}) \<and>
     (\<not> releaseOnce h \<longrightarrow> holders h = {} \<longrightarrow> releasing h \<noteq> {}) \<and>
     (releaseOnce h \<longrightarrow> refs h \<le> 0 \<and>
        (calls h = 1 \<and> calling h = {} \<or> calls h = 0 \<and> (\<exists>a. calling h = {a}))) \<and>
     (\<not> direct_used h \<longrightarrow> releasing h \<noteq> {} \<or> releaseOnce h \<longrightarrow> holders h = {}) \<and>
     (pcs h Handler \<noteq> Idle) \<and> (\<forall>c. pcs h Handler \<noteq> Loaded c) \<and> (pcs h Handler \<noteq> Retrying) \<and>
     (\<forall>t. pcs h (Task t) \<noteq> StopWait) \<and>
     (\<forall>d c. pcs h (Direct d) \<noteq> Loaded c \<and> pcs h (Direct d) \<noteq> Retrying \<and> pcs h (Direct d) \<noteq> Holding \<and> pcs h (Direct d) \<noteq> StopWait) \<and>
     (\<forall>a. pcs h a = StopWait \<or> pcs h a = RelWait \<longrightarrow> renewing h = Running \<longrightarrow> closed h)"

lemma sets_goto:
  "holders (goto a p h) = (if p = Holding \<or> p = StopWait then insert a (holders h) else holders h - {a})"
  "releasing (goto a p h) = (if p = RelClose \<or> p = RelWait then insert a (releasing h) else releasing h - {a})"
  "calling (goto a p h) = (if p = Calling then insert a (calling h) else calling h - {a})"
  by (auto simp: holders_def releasing_def calling_def goto_def)

lemma goto_sel [simp]:
  "refs (goto a p h) = refs h" "releaseOnce (goto a p h) = releaseOnce h" "closed (goto a p h) = closed h"
  "renewing (goto a p h) = renewing h" "calls (goto a p h) = calls h" "pcs (goto a p h) = (pcs h)(a := p)"
  by (simp_all add: goto_def)

lemma sets_update [simp]:
  "holders (h\<lparr>refs := r\<rparr>) = holders h" "holders (h\<lparr>closed := c\<rparr>) = holders h"
  "holders (h\<lparr>renewing := w\<rparr>) = holders h" "holders (h\<lparr>calls := n\<rparr>) = holders h" "holders (h\<lparr>releaseOnce := b\<rparr>) = holders h"
  "releasing (h\<lparr>refs := r\<rparr>) = releasing h" "releasing (h\<lparr>closed := c\<rparr>) = releasing h"
  "releasing (h\<lparr>renewing := w\<rparr>) = releasing h" "releasing (h\<lparr>calls := n\<rparr>) = releasing h" "releasing (h\<lparr>releaseOnce := b\<rparr>) = releasing h"
  "calling (h\<lparr>refs := r\<rparr>) = calling h" "calling (h\<lparr>closed := c\<rparr>) = calling h"
  "calling (h\<lparr>renewing := w\<rparr>) = calling h" "calling (h\<lparr>calls := n\<rparr>) = calling h" "calling (h\<lparr>releaseOnce := b\<rparr>) = calling h"
  by (simp_all add: holders_def releasing_def calling_def)

lemma direct_used_goto:
  "direct_used (goto a p h) \<longleftrightarrow> (\<exists>d. a = Direct d \<and> p \<noteq> Idle) \<or> (\<exists>d. a \<noteq> Direct d \<and> pcs h (Direct d) \<noteq> Idle)"
  by (auto simp: direct_used_def)

lemma inv_start: "handle_inv (new_handle renew)"
proof -
  have "holders (new_handle renew) = {Handler}" "releasing (new_handle renew) = {}" "calling (new_handle renew) = {}"
    by (auto simp: new_handle_def holders_def releasing_def calling_def)
  then show ?thesis by (simp add: handle_inv_def new_handle_def)
qed


lemma stopRenewal_close_sel [simp]:
  "refs (stopRenewal_close a p h) = refs h" "releaseOnce (stopRenewal_close a p h) = releaseOnce h"
  "renewing (stopRenewal_close a p h) = renewing h" "calls (stopRenewal_close a p h) = calls h"
  "pcs (stopRenewal_close a p h) = (pcs h)(a := p)"
  "closed (stopRenewal_close a p h) \<longleftrightarrow> closed h \<or> renewing h \<noteq> NotStarted"
  by (simp_all add: stopRenewal_close_def)

lemma sets_stopRenewal_close:
  "holders (stopRenewal_close a p h) = holders (goto a p h)"
  "releasing (stopRenewal_close a p h) = releasing (goto a p h)"
  "calling (stopRenewal_close a p h) = calling (goto a p h)"
  by (simp_all add: holders_def releasing_def calling_def)

lemmas mem_sets = holders_def releasing_def calling_def

lemma inv_decRef:
  assumes inv: "handle_inv h" and a: "a \<in> holders h" and nd: "\<And>d. a \<noteq> Direct d"
  shows "handle_inv (decRef a h)"
proof -
  have n: "a \<notin> releasing h" "a \<notin> calling h" using a by (auto simp: mem_sets)
  have fin: "finite (holders h)" using inv by (simp add: handle_inv_def)
  have c: "int (card (holders h - {a})) = int (card (holders h)) - 1"
    using a fin by (simp add: card_Diff_singleton) (metis One_nat_def Suc_leI card_gt_0_iff empty_iff of_nat_diff of_nat_1)
  have dir: "direct_used (goto a p (h\<lparr>refs := r\<rparr>)) = direct_used h" for p r
    using nd by (auto simp: direct_used_def) metis
  have empty: "holders h - {a} = {} \<longleftrightarrow> refs h \<le> 1" if "\<not> releaseOnce h"
  proof -
    have "refs h = int (card (holders h))" using inv that by (simp add: handle_inv_def)
    moreover have "card (holders h - {a}) = 0 \<longleftrightarrow> holders h - {a} = {}" using fin by simp
    ultimately show ?thesis using c by linarith
  qed
  show ?thesis
  proof (cases "releaseOnce h")
    case True
    then show ?thesis using inv n a fin nd
      by (auto simp: handle_inv_def decRef_def Let_def sets_goto dir)
  next
    case False
    then have "releasing h = {}" if "\<not> direct_used h" using inv a that by (auto simp: handle_inv_def)
    then show ?thesis using inv n a fin False c empty[OF False] nd
      by (auto simp: handle_inv_def decRef_def Let_def sets_goto dir)
  qed
qed

lemma inv_step: "handle_step h h' \<Longrightarrow> handle_inv h \<Longrightarrow> handle_inv h'"
proof (induction rule: handle_step.induct)
  case (acquire_load h t)
  then have "Task t \<notin> holders h" "Task t \<notin> releasing h" "Task t \<notin> calling h" by (auto simp: mem_sets)
  with acquire_load show ?case
    by (auto simp: handle_inv_def acquire_load_def sets_goto direct_used_def)
next
  case (acquire_cas h t cur)
  then have n: "Task t \<notin> holders h" "Task t \<notin> releasing h" "Task t \<notin> calling h" by (auto simp: mem_sets)
  show ?case
  proof (cases "refs h = cur")
    case True
    then have "1 \<le> refs h" using acquire_cas by (auto simp: handle_inv_def)
    then have "\<not> releaseOnce h" "holders h \<noteq> {}" using acquire_cas by (auto simp: handle_inv_def)
    then show ?thesis using n acquire_cas True
      by (auto simp: handle_inv_def acquire_cas_def sets_goto direct_used_def)
  next
    case False
    then show ?thesis using n acquire_cas by (auto simp: handle_inv_def acquire_cas_def sets_goto direct_used_def)
  qed
next
  case (task_done h t)
  then show ?case by (intro inv_decRef) (auto simp: mem_sets)
next
  case (HandlerDone h)
  then have "Handler \<in> holders h" "Handler \<notin> releasing h" "Handler \<notin> calling h" by (auto simp: mem_sets)
  with HandlerDone show ?case
    by (auto simp: handle_inv_def sets_stopRenewal_close sets_goto direct_used_def insert_absorb split: if_splits)
next
  case (handler_dec h)
  then show ?case by (intro inv_decRef) (auto simp: mem_sets)
next
  case (Release h d)
  then have "Direct d \<notin> holders h" "Direct d \<notin> releasing h" "Direct d \<notin> calling h" by (auto simp: mem_sets)
  with Release show ?case by (auto simp: handle_inv_def sets_goto direct_used_def)
next
  case (close h a)
  then have "a \<notin> holders h" "a \<in> releasing h" "a \<notin> calling h" by (auto simp: mem_sets)
  with close show ?case 
    by (auto simp: handle_inv_def sets_stopRenewal_close sets_goto direct_used_def split: if_splits)
next
  case (once h a)
  then have n: "a \<notin> holders h" "a \<in> releasing h" "calling h = {}" by (auto simp: mem_sets)
  have dir: "direct_used (goto a p h') = direct_used h" if "p \<noteq> Idle" "pcs h' = pcs h" for p h'
    using once(1) that by (auto simp: direct_used_def)
  show ?case
  proof (cases "releaseOnce h")
    case True
    then show ?thesis using once(1,2,4) n dir by (auto simp: handle_inv_def Release_once_def sets_goto)
  next
    case False
    then have e: "Release_once a h = goto a Calling (h\<lparr>releaseOnce := True, refs := 0\<rparr>)" by (simp add: Release_once_def)
    have d: "direct_used (Release_once a h) = direct_used h" unfolding e by (rule dir) simp_all
    have "releasing h \<noteq> {}" using n by blast
    then have "holders h = {}" if "\<not> direct_used h" using once(4) that by (simp add: handle_inv_def)
    then show ?thesis
      using once(1,2,4) n False d unfolding handle_inv_def by (simp add: e sets_goto)
  qed
next
  case (call h a)
  then have n: "a \<notin> holders h" "a \<notin> releasing h" "a \<in> calling h" by (auto simp: mem_sets)
  have dir: "direct_used (Release_call a h) = direct_used h"
    using call(1) by (auto simp: direct_used_def Release_call_def)
  show ?case using call n dir by (auto simp: handle_inv_def Release_call_def sets_goto)
next
  case (renew h alive)
  then show ?case by (auto simp: handle_inv_def renew_round_def direct_used_def)
next
  case (stop h)
  then show ?case by (auto simp: handle_inv_def direct_used_def)
qed


lemma reach_inv: "handle_reach h \<Longrightarrow> handle_inv h"
  by (induction rule: handle_reach.induct) (auto intro: inv_start inv_step)

section \<open>Every call ends\<close>

text \<open>
  Steps that finish what was begun: no new call of \<open>Acquire\<close> or \<open>Release\<close>, and not a round of the
  renewal goroutine that leaves it waiting for the next tick. The load of a loop that goes round again is such a step.
\<close>

definition entry :: "handle \<Rightarrow> handle \<Rightarrow> bool" where
  "entry h h' \<longleftrightarrow> (\<exists>t. pcs h (Task t) = Idle \<and> h' = acquire_load (Task t) h) \<or>
     (\<exists>d. pcs h (Direct d) = Idle \<and> h' = goto (Direct d) RelClose h)"

definition settling :: "handle \<Rightarrow> handle \<Rightarrow> bool" where
  "settling h h' \<longleftrightarrow> handle_step h h' \<and> h' \<noteq> h \<and> \<not> entry h h'"

fun togo :: "pc \<Rightarrow> nat" where
  "togo Idle = 0" | "togo (Loaded _) = 6" | "togo Retrying = 6" | "togo Holding = 5" | "togo StopWait = 4"
| "togo RelClose = 3" | "togo RelWait = 2" | "togo Calling = 1" | "togo Finished = 0"

text \<open>How far a thread in the loop is from its compare-and-swap succeeding, while the count stays as it is.\<close>

fun lag :: "int \<Rightarrow> pc \<Rightarrow> nat" where
  "lag r (Loaded c) = (if c = r then 1 else 3)"
| "lag r Retrying = 2"
| "lag r _ = 0"

definition active :: "handle \<Rightarrow> actor set" where
  "active h = {a. togo (pcs h a) \<noteq> 0}"

definition total :: "(pc \<Rightarrow> nat) \<Rightarrow> handle \<Rightarrow> nat" where
  "total f h = (\<Sum>a \<in> active h. f (pcs h a))"

definition weight :: "handle \<Rightarrow> nat" where
  "weight h = total togo h + (if renewing h = Running then 1 else 0)"

definition behind :: "handle \<Rightarrow> nat" where
  "behind h = total (lag (refs h)) h"

lemma active_goto: "active (goto a p h) = (if togo p = 0 then active h - {a} else insert a (active h))"
  by (auto simp: active_def)

lemma active_update [simp]:
  "active (h\<lparr>refs := r\<rparr>) = active h" "active (h\<lparr>closed := c\<rparr>) = active h" "active (h\<lparr>calls := n\<rparr>) = active h"
  "active (h\<lparr>renewing := w\<rparr>) = active h" "active (h\<lparr>releaseOnce := b\<rparr>) = active h"
  by (simp_all add: active_def)

lemma total_update [simp]:
  "total f (h\<lparr>refs := r\<rparr>) = total f h" "total f (h\<lparr>closed := c\<rparr>) = total f h" "total f (h\<lparr>calls := n\<rparr>) = total f h"
  "total f (h\<lparr>releaseOnce := b\<rparr>) = total f h"
  by (simp_all add: total_def)

lemma weight_update [simp]:
  "weight (h\<lparr>refs := r\<rparr>) = weight h" "weight (h\<lparr>closed := c\<rparr>) = weight h" "weight (h\<lparr>calls := n\<rparr>) = weight h"
  "weight (h\<lparr>releaseOnce := b\<rparr>) = weight h"
  by (simp_all add: weight_def)

lemma total_goto:
  assumes "finite (active h)" "f Idle = 0" "f Finished = 0"
  shows "total f (goto a p h) + f (pcs h a) = total f h + f p"
proof -
  have zero: "f q = 0" if "togo q = 0" for q using that assms(2,3) by (cases q) auto
  have over: "(\<Sum>b \<in> active k. f (pcs k b)) = (\<Sum>b \<in> insert a (active h). f (pcs k b))"
    if "active k \<subseteq> insert a (active h)" for k
    using assms(1) that by (intro sum.mono_neutral_left) (auto simp: active_def zero)
  have same: "(\<Sum>b \<in> active h - {a}. f (((pcs h)(a := p)) b)) = (\<Sum>b \<in> active h - {a}. f (pcs h b))"
    by (rule sum.cong) auto
  have split: "(\<Sum>b \<in> insert a (active h). g b) = g a + (\<Sum>b \<in> active h - {a}. g b)" for g :: "actor \<Rightarrow> nat"
    using assms(1) by (simp add: sum.insert_remove)
  have "total f (goto a p h) = f p + (\<Sum>b \<in> active h - {a}. f (pcs h b))"
    unfolding total_def using over[of "goto a p h"] split[of "\<lambda>b. f (((pcs h)(a := p)) b)"] same
    by (simp add: active_goto subset_insertI2 Diff_subset)
  moreover have "total f h = f (pcs h a) + (\<Sum>b \<in> active h - {a}. f (pcs h b))"
    unfolding total_def using over[of h] split[of "\<lambda>b. f (pcs h b)"] by auto
  ultimately show ?thesis by simp
qed

lemma weight_goto:
  assumes "finite (active h)"
  shows "weight (goto a p h) + togo (pcs h a) = weight h + togo p"
  using total_goto[OF assms, of togo a p] by (simp add: weight_def)

lemma finite_active_step: "handle_step h h' \<Longrightarrow> finite (active h) \<Longrightarrow> finite (active h')"
  by (induction rule: handle_step.induct)
    (auto simp: acquire_load_def acquire_cas_def decRef_def stopRenewal_close_def Release_once_def Release_call_def
      renew_round_def Let_def active_goto)

lemma finite_active: "handle_reach h \<Longrightarrow> finite (active h)"
proof (induction rule: handle_reach.induct)
  case (start renew)
  have "active (new_handle renew) = {Handler}" by (auto simp: active_def new_handle_def)
  then show ?case by simp
qed (rule finite_active_step)

lemma weight_goto_less:
  assumes "finite (active h)" "weight k = weight h" "active k = active h" "pcs k = pcs h" "togo p < togo (pcs h a)"
  shows "weight (goto a p k) < weight h"
  using weight_goto[of k a p] assms by simp

text \<open>
  Every step but those of the loop brings a thread closer to its return; a step of the loop that does not change the count
  brings the thread closer to a compare-and-swap that succeeds.
\<close>

lemma loop_behind:
  assumes "finite (active h)" "lag (refs h) p < lag (refs h) (pcs h a)" "togo p = togo (pcs h a)"
  shows "weight (goto a p h) = weight h \<and> behind (goto a p h) < behind h"
  using weight_goto[OF assms(1), of a p] total_goto[OF assms(1), of "lag (refs h)" a p] assms(2,3)
  by (simp add: behind_def)

lemma settling_order:
  assumes "settling h h'" "finite (active h)"
  shows "weight h' < weight h \<or> weight h' = weight h \<and> behind h' < behind h"
proof -
  have st: "handle_step h h'" "h' \<noteq> h" "\<not> entry h h'" using assms by (simp_all add: settling_def)
  from st(1) show ?thesis
  proof (cases rule: handle_step.cases)
    case (acquire_load t)
    then have p: "pcs h (Task t) = Retrying" using st(3) by (auto simp: entry_def)
    show ?thesis
    proof (cases "refs h \<le> 0")
      case True
      then have "weight h' < weight h"
        unfolding acquire_load(1) acquire_load_def using p by (simp add: weight_goto_less[OF assms(2)])
      then show ?thesis by simp
    next
      case False
      then show ?thesis
        unfolding acquire_load(1) acquire_load_def using p loop_behind[OF assms(2), of "Loaded (refs h)" "Task t"] by simp
    qed
  next
    case (acquire_cas t cur)
    show ?thesis
    proof (cases "refs h = cur")
      case True
      then have "weight h' < weight h"
        unfolding acquire_cas(1) acquire_cas_def using acquire_cas(2) by (simp add: weight_goto_less[OF assms(2)])
      then show ?thesis by simp
    next
      case False
      then show ?thesis
        unfolding acquire_cas(1) acquire_cas_def using acquire_cas(2) loop_behind[OF assms(2), of Retrying "Task t"] by simp
    qed
  next
    case (Release d)
    then show ?thesis using st(3) by (auto simp: entry_def)
  next
    case (renew alive)
    then show ?thesis using st(2) by (auto simp: renew_round_def weight_def total_def split: if_splits)
  next
    case stop
    then show ?thesis by (simp add: weight_def total_def)
  qed (auto simp: decRef_def stopRenewal_close_def Release_once_def Release_call_def Let_def
      intro!: weight_goto_less[OF assms(2)])
qed

definition quiescent :: "handle \<Rightarrow> bool" where
  "quiescent h \<longleftrightarrow> (\<forall>a. pcs h a = Idle \<or> pcs h a = Finished)"

lemma settle_goto:
  assumes "handle_step h (goto a p k)" "pcs h a \<noteq> Idle" "pcs h a \<noteq> p"
  shows "\<exists>h'. settling h h'"
proof -
  have "goto a p k \<noteq> h" using assms(3) by (metis fun_upd_same goto_sel(6))
  moreover have "\<not> entry h (goto a p k)"
  proof
    assume "entry h (goto a p k)"
    then obtain b q k' where b: "pcs h b = Idle" "goto a p k = goto b q k'" "pcs k' = pcs h"
      unfolding entry_def acquire_load_def by (metis (full_types))
    then have "pcs (goto b q k') a = pcs h a" using assms(2) by auto
    then show False using b(2) assms(3) by (metis fun_upd_same goto_sel(6))
  qed
  ultimately show ?thesis using assms(1) unfolding settling_def by blast
qed

lemma settle_stop:
  assumes "renewing h = Running" "closed h"
  shows "\<exists>h'. settling h h'"
proof -
  have "entry h h' \<Longrightarrow> renewing h' = Running" for h' using assms by (auto simp: entry_def acquire_load_def)
  then have "\<not> entry h (h\<lparr>renewing := Stopped\<rparr>)" by fastforce
  moreover have "h\<lparr>renewing := Stopped\<rparr> \<noteq> h"
    using assms(1) by (metis handle.select_convs(4) handle.surjective handle.update_convs(4) renewal.distinct(5))
  ultimately show ?thesis using handle_step.stop[OF assms] by (auto simp: settling_def)
qed

lemma Holding_settles:
  assumes "handle_inv h" "pcs h a = Holding"
  shows "\<exists>h'. settling h h'"
proof (cases a)
  case Handler
  then show ?thesis
    using settle_goto[where a = a] handle_step.HandlerDone[of h] assms(2)
    by (auto simp: stopRenewal_close_def split: if_splits)
next
  case (Task t)
  then show ?thesis
    using settle_goto[where a = a] handle_step.task_done[of h t] assms(2) by (auto simp: decRef_def Let_def split: if_splits)
next
  case (Direct d)
  then show ?thesis using assms by (auto simp: handle_inv_def)
qed

lemma Calling_settles: "pcs h a = Calling \<Longrightarrow> \<exists>h'. settling h h'"
  using handle_step.call[of h a] by (intro settle_goto) (auto simp: Release_call_def)

lemma waiting_settles:
  assumes inv: "handle_inv h" and p: "pcs h a = StopWait \<or> pcs h a = RelWait"
  shows "\<exists>h'. settling h h'"
proof (cases "renewing h = Running")
  case True
  then show ?thesis using settle_stop p inv by (auto simp: handle_inv_def)
next
  case False
  from p show ?thesis
  proof
    assume w: "pcs h a = StopWait"
    then have "a = Handler" using inv by (cases a) (auto simp: handle_inv_def)
    then show ?thesis
      using settle_goto[where a = a] handle_step.handler_dec[of h] w False by (auto simp: decRef_def Let_def split: if_splits)
  next
    assume w: "pcs h a = RelWait"
    show ?thesis
    proof (cases "\<exists>b. pcs h b = Calling")
      case True
      then show ?thesis using Calling_settles by blast
    next
      case nobody: False
      then show ?thesis
        using settle_goto[where a = a] handle_step.once[OF w False] w by (auto simp: Release_once_def split: if_splits)
    qed
  qed
qed

lemma not_quiescent_settles:
  assumes inv: "handle_inv h" and "\<not> quiescent h"
  shows "\<exists>h'. settling h h'"
proof -
  obtain a where a: "pcs h a \<noteq> Idle" "pcs h a \<noteq> Finished" using assms(2) by (auto simp: quiescent_def)
  show ?thesis
  proof (cases "pcs h a")
    case (Loaded c)
    then obtain t where t: "a = Task t" using inv by (cases a) (auto simp: handle_inv_def)
    show ?thesis
      using settle_goto[where a = a] handle_step.acquire_cas[of h t c] Loaded t by (auto simp: acquire_cas_def split: if_splits)
  next
    case Retrying
    then obtain t where t: "a = Task t" using inv by (cases a) (auto simp: handle_inv_def)
    show ?thesis
      using settle_goto[where a = a] handle_step.acquire_load[of h t] Retrying t by (auto simp: acquire_load_def split: if_splits)
  next
    case RelClose
    then show ?thesis
      using settle_goto[where a = a] handle_step.close[of h a] by (auto simp: stopRenewal_close_def split: if_splits)
  qed (use a Holding_settles[OF inv] waiting_settles[OF inv] Calling_settles in auto)
qed

lemma quiescent_released:
  assumes "handle_inv h" "quiescent h"
  shows "releaseOnce h \<and> calls h = 1"
proof -
  have "pcs h a = Idle \<or> pcs h a = Finished" for a using assms(2) by (simp add: quiescent_def)
  then have "holders h = {}" "releasing h = {}" "calling h = {}"
    by (simp_all add: mem_sets) (metis pc.distinct)+
  then show ?thesis using assms(1) by (auto simp: handle_inv_def)
qed

lemma renewal_over:
  "handle_reach h \<Longrightarrow> pcs h Handler \<noteq> Holding \<Longrightarrow> pcs h Handler \<noteq> StopWait \<Longrightarrow> renewing h \<noteq> Running"
proof (induction rule: handle_reach.induct)
  case (start renew)
  then show ?case by (simp add: new_handle_def)
next
  case (step h h')
  have "renewing h' \<noteq> Running" if "renewing h \<noteq> Running"
    using step(2) that by (cases rule: handle_step.cases)
      (auto simp: acquire_load_def acquire_cas_def decRef_def Release_once_def Release_call_def renew_round_def Let_def split: if_splits)
  moreover have "renewing h \<noteq> Running" if "pcs h Handler = Holding \<or> pcs h Handler = StopWait"
    using step(2,4,5) that by (cases rule: handle_step.cases)
      (auto simp: acquire_load_def acquire_cas_def decRef_def Release_once_def Release_call_def renew_round_def Let_def split: if_splits)
  ultimately show ?case using step.IH by blast
qed

section \<open>Properties\<close>

text \<open>
  C18. However the handler, the billing tasks and the renewal goroutine interleave: unless somebody
  calls \<open>Release\<close> directly, the reservation is given back to the cache only when the handler has
  called \<open>HandlerDone\<close> and every task that acquired a reference has returned it; it is given back at
  most once in any case, and it is not renewed after \<open>HandlerDone\<close> returned.
\<close>

theorem release_waits_for_all_references:
  assumes "handle_reach h"
  shows "(\<not> direct_used h \<longrightarrow> 0 < calls h \<or> calling h \<noteq> {} \<longrightarrow>
       pcs h Handler \<noteq> Holding \<and> pcs h Handler \<noteq> StopWait \<and> (\<forall>t. pcs h (Task t) \<noteq> Holding)) \<and>
     calls h \<le> 1 \<and>
     (pcs h Handler \<noteq> Holding \<longrightarrow> pcs h Handler \<noteq> StopWait \<longrightarrow> renewing h \<noteq> Running)"
proof -
  have inv: "handle_inv h" by (rule reach_inv[OF assms])
  have "holders h = {}" if "\<not> direct_used h" "0 < calls h \<or> calling h \<noteq> {}"
    using inv that by (auto simp: handle_inv_def)
  then have "pcs h Handler \<noteq> Holding \<and> pcs h Handler \<noteq> StopWait \<and> (\<forall>t. pcs h (Task t) \<noteq> Holding)"
    if "\<not> direct_used h" "0 < calls h \<or> calling h \<noteq> {}" using that by (auto simp: holders_def)
  moreover have "calls h \<le> 1" using inv by (cases "releaseOnce h") (auto simp: handle_inv_def)
  ultimately show ?thesis using renewal_over[OF assms] by blast
qed

text \<open>
  C20. Once begun, every call ends: no infinite sequence of steps is possible without new calls of
  \<open>Acquire\<close> or \<open>Release\<close> and ticks that only wait for the next one. In particular the compare-and-swap loop of
  \<open>Acquire\<close> does not go round for ever, however the threads interleave: a compare-and-swap fails only when another
  thread changed the count since the load.
\<close>

theorem settling_terminates:
  assumes "handle_reach (f 0)"
  shows "\<exists>i. \<not> settling (f i) (f (Suc i))"
proof (rule ccontr)
  assume "\<not> ?thesis"
  then have s: "settling (f i) (f (Suc i))" for i by blast
  have fin: "finite (active (f i))" for i
  proof (induction i)
    case (Suc i)
    then show ?case using finite_active_step s by (auto simp: settling_def)
  qed (rule finite_active[OF assms])
  let ?r = "inv_image (less_than <*lex*> less_than) (\<lambda>h. (weight h, behind h))"
  have "(f (Suc i), f i) \<in> ?r" for i using settling_order[OF s fin] by simp
  moreover have "wf ?r" by (intro wf_inv_image wf_lex_prod wf_less_than)
  ultimately show False unfolding wf_iff_no_infinite_down_chain by blast
qed

text \<open>
  C19. When nothing is left to finish, the handler and every task have returned and the reservation
  has been given back to the cache exactly once: it is never leaked.
\<close>

theorem settled_handle_is_released:
  assumes "handle_reach h" "\<And>h'. \<not> settling h h'"
  shows "quiescent h \<and> pcs h Handler = Finished \<and> calls h = 1"
proof -
  have inv: "handle_inv h" by (rule reach_inv[OF assms(1)])
  then have q: "quiescent h" using not_quiescent_settles assms(2) by blast
  then show ?thesis using quiescent_released[OF inv q] inv by (auto simp: quiescent_def handle_inv_def)
qed

section \<open>Witnesses\<close>

lemma settled_stays:
  assumes "quiescent h" "renewing h \<noteq> Running"
  shows "\<not> settling h h'"
proof
  assume "settling h h'"
  then have st: "handle_step h h'" "\<not> entry h h'" by (simp_all add: settling_def)
  have q: "pcs h a = Idle \<or> pcs h a = Finished" for a using assms(1) by (simp add: quiescent_def)
  from st(1) show False
  proof (cases rule: handle_step.cases)
    case (acquire_load t)
    then show False using st(2) q[of "Task t"] by (auto simp: entry_def)
  next
    case (Release d)
    then show False using st(2) by (auto simp: entry_def)
  qed (use assms(2) q in \<open>(metis pc.distinct)+\<close>)
qed

text \<open>One billing task takes a reference, the handler returns, then the task returns its reference.\<close>

definition demo_taken :: handle where
  "demo_taken = (let h = acquire_cas (Task 0) 1 (acquire_load (Task 0) (new_handle False))
     in decRef Handler (stopRenewal_close Handler StopWait h))"

definition demo_returned :: handle where
  "demo_returned = Release_call (Task 0) (Release_once (Task 0)
     (stopRenewal_close (Task 0) RelWait (decRef (Task 0) demo_taken)))"

lemmas demo_defs = demo_taken_def demo_returned_def new_handle_def acquire_load_def acquire_cas_def decRef_def
  stopRenewal_close_def Release_once_def Release_call_def goto_def Let_def

lemma demo_taken_reach: "handle_reach demo_taken"
proof -
  let ?h1 = "acquire_load (Task 0) (new_handle False)"
  let ?h2 = "acquire_cas (Task 0) 1 ?h1"
  let ?h3 = "stopRenewal_close Handler StopWait ?h2"
  have "handle_reach ?h1"
    by (rule handle_reach.step[OF handle_reach.start handle_step.acquire_load]) (simp add: new_handle_def)
  then have "handle_reach ?h2"
    by (rule handle_reach.step[OF _ handle_step.acquire_cas]) (simp add: new_handle_def acquire_load_def)
  then have "handle_reach ?h3"
    by (rule handle_reach.step[OF _ handle_step.HandlerDone]) (simp add: demo_defs)
  then have "handle_reach (decRef Handler ?h3)"
    by (rule handle_reach.step[OF _ handle_step.handler_dec]) (simp_all add: demo_defs)
  then show ?thesis by (simp add: demo_taken_def Let_def)
qed

lemma demo_returned_reach: "handle_reach demo_returned"
proof -
  let ?h1 = "decRef (Task 0) demo_taken"
  let ?h2 = "stopRenewal_close (Task 0) RelWait ?h1"
  let ?h3 = "Release_once (Task 0) ?h2"
  have "handle_reach ?h1"
    by (rule handle_reach.step[OF demo_taken_reach handle_step.task_done]) (simp add: demo_defs)
  then have "handle_reach ?h2"
    by (rule handle_reach.step[OF _ handle_step.close]) (simp add: demo_defs)
  then have "handle_reach ?h3"
    by (rule handle_reach.step[OF _ handle_step.once]) (simp_all add: demo_defs)
  then have "handle_reach (Release_call (Task 0) ?h3)"
    by (rule handle_reach.step[OF _ handle_step.call]) (simp add: demo_defs)
  then show ?thesis by (simp add: demo_returned_def)
qed

theorem release_waits_for_all_references_witness:
  "handle_reach demo_taken \<and> pcs demo_taken Handler = Finished \<and> pcs demo_taken (Task 0) = Holding \<and>
   calls demo_taken = 0 \<and> handle_reach demo_returned \<and> \<not> direct_used demo_returned \<and> calls demo_returned = 1 \<and>
   pcs demo_returned (Task 0) \<noteq> Holding"
proof -
  have nd: "\<not> direct_used demo_returned" "\<not> direct_used demo_taken"
    by (simp_all add: direct_used_def demo_defs)
  have c: "calls demo_returned = 1" "pcs demo_taken (Task 0) = Holding" "pcs demo_taken Handler = Finished"
    by (simp_all add: demo_defs)
  show ?thesis
    using c nd demo_taken_reach demo_returned_reach release_waits_for_all_references[OF demo_taken_reach]
      release_waits_for_all_references[OF demo_returned_reach] by auto
qed

theorem settling_terminates_witness:
  "handle_reach (new_handle True) \<and>
   (\<exists>i. \<not> settling ((stopRenewal_close Handler StopWait ^^ i) (new_handle True))
      ((stopRenewal_close Handler StopWait ^^ Suc i) (new_handle True)))"
  using settling_terminates[of "\<lambda>i. (stopRenewal_close Handler StopWait ^^ i) (new_handle True)"]
    handle_reach.start[of True] by simp

theorem settled_handle_is_released_witness:
  "handle_reach demo_returned \<and> (\<forall>h'. \<not> settling demo_returned h') \<and> calls demo_returned = 1"
proof -
  have "quiescent demo_returned" "renewing demo_returned \<noteq> Running" by (auto simp: quiescent_def demo_defs)
  from settled_stays[OF this] show ?thesis
    using settled_handle_is_released[OF demo_returned_reach] demo_returned_reach by blast
qed

end
