(* ===== verification/GroupPolicy.thy ===== *)
theory GroupPolicy
  imports Platforms
begin

text \<open>
  The methods of a group (\<open>service/group.go\<close>, \<open>service/image_billing_multiplier.go\<close>,
  \<open>service/video_billing_resolution.go\<close>): the effective Kiro settings and their normalisation, prices,
  limits, model routing, the peak-hour multiplier and the profit control settings. A \<open>nil\<close> group is
  \<open>None\<close>. Money and multipliers are exact rationals where the code only compares and multiplies
  them, and \<open>float64\<close> where it asks for infinities and NaN.
\<close>

section \<open>The group\<close>

text \<open>The fields these methods read; the others are passed through by the code.\<close>

record Group =
  ID :: int
  Platform :: string
  RateMultiplier :: rat
  PeakRateEnabled :: bool
  PeakStart :: string
  PeakEnd :: string
  PeakRateMultiplier :: rat
  Status :: string
  Hydrated :: bool
  SubscriptionType :: string
  DailyLimitUSD :: "rat option"
  WeeklyLimitUSD :: "rat option"
  MonthlyLimitUSD :: "rat option"
  ImageRateIndependent :: bool
  ImageRateMultiplier :: rat
  ImagePrice1K :: "rat option"
  ImagePrice2K :: "rat option"
  ImagePrice4K :: "rat option"
  VideoRateIndependent :: bool
  VideoRateMultiplier :: rat
  VideoPrice480P :: "rat option"
  VideoPrice720P :: "rat option"
  VideoPrice1080P :: "rat option"
  ModelRouting :: "(string \<times> int list) list"
  ModelRoutingEnabled :: bool
  KiroCacheEmulationEnabled :: bool
  KiroAutoStickyEnabled :: bool
  KiroStickySessionTTLSeconds :: int
  KiroCacheEmulationRatio :: float64
  KiroCacheEmulationMode :: string
  KiroCacheCreationEmulationRatio :: float64
  KiroCacheReadEmulationRatio :: float64
  KiroEndpointMode :: string

definition IsGroupBindableInSimpleMode :: "Group option \<Rightarrow> bool" where
  "IsGroupBindableInSimpleMode g =
     (case g of None \<Rightarrow> False | Some g \<Rightarrow> Platform g \<noteq> PlatformComposite)"

section \<open>Kiro settings\<close>

definition DefaultKiroStickySessionTTLSeconds :: int where "DefaultKiroStickySessionTTLSeconds = 3600"
definition MinKiroStickySessionTTLSeconds :: int where "MinKiroStickySessionTTLSeconds = 60"
definition MaxKiroStickySessionTTLSeconds :: int where "MaxKiroStickySessionTTLSeconds = 86400"
definition stickySessionTTL :: duration where "stickySessionTTL = Hour"
definition KiroCacheEmulationModeUniform :: string where "KiroCacheEmulationModeUniform = ''uniform''"
definition KiroCacheEmulationModeIndependent :: string where "KiroCacheEmulationModeIndependent = ''independent''"
definition KiroEndpointModeQ :: string where "KiroEndpointModeQ = ''q''"
definition KiroEndpointModeKRS :: string where "KiroEndpointModeKRS = ''krs''"
definition KiroEndpointModeAuto :: string where "KiroEndpointModeAuto = ''auto''"

lemmas kiro_consts [go_def] = DefaultKiroStickySessionTTLSeconds_def MinKiroStickySessionTTLSeconds_def
  MaxKiroStickySessionTTLSeconds_def stickySessionTTL_def KiroCacheEmulationModeUniform_def
  KiroCacheEmulationModeIndependent_def KiroEndpointModeQ_def KiroEndpointModeKRS_def KiroEndpointModeAuto_def

definition normalizeKiroStickySessionTTLSeconds :: "int \<Rightarrow> int" where
  "normalizeKiroStickySessionTTLSeconds seconds =
     (if seconds \<le> 0 then DefaultKiroStickySessionTTLSeconds
      else if seconds < MinKiroStickySessionTTLSeconds then MinKiroStickySessionTTLSeconds
      else if seconds > MaxKiroStickySessionTTLSeconds then MaxKiroStickySessionTTLSeconds
      else seconds)"

definition normalizeKiroCacheEmulationRatio :: "float64 \<Rightarrow> float64" where
  "normalizeKiroCacheEmulationRatio ratio =
     (if IsNaN ratio \<or> IsInf ratio then Fin 0
      else if flt ratio (Fin 0) then Fin 0
      else if flt (Fin 1) ratio then Fin 1
      else if feq ratio (Fin 0) then Fin 0
      else ratio)"

definition normalizeKiroCacheEmulationMode :: "string \<Rightarrow> string" where
  "normalizeKiroCacheEmulationMode mode =
     (if mode = KiroCacheEmulationModeIndependent then KiroCacheEmulationModeIndependent
      else KiroCacheEmulationModeUniform)"

definition EffectiveKiroStickySessionTTLSeconds :: "Group option \<Rightarrow> int" where
  "EffectiveKiroStickySessionTTLSeconds g =
     (case g of None \<Rightarrow> 0
      | Some g \<Rightarrow> if Platform g \<noteq> PlatformKiro then 0
                  else normalizeKiroStickySessionTTLSeconds (KiroStickySessionTTLSeconds g))"

definition EffectiveKiroStickySessionTTL :: "Group option \<Rightarrow> duration" where
  "EffectiveKiroStickySessionTTL g =
     (let seconds = EffectiveKiroStickySessionTTLSeconds g
      in if seconds \<le> 0 then stickySessionTTL else seconds * Second)"

definition EffectiveKiroAutoStickyEnabled :: "Group option \<Rightarrow> bool" where
  "EffectiveKiroAutoStickyEnabled g =
     (case g of None \<Rightarrow> False | Some g \<Rightarrow> Platform g = PlatformKiro \<and> KiroAutoStickyEnabled g)"

definition EffectiveKiroCacheEmulationRatio :: "Group option \<Rightarrow> float64" where
  "EffectiveKiroCacheEmulationRatio g =
     (case g of None \<Rightarrow> Fin 0
      | Some g \<Rightarrow> if Platform g \<noteq> PlatformKiro \<or> \<not> KiroCacheEmulationEnabled g then Fin 0
                  else normalizeKiroCacheEmulationRatio (KiroCacheEmulationRatio g))"

definition EffectiveKiroCacheEmulationMode :: "Group option \<Rightarrow> string" where
  "EffectiveKiroCacheEmulationMode g =
     (case g of None \<Rightarrow> KiroCacheEmulationModeUniform
      | Some g \<Rightarrow> if Platform g \<noteq> PlatformKiro then KiroCacheEmulationModeUniform
                  else normalizeKiroCacheEmulationMode (KiroCacheEmulationMode g))"

definition EffectiveKiroCacheCreationEmulationRatio :: "Group option \<Rightarrow> float64" where
  "EffectiveKiroCacheCreationEmulationRatio g =
     (case g of None \<Rightarrow> Fin 0
      | Some g' \<Rightarrow> if Platform g' \<noteq> PlatformKiro \<or> \<not> KiroCacheEmulationEnabled g' then Fin 0
                   else if EffectiveKiroCacheEmulationMode g = KiroCacheEmulationModeUniform
                   then EffectiveKiroCacheEmulationRatio g
                   else normalizeKiroCacheEmulationRatio (KiroCacheCreationEmulationRatio g'))"

definition EffectiveKiroCacheReadEmulationRatio :: "Group option \<Rightarrow> float64" where
  "EffectiveKiroCacheReadEmulationRatio g =
     (case g of None \<Rightarrow> Fin 0
      | Some g' \<Rightarrow> if Platform g' \<noteq> PlatformKiro \<or> \<not> KiroCacheEmulationEnabled g' then Fin 0
                   else if EffectiveKiroCacheEmulationMode g = KiroCacheEmulationModeUniform
                   then EffectiveKiroCacheEmulationRatio g
                   else normalizeKiroCacheEmulationRatio (KiroCacheReadEmulationRatio g'))"

definition EffectiveKiroCacheEmulationRatios :: "Group option \<Rightarrow> float64 \<times> float64" where
  "EffectiveKiroCacheEmulationRatios g =
     (EffectiveKiroCacheCreationEmulationRatio g, EffectiveKiroCacheReadEmulationRatio g)"

definition EffectiveKiroCacheEmulationEnabled :: "Group option \<Rightarrow> bool" where
  "EffectiveKiroCacheEmulationEnabled g =
     (case g of None \<Rightarrow> False
      | Some g' \<Rightarrow> if Platform g' \<noteq> PlatformKiro \<or> \<not> KiroCacheEmulationEnabled g' then False
                   else let (creationRatio, readRatio) = EffectiveKiroCacheEmulationRatios g
                        in flt (Fin 0) creationRatio \<or> flt (Fin 0) readRatio)"

definition EffectiveKiroEndpointMode :: "Group option \<Rightarrow> string" where
  "EffectiveKiroEndpointMode g =
     (case g of None \<Rightarrow> KiroEndpointModeQ
      | Some g \<Rightarrow> if Platform g \<noteq> PlatformKiro then KiroEndpointModeQ
                  else if KiroEndpointMode g = KiroEndpointModeKRS then KiroEndpointModeKRS
                  else if KiroEndpointMode g = KiroEndpointModeAuto then KiroEndpointModeAuto
                  else KiroEndpointModeQ)"

definition KiroKRSEnabled :: "Group option \<Rightarrow> bool" where
  "KiroKRSEnabled g \<longleftrightarrow> EffectiveKiroEndpointMode g = KiroEndpointModeKRS"

definition normalizeKiroCacheEmulationFields :: "Group \<Rightarrow> Group" where
  "normalizeKiroCacheEmulationFields g =
     (if Platform g \<noteq> PlatformKiro then
        g\<lparr>KiroAutoStickyEnabled := False, KiroStickySessionTTLSeconds := 0,
          KiroCacheEmulationEnabled := False, KiroCacheEmulationRatio := Fin 0,
          KiroCacheEmulationMode := KiroCacheEmulationModeUniform,
          KiroCacheCreationEmulationRatio := Fin 0, KiroCacheReadEmulationRatio := Fin 0\<rparr>
      else
        let g = g\<lparr>KiroStickySessionTTLSeconds := normalizeKiroStickySessionTTLSeconds (KiroStickySessionTTLSeconds g)\<rparr>;
            g = g\<lparr>KiroCacheEmulationMode := normalizeKiroCacheEmulationMode (KiroCacheEmulationMode g)\<rparr>;
            g = g\<lparr>KiroCacheEmulationRatio := normalizeKiroCacheEmulationRatio (KiroCacheEmulationRatio g)\<rparr>;
            g = (if KiroCacheEmulationMode g = KiroCacheEmulationModeUniform
                 then g\<lparr>KiroCacheCreationEmulationRatio := KiroCacheEmulationRatio g,
                        KiroCacheReadEmulationRatio := KiroCacheEmulationRatio g\<rparr>
                 else g);
            g = g\<lparr>KiroCacheCreationEmulationRatio := normalizeKiroCacheEmulationRatio (KiroCacheCreationEmulationRatio g)\<rparr>
        in g\<lparr>KiroCacheReadEmulationRatio := normalizeKiroCacheEmulationRatio (KiroCacheReadEmulationRatio g)\<rparr>)"

definition normalizeKiroEndpointFields :: "Group \<Rightarrow> Group" where
  "normalizeKiroEndpointFields g =
     (if Platform g \<noteq> PlatformKiro then g\<lparr>KiroEndpointMode := ''''\<rparr>
      else if KiroEndpointMode g = KiroEndpointModeKRS \<or> KiroEndpointMode g = KiroEndpointModeAuto then g
      else g\<lparr>KiroEndpointMode := KiroEndpointModeQ\<rparr>)"

definition NormalizeGroupRuntimeFields :: "Group option \<Rightarrow> Group option" where
  "NormalizeGroupRuntimeFields g =
     map_option (\<lambda>g. normalizeKiroEndpointFields (normalizeKiroCacheEmulationFields g)) g"

section \<open>Limits and prices\<close>

definition IsActive :: "Group \<Rightarrow> bool" where "IsActive g \<longleftrightarrow> Status g = StatusActive"

definition IsSubscriptionType :: "Group \<Rightarrow> bool" where
  "IsSubscriptionType g \<longleftrightarrow> SubscriptionType g = SubscriptionTypeSubscription"

definition HasDailyLimit :: "Group \<Rightarrow> bool" where
  "HasDailyLimit g = (case DailyLimitUSD g of None \<Rightarrow> False | Some x \<Rightarrow> x > 0)"
definition HasWeeklyLimit :: "Group \<Rightarrow> bool" where
  "HasWeeklyLimit g = (case WeeklyLimitUSD g of None \<Rightarrow> False | Some x \<Rightarrow> x > 0)"
definition HasMonthlyLimit :: "Group \<Rightarrow> bool" where
  "HasMonthlyLimit g = (case MonthlyLimitUSD g of None \<Rightarrow> False | Some x \<Rightarrow> x > 0)"

definition GetImagePrice :: "Group \<Rightarrow> string \<Rightarrow> rat option" where
  "GetImagePrice g imageSize =
     (if imageSize = ''1K'' then ImagePrice1K g
      else if imageSize = ''2K'' then ImagePrice2K g
      else if imageSize = ''4K'' then ImagePrice4K g
      else ImagePrice2K g)"

definition VideoBillingResolution480P :: string where "VideoBillingResolution480P = ''480p''"
definition VideoBillingResolution720P :: string where "VideoBillingResolution720P = ''720p''"
definition VideoBillingResolution1080P :: string where "VideoBillingResolution1080P = ''1080p''"

definition LookupVideoBillingResolution :: "string \<Rightarrow> string option" where
  "LookupVideoBillingResolution resolution =
     (let r = ToLower (TrimSpace resolution)
      in if r \<in> {''480'', ''480p'', ''sd''} then Some VideoBillingResolution480P
         else if r \<in> {''720'', ''720p'', ''hd''} then Some VideoBillingResolution720P
         else if r \<in> {''1080'', ''1080p'', ''full_hd'', ''full-hd'', ''fhd''} then Some VideoBillingResolution1080P
         else None)"

definition NormalizeVideoBillingResolutionOrDefault :: "string \<Rightarrow> string" where
  "NormalizeVideoBillingResolutionOrDefault resolution =
     (case LookupVideoBillingResolution resolution of Some n \<Rightarrow> n | None \<Rightarrow> VideoBillingResolution480P)"

definition VideoBillingMinDurationSeconds :: int where "VideoBillingMinDurationSeconds = 1"
definition VideoBillingMaxDurationSeconds :: int where "VideoBillingMaxDurationSeconds = 15"
definition VideoBillingDefaultDurationSeconds :: int where "VideoBillingDefaultDurationSeconds = 8"

definition NormalizeVideoBillingDurationSecondsOrDefault :: "int \<Rightarrow> int" where
  "NormalizeVideoBillingDurationSecondsOrDefault durationSeconds =
     (if durationSeconds \<le> 0 then VideoBillingDefaultDurationSeconds
      else if durationSeconds < VideoBillingMinDurationSeconds then VideoBillingMinDurationSeconds
      else if durationSeconds > VideoBillingMaxDurationSeconds then VideoBillingMaxDurationSeconds
      else durationSeconds)"

definition GetVideoPrice :: "Group \<Rightarrow> string \<Rightarrow> rat option" where
  "GetVideoPrice g resolution =
     (let r = NormalizeVideoBillingResolutionOrDefault resolution
      in if r = VideoBillingResolution480P then VideoPrice480P g
         else if r = VideoBillingResolution720P then VideoPrice720P g
         else if r = VideoBillingResolution1080P then VideoPrice1080P g
         else VideoPrice480P g)"

definition IsGroupContextValid :: "Group option \<Rightarrow> bool" where
  "IsGroupContextValid g =
     (case g of None \<Rightarrow> False
      | Some g \<Rightarrow> if ID g \<le> 0 then False
                  else if \<not> Hydrated g then False
                  else if Platform g = [] \<or> Status g = [] then False
                  else True)"

section \<open>Model routing\<close>

definition matchModelPattern :: "string \<Rightarrow> string \<Rightarrow> bool" where
  "matchModelPattern pattern model =
     (if pattern = model then True
      else if HasSuffix pattern ''*'' then HasPrefix model (TrimSuffix pattern ''*'')
      else False)"

text \<open>
  \<open>ModelRouting\<close> is a Go map: the list holds its entries in the order in which this call happens to
  range over them. \<open>None\<close> is \<open>nil\<close>.
\<close>

definition GetRoutingAccountIDs :: "Group \<Rightarrow> string \<Rightarrow> int list option" where
  "GetRoutingAccountIDs g requestedModel =
     (if \<not> ModelRoutingEnabled g \<or> ModelRouting g = [] \<or> requestedModel = [] then None
      else
        let scan = map_option snd (find (\<lambda>(pattern, ids). matchModelPattern pattern requestedModel \<and> ids \<noteq> []) (ModelRouting g))
        in case map_of (ModelRouting g) requestedModel of
             Some ids \<Rightarrow> if ids \<noteq> [] then Some ids else scan
           | None \<Rightarrow> scan)"

section \<open>Peak hours\<close>

text \<open>\<open>b - '0'\<close> on bytes wraps around below the digits.\<close>

definition byte_minus_0 :: "char \<Rightarrow> nat" where
  "byte_minus_0 c = (of_char c + 256 - 48) mod 256"

fun hour_loop :: "nat \<Rightarrow> string \<Rightarrow> nat option" where
  "hour_loop h [] = Some h"
| "hour_loop h (c # cs) =
     (let d = byte_minus_0 c in if d > 9 then None else hour_loop (h * 10 + d) cs)"

definition parseMinutes :: "string \<Rightarrow> nat option" where
  "parseMinutes hhmm =
     (case Index hhmm '':'' of
        None \<Rightarrow> None
      | Some colon \<Rightarrow>
          if (colon \<noteq> 1 \<and> colon \<noteq> 2) \<or> length hhmm - colon - 1 \<noteq> 2 then None
          else case hour_loop 0 (take colon hhmm) of
                 None \<Rightarrow> None
               | Some h \<Rightarrow>
                   let m1 = byte_minus_0 (hhmm ! (colon + 1)); m2 = byte_minus_0 (hhmm ! (colon + 2))
                   in if m1 > 9 \<or> m2 > 9 then None
                      else let m = m1 * 10 + m2
                           in if h > 23 \<or> m > 59 then None else Some (h * 60 + m))"

text \<open>\<open>local\<close> reads the hour and the minute of an instant in the configured time zone.\<close>

definition PeakMultiplierAt :: "(gotime \<Rightarrow> nat \<times> nat) \<Rightarrow> Group option \<Rightarrow> gotime \<Rightarrow> rat" where
  "PeakMultiplierAt local g now =
     (case g of None \<Rightarrow> 1
      | Some g \<Rightarrow>
          if \<not> IsSubscriptionType g \<or> \<not> PeakRateEnabled g \<or> PeakStart g = [] \<or> PeakEnd g = [] then 1
          else case (parseMinutes (PeakStart g), parseMinutes (PeakEnd g)) of
                 (Some start, Some end') \<Rightarrow>
                   if start \<ge> end' then 1
                   else let (hour, minute) = local now; cur = hour * 60 + minute
                        in if start \<le> cur \<and> cur < end' then PeakRateMultiplier g else 1
               | _ \<Rightarrow> 1)"

datatype peak_error = PeakOnlySubscription | PeakWindowRequired | PeakStartFormat | PeakEndFormat
  | PeakEndNotAfterStart | PeakMultiplierNegative

definition ValidatePeakRateConfig :: "string \<Rightarrow> bool \<Rightarrow> string \<Rightarrow> string \<Rightarrow> rat \<Rightarrow> peak_error option" where
  "ValidatePeakRateConfig subscriptionType enabled start end' multiplier =
     (if \<not> enabled then None
      else if subscriptionType \<noteq> SubscriptionTypeSubscription then Some PeakOnlySubscription
      else if start = [] \<or> end' = [] then Some PeakWindowRequired
      else case parseMinutes start of None \<Rightarrow> Some PeakStartFormat
           | Some st \<Rightarrow>
               (case parseMinutes end' of None \<Rightarrow> Some PeakEndFormat
                | Some en \<Rightarrow>
                    if st \<ge> en then Some PeakEndNotAfterStart
                    else if multiplier < 0 then Some PeakMultiplierNegative
                    else None))"

definition NormalizePeakRateConfig ::
    "string \<Rightarrow> bool \<Rightarrow> string \<Rightarrow> string \<Rightarrow> rat \<Rightarrow> bool \<times> string \<times> string \<times> rat" where
  "NormalizePeakRateConfig subscriptionType enabled start end' multiplier =
     (if subscriptionType \<noteq> SubscriptionTypeSubscription then (False, [], [], 1)
      else if \<not> enabled then
        (enabled, (if parseMinutes start = None then [] else start),
         (if parseMinutes end' = None then [] else end'), (if multiplier < 0 then 1 else multiplier))
      else (enabled, start, end', multiplier))"

text \<open>The group is the only part of an API key these functions read; a \<open>nil\<close> key has none.\<close>

definition resolveImageRateMultiplier :: "Group option \<Rightarrow> rat \<Rightarrow> rat" where
  "resolveImageRateMultiplier g effectiveGroupMultiplier =
     (case g of None \<Rightarrow> effectiveGroupMultiplier
      | Some g \<Rightarrow> if ImageRateIndependent g
                  then (if ImageRateMultiplier g < 0 then 0 else ImageRateMultiplier g)
                  else effectiveGroupMultiplier)"

definition resolveVideoRateMultiplier :: "Group option \<Rightarrow> rat \<Rightarrow> rat" where
  "resolveVideoRateMultiplier g effectiveGroupMultiplier =
     (case g of None \<Rightarrow> effectiveGroupMultiplier
      | Some g \<Rightarrow> if VideoRateIndependent g
                  then (if VideoRateMultiplier g < 0 then 0 else VideoRateMultiplier g)
                  else effectiveGroupMultiplier)"

definition computePeakAwareMultipliers ::
    "(gotime \<Rightarrow> nat \<times> nat) \<Rightarrow> Group option \<Rightarrow> rat \<Rightarrow> gotime \<Rightarrow> rat \<times> rat" where
  "computePeakAwareMultipliers local g base now =
     (let image = resolveImageRateMultiplier g base;
          peak = (case g of None \<Rightarrow> 1 | Some _ \<Rightarrow> PeakMultiplierAt local g now)
      in (base * peak, image))"

section \<open>Profit control\<close>

definition validProfitControlRatio :: "float64 \<Rightarrow> bool" where
  "validProfitControlRatio v \<longleftrightarrow> \<not> IsNaN v \<and> \<not> IsInf v \<and> fle (Fin 0) v \<and> flt v (Fin 1)"

definition NormalizeGroupPlatform :: "string \<Rightarrow> string" where
  "NormalizeGroupPlatform platform = (if platform = [] then PlatformAnthropic else platform)"

definition profitControlPlatformSupported :: "string \<Rightarrow> bool" where
  "profitControlPlatformSupported platform \<longleftrightarrow>
     platform \<in> {PlatformOpenAI, PlatformAnthropic, PlatformGemini, PlatformGrok, PlatformAntigravity}"

datatype profit_error = ProfitPlatform | ProfitMargin | ProfitBuffer | ProfitSum

definition ValidateProfitControlConfig :: "string \<Rightarrow> bool \<Rightarrow> float64 \<Rightarrow> float64 \<Rightarrow> profit_error option" where
  "ValidateProfitControlConfig platform enabled minMargin safetyBuffer =
     (if \<not> enabled then None
      else if \<not> profitControlPlatformSupported platform then Some ProfitPlatform
      else if \<not> validProfitControlRatio minMargin then Some ProfitMargin
      else if \<not> validProfitControlRatio safetyBuffer then Some ProfitBuffer
      else if fle (Fin 1) (fadd minMargin safetyBuffer) then Some ProfitSum
      else None)"

definition NormalizeProfitControlConfig :: "string \<Rightarrow> bool \<Rightarrow> float64 \<Rightarrow> float64 \<Rightarrow> bool \<times> float64 \<times> float64" where
  "NormalizeProfitControlConfig platform enabled minMargin safetyBuffer =
     (if \<not> profitControlPlatformSupported platform then (False, Fin 0, Fin 0)
      else if \<not> enabled then
        (enabled, (if \<not> validProfitControlRatio minMargin then Fin 0 else minMargin),
         (if \<not> validProfitControlRatio safetyBuffer then Fin 0 else safetyBuffer))
      else (enabled, minMargin, safetyBuffer))"

section \<open>Reading a time of day\<close>

lemma byte_minus_0_digit: "byte_minus_0 c = d \<and> d \<le> 9 \<longleftrightarrow> c = digit_char d \<and> d \<le> 9"
proof -
  have "(n + 256 - 48) mod 256 = d \<longleftrightarrow> n = 48 + d" if "d \<le> 9" "n < 256" for n :: nat
  proof (cases "48 \<le> n")
    case True
    then have "(n + 256 - 48) mod 256 = (n - 48 + 256) mod 256" by simp
    also have "\<dots> = n - 48" using that(2) by (simp only: mod_add_self2) simp
    finally show ?thesis using True by auto
  next
    case False
    then have "(n + 256 - 48) mod 256 = n + 208" by simp
    then show ?thesis using False that by auto
  qed
  then have "(of_char c + 256 - 48 :: nat) mod 256 = d \<longleftrightarrow> (of_char c :: nat) = 48 + d" if "d \<le> 9"
    using that by simp
  moreover have "c = digit_char d \<longleftrightarrow> (of_char c :: nat) = 48 + d" if "d \<le> 9"
    using that by (auto simp: digit_char_def) (metis char_of_char)
  ultimately show ?thesis by (auto simp: byte_minus_0_def)
qed

lemma byte_minus_0_digit_char [simp]: "d \<le> 9 \<Longrightarrow> byte_minus_0 (digit_char d) = d"
  using byte_minus_0_digit by blast

lemma byte_minus_0_le: "\<not> 9 < byte_minus_0 c \<Longrightarrow> c = digit_char (byte_minus_0 c)"
  using byte_minus_0_digit[of c "byte_minus_0 c"] by simp

lemma digit_not_colon: "d \<le> 9 \<Longrightarrow> digit_char d \<noteq> CHR '':''"
proof
  assume "d \<le> 9" "digit_char d = CHR '':''"
  then have "(of_char (digit_char d) :: nat) = of_char CHR '':''" by simp
  with \<open>d \<le> 9\<close> show False by (simp add: digit_char_def)
qed

text \<open>A time of day: one or two digits of an hour below 24, a colon, two digits of a minute below 60.\<close>

inductive clock_time :: "string \<Rightarrow> nat \<Rightarrow> bool" where
  short: "h \<le> 9 \<Longrightarrow> m1 \<le> 5 \<Longrightarrow> m2 \<le> 9 \<Longrightarrow>
    clock_time [digit_char h, CHR '':'', digit_char m1, digit_char m2] (h * 60 + (m1 * 10 + m2))"
| full: "h2 \<le> 9 \<Longrightarrow> h1 * 10 + h2 \<le> 23 \<Longrightarrow> m1 \<le> 5 \<Longrightarrow> m2 \<le> 9 \<Longrightarrow>
    clock_time [digit_char h1, digit_char h2, CHR '':'', digit_char m1, digit_char m2]
      ((h1 * 10 + h2) * 60 + (m1 * 10 + m2))"

lemma parse_clock_time: "clock_time s v \<Longrightarrow> parseMinutes s = Some v"
  by (induction rule: clock_time.induct)
    (simp_all add: parseMinutes_def HasPrefix_def digit_not_colon Let_def)

lemma parseMinutes_clock_time:
  assumes "parseMinutes s = Some v"
  shows "clock_time s v"
proof -
  obtain colon where colon: "Index s '':'' = Some colon" "colon = 1 \<or> colon = 2" "length s - colon - 1 = 2"
    using assms by (auto simp: parseMinutes_def split: option.splits if_splits)
  have len: "length s = colon + 3" using Index_Some_split[OF colon(1)] colon(3) by simp
  from colon(2) show ?thesis
  proof
    assume c: "colon = 1"
    then obtain a b d e where s: "s = [a, b, d, e]" using len by (auto simp: numeral_eq_Suc length_Suc_conv)
    have b: "b = CHR '':''" using colon(1) c unfolding s by (auto simp: HasPrefix_def split: if_splits)
    show ?thesis
      using assms clock_time.short[of "byte_minus_0 a" "byte_minus_0 d" "byte_minus_0 e"] byte_minus_0_le colon(1) c
      unfolding s b by (auto simp: parseMinutes_def Let_def simp del: Index.simps split: if_splits)
  next
    assume c: "colon = 2"
    then obtain a b d e f where s: "s = [a, b, d, e, f]" using len by (auto simp: numeral_eq_Suc length_Suc_conv)
    have d: "d = CHR '':''" using colon(1) c unfolding s by (auto simp: HasPrefix_def split: if_splits)
    show ?thesis
      using assms clock_time.full[of "byte_minus_0 b" "byte_minus_0 a" "byte_minus_0 e" "byte_minus_0 f"] byte_minus_0_le colon(1) c
      unfolding s d by (auto simp: parseMinutes_def Let_def simp del: Index.simps split: if_splits)
  qed
qed

text \<open>
  C26. \<open>parseMinutes\<close> accepts exactly the times of day written with one or two digits of an hour up to
  23, a colon and two digits of a minute up to 59, and returns the minute of the day: byte arithmetic
  that wraps around below the digits lets no other character pass.
\<close>

theorem parseMinutes_reads_clock_times: "parseMinutes s = Some v \<longleftrightarrow> clock_time s v"
  using parse_clock_time parseMinutes_clock_time by blast

section \<open>Peak hours and profit control\<close>

lemma valid_peak_window:
  assumes "ValidatePeakRateConfig t True s e m = None"
  obtains st en where "t = SubscriptionTypeSubscription" "s \<noteq> []" "e \<noteq> []" "parseMinutes s = Some st"
    "parseMinutes e = Some en" "st < en" "0 \<le> m"
  using assms by (auto simp: ValidatePeakRateConfig_def not_le split: if_splits option.splits)

lemma peak_in_window:
  assumes "ValidatePeakRateConfig (SubscriptionType g) True (PeakStart g) (PeakEnd g) (PeakRateMultiplier g) = None"
    and "PeakRateEnabled g" "parseMinutes (PeakStart g) = Some st" "parseMinutes (PeakEnd g) = Some en"
  shows "PeakMultiplierAt local (Some g) now =
    (if st \<le> fst (local now) * 60 + snd (local now) \<and> fst (local now) * 60 + snd (local now) < en
     then PeakRateMultiplier g else 1)"
proof (rule valid_peak_window[OF assms(1)])
  fix st' en'
  assume v: "SubscriptionType g = SubscriptionTypeSubscription" "PeakStart g \<noteq> []" "PeakEnd g \<noteq> []"
    "parseMinutes (PeakStart g) = Some st'" "parseMinutes (PeakEnd g) = Some en'" "st' < en'"
  then show ?thesis
    using assms(2-) by (simp add: PeakMultiplierAt_def IsSubscriptionType_def split_def Let_def)
qed

text \<open>
  C25. A peak-hour configuration that passed \<open>NormalizePeakRateConfig\<close> and then
  \<open>ValidatePeakRateConfig\<close>, as it is stored: the text multiplier is the base times the peak factor
  exactly inside the half-open window and the base outside, the image multiplier never depends on the
  hour, and normalising again changes nothing.
\<close>

theorem stored_peak_config:
  assumes "NormalizePeakRateConfig (SubscriptionType g) enabled s e m = (PeakRateEnabled g, PeakStart g, PeakEnd g, PeakRateMultiplier g)"
    and "ValidatePeakRateConfig (SubscriptionType g) (PeakRateEnabled g) (PeakStart g) (PeakEnd g) (PeakRateMultiplier g) = None"
  shows "computePeakAwareMultipliers local (Some g) base now =
      (base * (if PeakRateEnabled g \<and>
           the (parseMinutes (PeakStart g)) \<le> fst (local now) * 60 + snd (local now) \<and>
           fst (local now) * 60 + snd (local now) < the (parseMinutes (PeakEnd g))
         then PeakRateMultiplier g else 1),
       resolveImageRateMultiplier (Some g) base) \<and>
    0 \<le> PeakRateMultiplier g \<and>
    NormalizePeakRateConfig (SubscriptionType g) (PeakRateEnabled g) (PeakStart g) (PeakEnd g) (PeakRateMultiplier g) =
      (PeakRateEnabled g, PeakStart g, PeakEnd g, PeakRateMultiplier g)"
proof (cases "PeakRateEnabled g")
  case True
  then have v: "ValidatePeakRateConfig (SubscriptionType g) True (PeakStart g) (PeakEnd g) (PeakRateMultiplier g) = None"
    using assms(2) by simp
  from v show ?thesis
  proof (cases rule: valid_peak_window)
    case (1 st en)
    then show ?thesis
      using True peak_in_window[OF v True 1(4,5), of local now]
      by (simp add: computePeakAwareMultipliers_def Let_def NormalizePeakRateConfig_def)
  qed
next
  case False
  then have "PeakMultiplierAt local (Some g) now = 1" by (simp add: PeakMultiplierAt_def)
  moreover have "0 \<le> PeakRateMultiplier g"
    using assms(1) False by (auto simp: NormalizePeakRateConfig_def split: if_splits)
  ultimately show ?thesis
    using assms(1) False
    by (auto simp: computePeakAwareMultipliers_def Let_def NormalizePeakRateConfig_def split: if_splits)
qed

section \<open>Effective Kiro settings\<close>

lemma ratio_cases: "\<exists>r. normalizeKiroCacheEmulationRatio x = Fin r \<and> 0 \<le> r \<and> r \<le> 1"
  by (cases x) (auto simp: normalizeKiroCacheEmulationRatio_def go_def not_less)

lemma ratio_idem [simp]:
  "normalizeKiroCacheEmulationRatio (normalizeKiroCacheEmulationRatio x) = normalizeKiroCacheEmulationRatio x"
  using ratio_cases[of x] by (auto simp: normalizeKiroCacheEmulationRatio_def go_def)

lemma ratio_zero [simp]: "normalizeKiroCacheEmulationRatio (Fin 0) = Fin 0"
  by (simp add: normalizeKiroCacheEmulationRatio_def go_def)

lemma mode_idem [simp]:
  "normalizeKiroCacheEmulationMode (normalizeKiroCacheEmulationMode m) = normalizeKiroCacheEmulationMode m"
  by (simp add: normalizeKiroCacheEmulationMode_def)

lemma mode_uniform [simp]: "normalizeKiroCacheEmulationMode KiroCacheEmulationModeUniform = KiroCacheEmulationModeUniform"
  by (simp add: normalizeKiroCacheEmulationMode_def)

lemma ttl_idem [simp]:
  "normalizeKiroStickySessionTTLSeconds (normalizeKiroStickySessionTTLSeconds n) = normalizeKiroStickySessionTTLSeconds n"
  by (simp add: normalizeKiroStickySessionTTLSeconds_def go_def)

lemmas effective_defs = EffectiveKiroStickySessionTTLSeconds_def EffectiveKiroAutoStickyEnabled_def
  EffectiveKiroCacheEmulationRatio_def EffectiveKiroCacheEmulationMode_def EffectiveKiroCacheCreationEmulationRatio_def
  EffectiveKiroCacheReadEmulationRatio_def EffectiveKiroEndpointMode_def

lemmas normalize_defs = NormalizeGroupRuntimeFields_def normalizeKiroCacheEmulationFields_def normalizeKiroEndpointFields_def

lemma effective_ratio_range:
  "\<exists>r. EffectiveKiroCacheCreationEmulationRatio g = Fin r \<and> 0 \<le> r \<and> r \<le> 1"
  "\<exists>r. EffectiveKiroCacheReadEmulationRatio g = Fin r \<and> 0 \<le> r \<and> r \<le> 1"
  by (cases g; auto simp: effective_defs intro: ratio_cases)+

text \<open>
  The stored Kiro fields in range: on a Kiro group the life of a sticky session between a minute and a day, a known mode,
  ratios that are numbers between 0 and 1, the same number three times in the uniform mode, and a known endpoint; on any
  other group the fields are off.
\<close>

definition in_unit :: "float64 \<Rightarrow> bool" where
  "in_unit x \<longleftrightarrow> (case x of Fin r \<Rightarrow> 0 \<le> r \<and> r \<le> 1 | _ \<Rightarrow> False)"

definition kiro_fields_valid :: "Group \<Rightarrow> bool" where
  "kiro_fields_valid g \<longleftrightarrow>
     (if Platform g = PlatformKiro then
        60 \<le> KiroStickySessionTTLSeconds g \<and> KiroStickySessionTTLSeconds g \<le> 86400 \<and>
        KiroCacheEmulationMode g \<in> {KiroCacheEmulationModeUniform, KiroCacheEmulationModeIndependent} \<and>
        in_unit (KiroCacheEmulationRatio g) \<and> in_unit (KiroCacheCreationEmulationRatio g) \<and> in_unit (KiroCacheReadEmulationRatio g) \<and>
        (KiroCacheEmulationMode g = KiroCacheEmulationModeIndependent \<or>
         KiroCacheCreationEmulationRatio g = KiroCacheEmulationRatio g \<and> KiroCacheReadEmulationRatio g = KiroCacheEmulationRatio g) \<and>
        KiroEndpointMode g \<in> {KiroEndpointModeQ, KiroEndpointModeKRS, KiroEndpointModeAuto}
      else
        \<not> KiroAutoStickyEnabled g \<and> KiroStickySessionTTLSeconds g = 0 \<and> \<not> KiroCacheEmulationEnabled g \<and>
        KiroCacheEmulationRatio g = Fin 0 \<and> KiroCacheEmulationMode g = KiroCacheEmulationModeUniform \<and>
        KiroCacheCreationEmulationRatio g = Fin 0 \<and> KiroCacheReadEmulationRatio g = Fin 0 \<and> KiroEndpointMode g = '''')"

text \<open>A group without its Kiro fields.\<close>

definition other_fields :: "Group \<Rightarrow> Group" where
  "other_fields g = g\<lparr>KiroCacheEmulationEnabled := False, KiroAutoStickyEnabled := False, KiroStickySessionTTLSeconds := 0,
     KiroCacheEmulationRatio := Fin 0, KiroCacheEmulationMode := '''', KiroCacheCreationEmulationRatio := Fin 0,
     KiroCacheReadEmulationRatio := Fin 0, KiroEndpointMode := ''''\<rparr>"

lemma in_unit_normalised [simp]: "in_unit (normalizeKiroCacheEmulationRatio x)"
  using ratio_cases[of x] by (auto simp: in_unit_def)

lemma ratio_in_unit: "in_unit x \<Longrightarrow> normalizeKiroCacheEmulationRatio x = x"
  by (cases x) (auto simp: in_unit_def normalizeKiroCacheEmulationRatio_def go_def)

lemma ttl_range: "60 \<le> normalizeKiroStickySessionTTLSeconds n" "normalizeKiroStickySessionTTLSeconds n \<le> 86400"
  "60 \<le> n \<Longrightarrow> n \<le> 86400 \<Longrightarrow> normalizeKiroStickySessionTTLSeconds n = n"
  by (simp_all add: normalizeKiroStickySessionTTLSeconds_def go_def)

lemma mode_cases: "normalizeKiroCacheEmulationMode m = KiroCacheEmulationModeUniform \<or>
    normalizeKiroCacheEmulationMode m = KiroCacheEmulationModeIndependent"
  "normalizeKiroCacheEmulationMode KiroCacheEmulationModeIndependent = KiroCacheEmulationModeIndependent"
  by (simp_all add: normalizeKiroCacheEmulationMode_def)

lemma normalised_valid: "kiro_fields_valid (normalizeKiroEndpointFields (normalizeKiroCacheEmulationFields g))"
proof (cases "Platform g = PlatformKiro")
  case True
  then show ?thesis
    using mode_cases(1)[of "KiroCacheEmulationMode g"] ttl_range(1,2)[of "KiroStickySessionTTLSeconds g"]
    by (cases "normalizeKiroCacheEmulationMode (KiroCacheEmulationMode g) = KiroCacheEmulationModeUniform")
      (simp_all add: kiro_fields_valid_def normalizeKiroCacheEmulationFields_def normalizeKiroEndpointFields_def Let_def)
qed (simp add: kiro_fields_valid_def normalizeKiroCacheEmulationFields_def normalizeKiroEndpointFields_def)

lemma valid_unchanged:
  assumes "kiro_fields_valid g"
  shows "normalizeKiroEndpointFields (normalizeKiroCacheEmulationFields g) = g"
proof (cases "Platform g = PlatformKiro")
  case True
  then have v: "60 \<le> KiroStickySessionTTLSeconds g" "KiroStickySessionTTLSeconds g \<le> 86400"
      "in_unit (KiroCacheEmulationRatio g)" "in_unit (KiroCacheCreationEmulationRatio g)" "in_unit (KiroCacheReadEmulationRatio g)"
    and m: "KiroCacheEmulationMode g = KiroCacheEmulationModeIndependent \<or>
        KiroCacheEmulationMode g = KiroCacheEmulationModeUniform \<and>
        KiroCacheCreationEmulationRatio g = KiroCacheEmulationRatio g \<and> KiroCacheReadEmulationRatio g = KiroCacheEmulationRatio g"
    and e: "KiroEndpointMode g \<in> {KiroEndpointModeQ, KiroEndpointModeKRS, KiroEndpointModeAuto}"
    using assms by (auto simp: kiro_fields_valid_def)
  have d: "KiroCacheEmulationModeIndependent \<noteq> KiroCacheEmulationModeUniform" by (simp add: go_def)
  have c: "normalizeKiroCacheEmulationFields g = g"
    using m True by (elim disjE) (simp_all add: normalizeKiroCacheEmulationFields_def Let_def mode_cases(2) d
      ttl_range(3)[OF v(1,2)] ratio_in_unit[OF v(3)] ratio_in_unit[OF v(4)] ratio_in_unit[OF v(5)])
  show ?thesis using e True unfolding c by (auto simp: normalizeKiroEndpointFields_def)
next
  case False
  then show ?thesis using assms
    by (simp add: kiro_fields_valid_def normalizeKiroCacheEmulationFields_def normalizeKiroEndpointFields_def)
qed

lemma other_fields_normalised:
  "other_fields (normalizeKiroEndpointFields (normalizeKiroCacheEmulationFields g)) = other_fields g"
  by (simp add: other_fields_def normalizeKiroCacheEmulationFields_def normalizeKiroEndpointFields_def Let_def)

text \<open>
  C24. \<open>NormalizeGroupRuntimeFields\<close> brings the stored Kiro fields of any group, with NaN and
  infinities in its ratios, into range, leaves every other field alone and does not change what is in effect: every
  effective setting is the same before and after. A group is left as it is exactly when its fields are in range, so
  normalising twice is normalising once. The effective ratios lie between 0 and
  1, and the sticky session lives between a minute and a day.
\<close>

theorem runtime_normalisation_keeps_effective_settings:
  "(\<exists>g'. NormalizeGroupRuntimeFields (Some g) = Some g' \<and> kiro_fields_valid g' \<and> other_fields g' = other_fields g) \<and>
   (NormalizeGroupRuntimeFields (Some g) = Some g \<longleftrightarrow> kiro_fields_valid g) \<and>
   EffectiveKiroStickySessionTTLSeconds (NormalizeGroupRuntimeFields (Some g)) = EffectiveKiroStickySessionTTLSeconds (Some g) \<and>
   EffectiveKiroAutoStickyEnabled (NormalizeGroupRuntimeFields (Some g)) = EffectiveKiroAutoStickyEnabled (Some g) \<and>
   EffectiveKiroCacheEmulationMode (NormalizeGroupRuntimeFields (Some g)) = EffectiveKiroCacheEmulationMode (Some g) \<and>
   EffectiveKiroCacheEmulationRatios (NormalizeGroupRuntimeFields (Some g)) = EffectiveKiroCacheEmulationRatios (Some g) \<and>
   EffectiveKiroEndpointMode (NormalizeGroupRuntimeFields (Some g)) = EffectiveKiroEndpointMode (Some g) \<and>
   (\<exists>c r. EffectiveKiroCacheEmulationRatios (Some g) = (Fin c, Fin r) \<and> 0 \<le> c \<and> c \<le> 1 \<and> 0 \<le> r \<and> r \<le> 1) \<and>
   Minute \<le> EffectiveKiroStickySessionTTL (Some g) \<and> EffectiveKiroStickySessionTTL (Some g) \<le> 24 * Hour"
proof (intro conjI)
  let ?g = "normalizeKiroEndpointFields (normalizeKiroCacheEmulationFields g)"
  have n: "NormalizeGroupRuntimeFields (Some g) = Some ?g" by (simp add: NormalizeGroupRuntimeFields_def)
  show "\<exists>g'. NormalizeGroupRuntimeFields (Some g) = Some g' \<and> kiro_fields_valid g' \<and> other_fields g' = other_fields g"
    using n normalised_valid other_fields_normalised by blast
  show "NormalizeGroupRuntimeFields (Some g) = Some g \<longleftrightarrow> kiro_fields_valid g"
    using n normalised_valid[of g] valid_unchanged[of g] by auto
  show "EffectiveKiroStickySessionTTLSeconds (NormalizeGroupRuntimeFields (Some g)) = EffectiveKiroStickySessionTTLSeconds (Some g)"
    by (simp add: effective_defs normalize_defs Let_def)
  show "EffectiveKiroAutoStickyEnabled (NormalizeGroupRuntimeFields (Some g)) = EffectiveKiroAutoStickyEnabled (Some g)"
    by (simp add: effective_defs normalize_defs Let_def)
  show "EffectiveKiroCacheEmulationMode (NormalizeGroupRuntimeFields (Some g)) = EffectiveKiroCacheEmulationMode (Some g)"
    by (simp add: effective_defs normalize_defs Let_def)
  show "EffectiveKiroCacheEmulationRatios (NormalizeGroupRuntimeFields (Some g)) = EffectiveKiroCacheEmulationRatios (Some g)"
    by (simp add: EffectiveKiroCacheEmulationRatios_def effective_defs normalize_defs Let_def)
  show "EffectiveKiroEndpointMode (NormalizeGroupRuntimeFields (Some g)) = EffectiveKiroEndpointMode (Some g)"
    by (simp add: effective_defs normalize_defs Let_def go_def)
  show "\<exists>c r. EffectiveKiroCacheEmulationRatios (Some g) = (Fin c, Fin r) \<and> 0 \<le> c \<and> c \<le> 1 \<and> 0 \<le> r \<and> r \<le> 1"
    using effective_ratio_range[of "Some g"] by (auto simp: EffectiveKiroCacheEmulationRatios_def)
  show "Minute \<le> EffectiveKiroStickySessionTTL (Some g)" "EffectiveKiroStickySessionTTL (Some g) \<le> 24 * Hour"
    by (simp add: EffectiveKiroStickySessionTTL_def effective_defs Let_def normalizeKiroStickySessionTTLSeconds_def go_def)+
qed

section \<open>Model routing\<close>

text \<open>
  With routing enabled, a model with an entry of its own that lists accounts gets them; otherwise
  it gets the accounts of some entry whose pattern matches, and none only when no matching entry lists
  accounts.
\<close>

theorem routing_prefers_exact_entry:
  assumes "ModelRoutingEnabled g" "model \<noteq> []" "distinct (map fst (ModelRouting g))"
  shows "((model, ids) \<in> set (ModelRouting g) \<longrightarrow> ids \<noteq> [] \<longrightarrow> GetRoutingAccountIDs g model = Some ids) \<and>
    (GetRoutingAccountIDs g model = Some ids \<longrightarrow>
       ids \<noteq> [] \<and> (\<exists>p. (p, ids) \<in> set (ModelRouting g) \<and> matchModelPattern p model)) \<and>
    (GetRoutingAccountIDs g model = None \<longleftrightarrow>
       (\<forall>(p, is) \<in> set (ModelRouting g). matchModelPattern p model \<longrightarrow> is = []))"
proof -
  define ok where "ok = (\<lambda>(p, is :: int list). matchModelPattern p model \<and> is \<noteq> [])"
  define scan where "scan = map_option snd (find ok (ModelRouting g))"
  have exact: "(model, is) \<in> set (ModelRouting g) \<longleftrightarrow> map_of (ModelRouting g) model = Some is" for "is"
    using assms(3) by simp
  have eq: "GetRoutingAccountIDs g model =
    (case map_of (ModelRouting g) model of Some is \<Rightarrow> if is \<noteq> [] then Some is else scan | None \<Rightarrow> scan)"
    using assms(1,2) unfolding scan_def ok_def GetRoutingAccountIDs_def Let_def
    by (cases "ModelRouting g = []") simp_all
  have found: "ids \<noteq> [] \<and> (\<exists>p. (p, ids) \<in> set (ModelRouting g) \<and> matchModelPattern p model)" if f: "scan = Some ids" for ids
  proof -
    obtain x where x: "find ok (ModelRouting g) = Some x" "ids = snd x"
      using f by (cases "find ok (ModelRouting g)") (simp_all add: scan_def)
    have "x \<in> set (ModelRouting g)" using x(1) by (metis find_Some_iff nth_mem)
    moreover have "ok x" using x(1) by (metis find_Some_iff)
    ultimately show ?thesis using x(2) by (cases x) (auto simp: ok_def)
  qed
  have none: "scan = None \<longleftrightarrow> (\<forall>(p, is) \<in> set (ModelRouting g). matchModelPattern p model \<longrightarrow> is = [])"
    unfolding scan_def option.map_disc_iff find_None_iff by (auto simp: ok_def)
  show ?thesis
  proof (cases "\<exists>is. map_of (ModelRouting g) model = Some is \<and> is \<noteq> []")
    case True
    then obtain "is" where i: "map_of (ModelRouting g) model = Some is" "is \<noteq> []" by blast
    then have G: "GetRoutingAccountIDs g model = Some is" using eq by simp
    have m: "(model, is) \<in> set (ModelRouting g)" "matchModelPattern model model"
      using i(1) exact by (simp_all add: matchModelPattern_def)
    then have "\<not> (\<forall>(p, is) \<in> set (ModelRouting g). matchModelPattern p model \<longrightarrow> is = [])" using i(2) by blast
    then show ?thesis unfolding exact G using i m by (metis option.distinct(1) option.inject)
  next
    case False
    then have G: "GetRoutingAccountIDs g model = scan" using eq by (auto split: option.splits)
    show ?thesis unfolding exact G using False found none by blast
  qed
qed

text \<open>Overlapping patterns: the answer is whichever entry the range over the map visits first.\<close>

definition routed :: "(string \<times> int list) list \<Rightarrow> Group \<Rightarrow> Group" where
  "routed entries g = g\<lparr>ModelRouting := entries, ModelRoutingEnabled := True\<rparr>"

lemma routing_depends_on_map_order:
  "GetRoutingAccountIDs (routed [(''claude-*'', [1]), (''claude-opus-*'', [2])] g) ''claude-opus-4'' = Some [1] \<and>
   GetRoutingAccountIDs (routed [(''claude-opus-*'', [2]), (''claude-*'', [1])] g) ''claude-opus-4'' = Some [2]"
  by (simp add: routed_def GetRoutingAccountIDs_def matchModelPattern_def HasSuffix_def HasPrefix_def TrimSuffix_def Let_def)

text \<open>
  What normalisation leaves of a profit control configuration can be validated: it is unchanged when
  it is enabled and valid, and always valid when it is disabled or the platform has no profit control.
\<close>

lemma profit_normalisation:
  assumes "NormalizeProfitControlConfig platform enabled m b = (e', m', b')"
  shows "ValidateProfitControlConfig platform enabled m b = None \<Longrightarrow> enabled \<Longrightarrow> (e', m', b') = (enabled, m, b)"
    and "\<not> e' \<Longrightarrow> validProfitControlRatio m' \<and> validProfitControlRatio b'"
    and "NormalizeProfitControlConfig platform e' m' b' = (e', m', b')"
  using assms by (auto simp: NormalizeProfitControlConfig_def ValidateProfitControlConfig_def
      validProfitControlRatio_def go_def split: if_splits)

section \<open>Witnesses\<close>

definition demo_group :: Group where
  "demo_group = \<lparr>ID = 1, Platform = PlatformAnthropic, RateMultiplier = 1, PeakRateEnabled = True,
     PeakStart = ''9:00'', PeakEnd = ''18:30'', PeakRateMultiplier = 2, Status = StatusActive, Hydrated = True,
     SubscriptionType = SubscriptionTypeSubscription, DailyLimitUSD = None, WeeklyLimitUSD = None,
     MonthlyLimitUSD = None, ImageRateIndependent = False, ImageRateMultiplier = 1, ImagePrice1K = None,
     ImagePrice2K = None, ImagePrice4K = None, VideoRateIndependent = False, VideoRateMultiplier = 1,
     VideoPrice480P = None, VideoPrice720P = None, VideoPrice1080P = None,
     ModelRouting = [(''claude-*'', [7]), (''claude-opus-4'', [8, 9])], ModelRoutingEnabled = True,
     KiroCacheEmulationEnabled = False, KiroAutoStickyEnabled = False, KiroStickySessionTTLSeconds = 0,
     KiroCacheEmulationRatio = Fin 0, KiroCacheEmulationMode = [], KiroCacheCreationEmulationRatio = Fin 0,
     KiroCacheReadEmulationRatio = Fin 0, KiroEndpointMode = []\<rparr>"

lemma demo_times: "parseMinutes ''9:00'' = Some 540" "parseMinutes ''18:30'' = Some 1110"
proof -
  have "digit_char 9 = CHR ''9''" "digit_char 0 = CHR ''0''" "digit_char 1 = CHR ''1''" "digit_char 8 = CHR ''8''" "digit_char 3 = CHR ''3''"
    by code_simp+
  then show "parseMinutes ''9:00'' = Some 540" "parseMinutes ''18:30'' = Some 1110"
    using clock_time.short[of 9 0 0, THEN parse_clock_time] clock_time.full[of 8 1 3 0, THEN parse_clock_time] by simp_all
qed

theorem stored_peak_config_witness:
  "computePeakAwareMultipliers (\<lambda>_. (9, 0)) (Some demo_group) (3 / 2) 0 = (3, 3 / 2) \<and>
   computePeakAwareMultipliers (\<lambda>_. (18, 30)) (Some demo_group) (3 / 2) 0 = (3 / 2, 3 / 2)"
proof -
  have n: "NormalizePeakRateConfig (SubscriptionType demo_group) True ''9:00'' ''18:30'' 2 =
    (PeakRateEnabled demo_group, PeakStart demo_group, PeakEnd demo_group, PeakRateMultiplier demo_group)"
    by (simp add: demo_group_def NormalizePeakRateConfig_def)
  have v: "ValidatePeakRateConfig (SubscriptionType demo_group) (PeakRateEnabled demo_group) (PeakStart demo_group)
      (PeakEnd demo_group) (PeakRateMultiplier demo_group) = None"
    by (simp add: demo_group_def ValidatePeakRateConfig_def demo_times)
  show ?thesis
    using stored_peak_config[OF n v, of "\<lambda>_. (9, 0)" "3 / 2" 0] stored_peak_config[OF n v, of "\<lambda>_. (18, 30)" "3 / 2" 0]
    by (simp add: demo_group_def demo_times resolveImageRateMultiplier_def)
qed

theorem routing_prefers_exact_entry_witness:
  "GetRoutingAccountIDs demo_group ''claude-opus-4'' = Some [8, 9] \<and>
   GetRoutingAccountIDs demo_group ''gpt-5'' = None"
proof -
  have d: "ModelRoutingEnabled demo_group" "distinct (map fst (ModelRouting demo_group))"
    by (simp_all add: demo_group_def)
  show ?thesis
    using routing_prefers_exact_entry[OF d(1) _ d(2), of "''claude-opus-4''" "[8, 9]"]
      routing_prefers_exact_entry[OF d(1) _ d(2), of "''gpt-5''"]
    by (simp add: demo_group_def matchModelPattern_def HasSuffix_def HasPrefix_def TrimSuffix_def)
qed

end
