(* ===== verification/InflightService.thy ===== *)
theory InflightService
  imports InflightLedger InflightHandle GroupPolicy
begin

text \<open>
  The part of the billing cache service that reserves a balance for a request and the estimate of what
  the request may cost (\<open>service/billing_inflight_reservation.go\<close>). The pricing services the estimate
  calls (\<open>BillingService\<close>, \<open>ModelPricingResolver\<close>, channel and account mappings) are fields of its
  struct of dependencies, as in the code, and remain arbitrary functions. Costs are exact rationals.
\<close>

section \<open>Configuration\<close>

record InflightReservationConfig =
  Enabled :: bool
  TTLSeconds :: int
  DefaultMaxTokens :: int
  MaxOutputTokens :: int
  MaxInputTokens :: int
  MaxReservationUSD :: rat
  FailClosedOnUnpriced :: bool

definition zero_config :: InflightReservationConfig where
  "zero_config = \<lparr>Enabled = False, TTLSeconds = 0, DefaultMaxTokens = 0, MaxOutputTokens = 0,
     MaxInputTokens = 0, MaxReservationUSD = 0, FailClosedOnUnpriced = False\<rparr>"

record Config =
  RunMode :: string
  InflightReservationCfg :: InflightReservationConfig
  DefaultRateMultiplier :: rat

definition RunModeSimple :: string where "RunModeSimple = ''simple''"
definition defaultInflightReservationTTL :: duration where "defaultInflightReservationTTL = 15 * Minute"
definition defaultInflightDefaultMaxTokens :: int where "defaultInflightDefaultMaxTokens = 8192"
definition inflightInputBytesPerTokenEstimate :: int where "inflightInputBytesPerTokenEstimate = 4"

text \<open>The service: its configuration, and whether its cache can reserve and can renew.\<close>

record BillingCacheService =
  cfg :: "Config option"
  can_reserve :: bool
  can_renew :: bool

definition inflightReservationConfig :: "BillingCacheService option \<Rightarrow> InflightReservationConfig \<times> bool" where
  "inflightReservationConfig s =
     (case s of None \<Rightarrow> (zero_config, False)
      | Some s \<Rightarrow>
          (case cfg s of None \<Rightarrow> (zero_config, False)
           | Some c \<Rightarrow>
               if \<not> Enabled (InflightReservationCfg c) \<or> RunMode c = RunModeSimple
               then (InflightReservationCfg c, False)
               else (InflightReservationCfg c, True)))"

definition InflightReservationEnabled :: "BillingCacheService option \<Rightarrow> bool" where
  "InflightReservationEnabled s = snd (inflightReservationConfig s)"

definition InflightReservationFailClosedOnUnpriced :: "BillingCacheService option \<Rightarrow> bool" where
  "InflightReservationFailClosedOnUnpriced s =
     (let (c, ok) = inflightReservationConfig s in ok \<and> FailClosedOnUnpriced c)"

section \<open>Reserving\<close>

datatype reserve_error = ErrInsufficientBalance

record InflightReservation =
  userID :: int
  requestID :: string
  amount :: rat
  rttl :: duration
  life :: handle

definition reservation_ttl :: "InflightReservationConfig \<Rightarrow> duration" where
  "reservation_ttl c =
     (if TTLSeconds c > 0 then wrap64 (TTLSeconds c * Second) else defaultInflightReservationTTL)"

text \<open>
  \<open>balance\<close> is what \<open>GetUserBalance\<close> returns, \<open>None\<close> an error; \<open>uuid\<close> the fresh identifier of the
  request; \<open>trip\<close> and \<open>now\<close> belong to the call of the cache, which has a deadline of
  its own: an error does not tell whether the script ran.
\<close>

definition reserve_trip :: "round_trip \<Rightarrow> 'db \<times> (bool \<times> rat) option \<Rightarrow> 'db \<times> (bool \<times> rat) option" where
  "reserve_trip trip x = (fst x, if trip = ReplyLost then None else snd x)"

definition reserveInflight ::
    "BillingCacheService option \<Rightarrow> int option \<Rightarrow> Group option \<Rightarrow> bool \<Rightarrow> float64 \<Rightarrow> bool \<Rightarrow>
     string \<Rightarrow> rat option \<Rightarrow> round_trip \<Rightarrow> int \<Rightarrow> inflight_db \<Rightarrow> inflight_db \<times> (reserve_error + InflightReservation option)" where
  "reserveInflight s user group' subscription estimate renew uuid balance trip now db =
     (let (c, ok) = inflightReservationConfig s
      in case user of
           None \<Rightarrow> (db, Inr None)
         | Some uid \<Rightarrow>
             if \<not> ok then (db, Inr None)
             else if (case group' of None \<Rightarrow> False | Some g \<Rightarrow> IsSubscriptionType g) \<and> subscription then (db, Inr None)
             else
               let estimate = (if MaxReservationUSD c > 0 \<and> flt (Fin (MaxReservationUSD c)) estimate
                               then Fin (MaxReservationUSD c) else estimate)
               in if fle estimate (Fin 0) \<or> IsNaN estimate \<or> IsInf estimate then (db, Inr None)
                  else if \<not> can_reserve (the s) then (db, Inr None)
                  else (case (balance, estimate) of
                     (Some bal, Fin amt) \<Rightarrow>
                       (let ttl = reservation_ttl c
                        in case reserve_trip trip (ReserveInflightBalance (trip = NotSent) now db uid uuid amt bal ttl) of
                             (db', None) \<Rightarrow> (db', Inr None)
                           | (db', Some (allowed, _)) \<Rightarrow>
                               if \<not> allowed then (db', Inl ErrInsufficientBalance)
                               else (db', Inr (Some \<lparr>userID = uid, requestID = uuid, amount = amt, rttl = ttl,
                                       life = new_handle (renew \<and> can_renew (the s))\<rparr>)))
                   | _ \<Rightarrow> (db, Inr None)))"

definition ReserveInflight ::
    "BillingCacheService option \<Rightarrow> int option \<Rightarrow> Group option \<Rightarrow> bool \<Rightarrow> float64 \<Rightarrow>
     string \<Rightarrow> rat option \<Rightarrow> round_trip \<Rightarrow> int \<Rightarrow> inflight_db \<Rightarrow> inflight_db \<times> (reserve_error + InflightReservation option)" where
  "ReserveInflight s user group' subscription estimate = reserveInflight s user group' subscription estimate True"

section \<open>Estimating\<close>

datatype InflightEstimateKind = InflightEstimateToken | InflightEstimateImage | InflightEstimatePerRequest
  | InflightEstimateVideo | InflightEstimateAudio

record InflightEstimateRequest =
  Model :: string
  BodyBytes :: int
  MaxTokens :: int
  Kind :: InflightEstimateKind
  Units :: int
  SearchCalls :: int
  VideoResolution :: string
  VideoDurationSeconds :: int
  AudioMode :: string
  AudioUnits :: rat

record ModelPricing =
  InputPricePerToken :: rat
  OutputPricePerToken :: rat

definition BillingModeToken :: string where "BillingModeToken = ''token''"
definition BillingModePerRequest :: string where "BillingModePerRequest = ''per_request''"
definition BillingModeImage :: string where "BillingModeImage = ''image''"
definition BillingModeVideo :: string where "BillingModeVideo = ''video''"
definition BillingModelSourceRequested :: string where "BillingModelSourceRequested = ''requested''"
definition ImageBillingSize1K :: string where "ImageBillingSize1K = ''1K''"
definition ImageBillingSize2K :: string where "ImageBillingSize2K = ''2K''"
definition ImageBillingSize4K :: string where "ImageBillingSize4K = ''4K''"

text \<open>Of a tier of a resolved price the estimate reads the price per request only.\<close>

record ResolvedPricing =
  Mode :: string
  RequestTiers :: "rat option list"
  DefaultPerRequestPrice :: rat

record APIKey =
  User :: "int option"
  GroupID :: "int option"
  KeyGroup :: "Group option"

record ChannelMappingResult =
  MappedModel :: string
  BillingModelSource :: string

text \<open>
  The services. A cost calculation gets the price configuration of the group of the key, an arbitrary
  function of it, and returns the actual cost, or \<open>None\<close> for a \<open>nil\<close> breakdown.
\<close>

record BillingService =
  GetModelPricing :: "string \<Rightarrow> ModelPricing option"
  CalculateImageCost :: "string \<Rightarrow> string \<Rightarrow> int \<Rightarrow> Group option \<Rightarrow> rat \<Rightarrow> rat option"
  CalculateVideoCost :: "string \<Rightarrow> string \<Rightarrow> int \<Rightarrow> int \<Rightarrow> Group option \<Rightarrow> rat \<Rightarrow> rat option"
  CalculateAudioCost :: "string \<Rightarrow> rat \<Rightarrow> Group option \<Rightarrow> rat \<Rightarrow> rat option"
  CalculateSearchCost :: "int \<Rightarrow> Group option \<Rightarrow> rat \<Rightarrow> rat option"

record ModelPricingResolver =
  Resolve :: "int option \<Rightarrow> Group option \<Rightarrow> string \<Rightarrow> ResolvedPricing option"
  GetIntervalPricing :: "ResolvedPricing \<Rightarrow> int \<Rightarrow> ModelPricing option"

record inflightEstimateDeps =
  dcfg :: "Config option"
  billing :: "BillingService option"
  resolver :: "ModelPricingResolver option"
  resolveMapping :: "(int \<Rightarrow> string \<Rightarrow> ChannelMappingResult) option"
  userGroupRate :: "(int \<Rightarrow> int \<Rightarrow> rat \<Rightarrow> rat) option"
  accountMappedModels :: "(APIKey option \<Rightarrow> string \<Rightarrow> string list) option"

definition inflightReservationCfg :: "Config option \<Rightarrow> InflightReservationConfig" where
  "inflightReservationCfg c = (case c of None \<Rightarrow> zero_config | Some c \<Rightarrow> InflightReservationCfg c)"

text \<open>One pass of the loop over the accounts; \<open>seen\<close> is the set of models already listed.\<close>

fun mapped_loop :: "('a \<Rightarrow> string \<Rightarrow> string \<times> bool) \<Rightarrow> string \<Rightarrow> string set \<Rightarrow> 'a list \<Rightarrow> string list" where
  "mapped_loop ResolveMappedModel model seen [] = []"
| "mapped_loop ResolveMappedModel model seen (a # as) =
     (let (mapped, matched) = ResolveMappedModel a model; mapped = TrimSpace mapped
      in if \<not> matched \<or> mapped = [] \<or> mapped = model \<or> mapped \<in> seen
         then mapped_loop ResolveMappedModel model seen as
         else mapped # mapped_loop ResolveMappedModel model (insert mapped seen) as)"

definition accountMappedModelsFrom :: "('a \<Rightarrow> string \<Rightarrow> string \<times> bool) \<Rightarrow> 'a list \<Rightarrow> string \<Rightarrow> string list" where
  "accountMappedModelsFrom ResolveMappedModel accounts model = mapped_loop ResolveMappedModel model {} accounts"

text \<open>\<open>list\<close> reads the scheduler snapshot, \<open>None\<close> being an error; \<open>resolvePlatform\<close> is \<open>None\<close> when not ok.\<close>

definition inflightAccountMappedModelsFromSnapshot ::
    "(int option \<Rightarrow> string \<Rightarrow> bool \<Rightarrow> 'a list option) \<Rightarrow> (APIKey \<Rightarrow> string \<Rightarrow> (string \<times> bool) option) \<Rightarrow>
     ('a \<Rightarrow> string \<Rightarrow> string \<times> bool) \<Rightarrow> APIKey option \<Rightarrow> string \<Rightarrow> string list" where
  "inflightAccountMappedModelsFromSnapshot list' resolvePlatform ResolveMappedModel apiKey model =
     (let model = TrimSpace model
      in case apiKey of
           None \<Rightarrow> []
         | Some k \<Rightarrow>
             if model = [] then []
             else (case resolvePlatform k model of
                     None \<Rightarrow> []
                   | Some (platform, forced) \<Rightarrow>
                       if platform = [] then []
                       else (case list' (GroupID k) platform forced of
                               None \<Rightarrow> []
                             | Some accounts \<Rightarrow> accountMappedModelsFrom ResolveMappedModel accounts model)))"

definition inflightBillingModelCandidates ::
    "inflightEstimateDeps \<Rightarrow> APIKey option \<Rightarrow> string \<Rightarrow> string list \<times> string list \<times> string" where
  "inflightBillingModelCandidates deps apiKey model =
     (case apiKey of
        None \<Rightarrow> ([model], [], model)
      | Some k \<Rightarrow>
          (case (GroupID k, resolveMapping deps) of
             (Some gid, Some mapping) \<Rightarrow>
               (let m = mapping gid model; mapped = MappedModel m
                in if mapped \<noteq> [] \<and> mapped \<noteq> model
                   then (if BillingModelSource m = BillingModelSourceRequested
                         then ([model], [mapped], mapped)
                         else ([mapped, model], [], mapped))
                   else ([model], [], model))
           | _ \<Rightarrow> ([model], [], model)))"

definition rates :: "(gotime \<Rightarrow> nat \<times> nat) \<Rightarrow> gotime \<Rightarrow> inflightEstimateDeps \<Rightarrow> APIKey option \<Rightarrow> rat \<times> rat" where
  "rates local now d apiKey =
     (let rate = (case dcfg d of
                    None \<Rightarrow> 1
                  | Some c \<Rightarrow> if DefaultRateMultiplier c > 0 then DefaultRateMultiplier c else 1);
          rate = (case apiKey of
                    None \<Rightarrow> rate
                  | Some k \<Rightarrow>
                      (case (GroupID k, KeyGroup k) of
                         (Some gid, Some g) \<Rightarrow>
                           (case (userGroupRate d, User k) of
                              (Some f, Some u) \<Rightarrow> f u gid (RateMultiplier g)
                            | _ \<Rightarrow> RateMultiplier g)
                       | _ \<Rightarrow> rate))
      in computePeakAwareMultipliers local (case apiKey of None \<Rightarrow> None | Some k \<Rightarrow> KeyGroup k) rate now)"

definition tokenCounts :: "InflightReservationConfig \<Rightarrow> int \<Rightarrow> int \<Rightarrow> int \<times> int" where
  "tokenCounts c bodyBytes maxTokens =
     (let inputTokens = (if bodyBytes > 0 then bodyBytes sdiv inflightInputBytesPerTokenEstimate else 0);
          inputTokens = (if MaxInputTokens c > 0 \<and> inputTokens > MaxInputTokens c then MaxInputTokens c else inputTokens);
          outputTokens = (if maxTokens \<le> 0
                          then (if DefaultMaxTokens c \<le> 0 then defaultInflightDefaultMaxTokens else DefaultMaxTokens c)
                          else maxTokens);
          outputTokens = (if MaxOutputTokens c > 0 \<and> outputTokens > MaxOutputTokens c then MaxOutputTokens c else outputTokens)
      in (inputTokens, outputTokens))"

definition maxPerRequestPrice :: "ResolvedPricing option \<Rightarrow> rat" where
  "maxPerRequestPrice resolved =
     (case resolved of
        None \<Rightarrow> 0
      | Some r \<Rightarrow> fold (\<lambda>tier p. case tier of Some x \<Rightarrow> if x > p then x else p | None \<Rightarrow> p)
                    (RequestTiers r) (DefaultPerRequestPrice r))"

text \<open>Among the rationals no value is infinite or not a number.\<close>

definition validCost :: "rat \<Rightarrow> bool" where
  "validCost v \<longleftrightarrow> v > 0"

definition higher :: "rat \<Rightarrow> rat option \<Rightarrow> rat" where
  "higher cost b = (case b of Some x \<Rightarrow> if x > cost then x else cost | None \<Rightarrow> cost)"

definition token_cost :: "inflightEstimateDeps \<Rightarrow> ResolvedPricing option \<Rightarrow> string \<Rightarrow> int \<Rightarrow> int \<Rightarrow> rat \<Rightarrow> rat" where
  "token_cost d resolved model inputTokens outputTokens textRate =
     (let pricing = (case (resolved, resolver d) of
                       (Some r, Some res) \<Rightarrow>
                         if Mode r = BillingModeToken \<or> Mode r = [] then GetIntervalPricing res r inputTokens else None
                     | _ \<Rightarrow> None);
          pricing = (case pricing of
                       Some p \<Rightarrow> Some p
                     | None \<Rightarrow> (case billing d of None \<Rightarrow> None | Some b \<Rightarrow> GetModelPricing b model))
      in case pricing of
           None \<Rightarrow> 0
         | Some p \<Rightarrow> (of_int inputTokens * InputPricePerToken p + of_int outputTokens * OutputPricePerToken p) * textRate)"

definition estimateOne ::
    "inflightEstimateDeps \<Rightarrow> APIKey option \<Rightarrow> string \<Rightarrow> InflightEstimateRequest \<Rightarrow> rat \<Rightarrow> rat \<Rightarrow> rat" where
  "estimateOne d apiKey model req textRate imageRate =
     (let c = inflightReservationCfg (dcfg d);
          units = (if Units req \<le> 0 then 1 else Units req);
          group' = (case apiKey of None \<Rightarrow> None | Some k \<Rightarrow> KeyGroup k);
          resolved = (case resolver d of
                        None \<Rightarrow> None
                      | Some res \<Rightarrow> Resolve res (case apiKey of None \<Rightarrow> None | Some k \<Rightarrow> GroupID k) group' model);
          (inputTokens, outputTokens) = tokenCounts c (BodyBytes req) (MaxTokens req);
          tokenCost = token_cost d resolved model inputTokens outputTokens textRate;
          mode = (case resolved of None \<Rightarrow> [] | Some r \<Rightarrow> Mode r);
          perRequestMode = (resolved \<noteq> None \<and> mode \<in> {BillingModePerRequest, BillingModeImage, BillingModeVideo});
          cost =
            (case Kind req of
               InflightEstimateImage \<Rightarrow>
                 (let cost = (if perRequestMode then maxPerRequestPrice resolved * of_int units * imageRate else 0);
                      cost = (case billing d of
                                None \<Rightarrow> cost
                              | Some b \<Rightarrow> fold (\<lambda>tier cost. higher cost (CalculateImageCost b model tier units group' imageRate))
                                            [ImageBillingSize1K, ImageBillingSize2K, ImageBillingSize4K] cost)
                  in if cost \<le> 0 then tokenCost else cost)
             | InflightEstimateVideo \<Rightarrow>
                 (let cost = (if perRequestMode then maxPerRequestPrice resolved * of_int units * max textRate imageRate else 0)
                  in case billing d of
                       None \<Rightarrow> cost
                     | Some b \<Rightarrow> higher cost (CalculateVideoCost b model (VideoResolution req) units
                                   (VideoDurationSeconds req) group' (max textRate imageRate)))
             | InflightEstimateAudio \<Rightarrow>
                 (let cost = (if perRequestMode \<and> mode = BillingModePerRequest
                              then maxPerRequestPrice resolved * (if AudioUnits req \<le> 0 then 1 else AudioUnits req) * textRate
                              else 0)
                  in case billing d of
                       None \<Rightarrow> cost
                     | Some b \<Rightarrow> if AudioUnits req > 0
                                 then higher cost (CalculateAudioCost b (AudioMode req) (AudioUnits req) group' textRate)
                                 else cost)
             | _ \<Rightarrow>
                 (if perRequestMode
                  then maxPerRequestPrice resolved * of_int units * (if mode = BillingModeImage then imageRate else textRate)
                  else if Kind req \<noteq> InflightEstimatePerRequest then tokenCost else 0));
          cost =
            (if SearchCalls req > 0
             then (case billing d of
                     None \<Rightarrow> cost
                   | Some b \<Rightarrow> (case CalculateSearchCost b (SearchCalls req) group' textRate of
                                  Some x \<Rightarrow> if x > 0 then cost + x else cost
                                | None \<Rightarrow> cost))
             else cost)
      in if \<not> validCost cost then 0 else cost)"

definition bestOf :: "(string \<Rightarrow> rat) \<Rightarrow> string list \<Rightarrow> rat" where
  "bestOf one models = fold (\<lambda>m best. let c = one m in if c > best then c else best) models 0"

text \<open>The cost and whether it counts: \<open>(0, True)\<close> needs no reservation, \<open>(0, False)\<close> cannot be priced.\<close>

definition estimate ::
    "(gotime \<Rightarrow> nat \<times> nat) \<Rightarrow> gotime \<Rightarrow> inflightEstimateDeps \<Rightarrow> APIKey option \<Rightarrow> InflightEstimateRequest \<Rightarrow> rat \<times> bool" where
  "estimate local now d apiKey req =
     (case apiKey of
        None \<Rightarrow> (0, False)
      | Some k \<Rightarrow>
          if User k = None then (0, False)
          else if Model req = [] \<or> Kind req = InflightEstimateAudio \<and> AudioUnits req \<le> 0 then (0, True)
          else
            let (textRate, imageRate) = rates local now d apiKey
            in if textRate \<le> 0 \<and> imageRate \<le> 0 then (0, True)
               else
                 let (primary, fallbacks, upstreamInput) = inflightBillingModelCandidates d apiKey (Model req);
                     best_of = bestOf (\<lambda>m. estimateOne d apiKey m req textRate imageRate);
                     best = best_of primary;
                     composite = (case KeyGroup k of None \<Rightarrow> False | Some g \<Rightarrow> Platform g = PlatformComposite);
                     best =
                       (if best \<le> 0 \<or> composite then
                          (let best = (let c = best_of fallbacks in if c > best then c else best)
                           in if best \<le> 0 \<or> composite
                              then (case accountMappedModels d of
                                      None \<Rightarrow> best
                                    | Some f \<Rightarrow> (let c = best_of (f apiKey upstreamInput) in if c > best then c else best))
                              else best)
                        else best)
                 in if best \<le> 0 then (0, False) else (best, True))"

definition EstimateInflightReservationCost ::
    "BillingService option \<Rightarrow> InflightReservationConfig \<Rightarrow> string \<Rightarrow> int \<Rightarrow> int \<Rightarrow> rat \<Rightarrow> rat \<times> bool" where
  "EstimateInflightReservationCost b c model bodyBytes maxTokens rateMultiplier =
     (case b of
        None \<Rightarrow> (0, False)
      | Some b \<Rightarrow>
          if model = [] \<or> rateMultiplier \<le> 0 then (0, False)
          else (case GetModelPricing b model of
                  None \<Rightarrow> (0, False)
                | Some p \<Rightarrow>
                    (let (inputTokens, outputTokens) = tokenCounts c bodyBytes maxTokens;
                         cost = (of_int inputTokens * InputPricePerToken p + of_int outputTokens * OutputPricePerToken p) * rateMultiplier
                     in if \<not> validCost cost then (0, False) else (cost, True))))"

section \<open>What a reservation decides\<close>

lemma reserve_refuses_first: "ReserveInflightBalance True now db u rid a bal ttl = (db, None)"
  by (simp add: ReserveInflightBalance_def)

text \<open>
  The amount a request asks for: what remains of the estimate after the cap, when the service reserves
  at all for this user.
\<close>

definition asks :: "BillingCacheService option \<Rightarrow> int option \<Rightarrow> Group option \<Rightarrow> bool \<Rightarrow> float64 \<Rightarrow> rat option" where
  "asks s user group' subscription est =
     (case s of None \<Rightarrow> None
      | Some s' \<Rightarrow>
          (case (cfg s', user) of
             (Some c, Some _) \<Rightarrow>
               (let ic = InflightReservationCfg c; cap = MaxReservationUSD ic
                in if Enabled ic \<and> RunMode c \<noteq> RunModeSimple \<and> can_reserve s' \<and>
                      \<not> ((\<exists>g. group' = Some g \<and> IsSubscriptionType g) \<and> subscription)
                   then (case est of
                           Fin x \<Rightarrow> if 0 < x then Some (if 0 < cap then min x cap else x) else None
                         | PInf \<Rightarrow> if 0 < cap then Some cap else None
                         | _ \<Rightarrow> None)
                   else None)
           | _ \<Rightarrow> None))"

lemma reserveInflight_asks:
  "reserveInflight s user group' subscription est renew uuid balance trip now db =
     (case (asks s user group' subscription est, balance) of
        (Some amt, Some bal) \<Rightarrow>
          (let c = fst (inflightReservationConfig s); ttl = reservation_ttl c
           in case reserve_trip trip (ReserveInflightBalance (trip = NotSent) now db (the user) uuid amt bal ttl) of
                (db', None) \<Rightarrow> (db', Inr None)
              | (db', Some (allowed, _)) \<Rightarrow>
                  if \<not> allowed then (db', Inl ErrInsufficientBalance)
                  else (db', Inr (Some \<lparr>userID = the user, requestID = uuid, amount = amt, rttl = ttl,
                          life = new_handle (renew \<and> can_renew (the s))\<rparr>)))
      | _ \<Rightarrow> (db, Inr None))"
proof (cases s)
  case (Some s')
  show ?thesis
  proof (cases "cfg s'")
    case None
    then show ?thesis
      by (cases user) (simp_all add: Some reserveInflight_def asks_def inflightReservationConfig_def)
  next
    case cs: (Some c)
    show ?thesis
    proof (cases user)
      case us: (Some u)
      show ?thesis
        unfolding Some us option.sel
        by (cases est; cases balance; cases group')
          (auto simp: cs reserveInflight_def asks_def inflightReservationConfig_def go_def Let_def min_def
            split: prod.split option.split)
    qed (simp add: Some cs reserveInflight_def asks_def)
  qed
qed (cases user; simp add: reserveInflight_def asks_def inflightReservationConfig_def)


lemma asks_pos: "asks s user g sub est = Some a \<Longrightarrow> 0 < a"
  by (auto simp: asks_def Let_def split: option.splits float64.splits if_splits)

text \<open>
  C22. In every reachable state of the ledger, a request is refused exactly when the service reserves
  for it, the balance was read, Redis answered, the user holds another reservation and the balance less
  what is held is below the capped estimate. It is admitted with a handle, whose amount is then held in
  the cache under its identifier and which has one reference, exactly when Redis admitted it; in every
  other case (switched off, simple mode, no user, subscription, nothing to charge, NaN or infinite
  estimate, a cache that cannot reserve, a failed read or a failed call to Redis) it is let through without a handle.
  Nothing is stored then, unless the call failed after the script ran: in that case an amount that fits is held in the
  cache although the request has no handle to give it back.
\<close>

theorem reserveInflight_fails_open:
  assumes "inflight_reach (reservation_ttl (fst (inflightReservationConfig s))) run"
    and "reserveInflight s (Some u) g sub est renew uuid balance trip (clock run) (store run) = (db', out)"
  shows "(out = Inl ErrInsufficientBalance \<longleftrightarrow>
       (\<exists>a bal. asks s (Some u) g sub est = Some a \<and> balance = Some bal \<and> trip = Answered \<and>
          live (clock run) (store run) u \<noteq> [] \<and> bal - reserved (clock run) (store run) u < a)) \<and>
    (\<forall>r. out = Inr (Some r) \<longrightarrow>
       asks s (Some u) g sub est = Some (amount r) \<and> 0 < amount r \<and>
       (uuid, amount r) \<in> set (live (clock run) db' u) \<and>
       requestID r = uuid \<and> life r = new_handle (renew \<and> can_renew (the s))) \<and>
    (out = Inr None \<longleftrightarrow> asks s (Some u) g sub est = None \<or> balance = None \<or> trip \<noteq> Answered) \<and>
    (out = Inr None \<and> trip \<noteq> ReplyLost \<longrightarrow> db' = store run) \<and>
    (\<forall>a bal. asks s (Some u) g sub est = Some a \<and> balance = Some bal \<and> trip = ReplyLost \<and>
       (live (clock run) (store run) u = [] \<or> a \<le> bal - reserved (clock run) (store run) u) \<longrightarrow>
       (uuid, a) \<in> set (live (clock run) db' u))"
proof -
  let ?ttl = "reservation_ttl (fst (inflightReservationConfig s))"
  have r: "(db', out) = (case (asks s (Some u) g sub est, balance) of
        (Some amt, Some bal) \<Rightarrow>
          (case reserve_trip trip (ReserveInflightBalance (trip = NotSent) (clock run) (store run) u uuid amt bal ?ttl) of
                (db', None) \<Rightarrow> (db', Inr None)
              | (db', Some (allowed, _)) \<Rightarrow>
                  if \<not> allowed then (db', Inl ErrInsufficientBalance)
                  else (db', Inr (Some \<lparr>userID = u, requestID = uuid, amount = amt, rttl = ?ttl,
                          life = new_handle (renew \<and> can_renew (the s))\<rparr>)))
      | _ \<Rightarrow> (store run, Inr None))"
    using assms(2) unfolding reserveInflight_asks Let_def option.sel by simp
  have upd: "(uuid, a) \<in> set (AList.update uuid a xs)" for a and xs :: "(string \<times> rat) list"
    by (rule map_of_SomeD) (simp add: update_conv')
  show ?thesis
  proof (cases "asks s (Some u) g sub est = None \<or> balance = None \<or> trip = NotSent")
    case True
    then show ?thesis using r by (auto simp: reserve_refuses_first reserve_trip_def split: option.splits)
  next
    case False
    then obtain a bal where ab: "asks s (Some u) g sub est = Some a" "balance = Some bal" "trip \<noteq> NotSent" by auto
    obtain db2 x where x: "ReserveInflightBalance False (clock run) (store run) u uuid a bal ?ttl = (db2, x)" by fastforce
    note spec = Reserve_spec[OF reach_user_wf[OF assms(1)] asks_pos[OF ab(1)] x]
    show ?thesis
    proof (cases "trip = ReplyLost")
      case True
      then show ?thesis using r ab x spec(3) upd by (simp add: reserve_trip_def)
    next
      case False
      then have "trip = Answered" using ab(3) by (cases trip) auto
      then show ?thesis
        using r ab x spec(1,3) asks_pos[OF ab(1)] upd by (auto simp: reserve_trip_def not_le split: if_splits)
    qed
  qed
qed

section \<open>What an estimate promises\<close>

lemma higher_ge: "cost \<le> higher cost b"
  by (simp add: higher_def split: option.splits)

text \<open>No estimate is negative, whatever the pricing services return.\<close>

lemma estimateOne_nonneg: "0 \<le> estimateOne d k m req t i"
  by (simp add: estimateOne_def Let_def split_def validCost_def)

lemma bestOf_fold:
  "best0 \<le> fold (\<lambda>m best. let c = one m in if c > best then c else best) models best0 \<and>
   (\<forall>m \<in> set models. one m \<le> fold (\<lambda>m best. let c = one m in if c > best then c else best) models best0) \<and>
   (fold (\<lambda>m best. let c = one m in if c > best then c else best) models best0 = best0 \<or>
    (\<exists>m \<in> set models. fold (\<lambda>m best. let c = one m in if c > best then c else best) models best0 = one m))"
  for one :: "string \<Rightarrow> rat"
proof (induction models arbitrary: best0)
  case (Cons m models)
  show ?case
  proof (cases "one m > best0")
    case True
    then have "best0 \<le> one m" by simp
    moreover from this have "best0 \<le> x" if "one m \<le> x" for x using that by (rule order_trans)
    ultimately show ?thesis using Cons[of "one m"] True by (auto simp: Let_def)
  next
    case False
    then show ?thesis using Cons[of best0] by (auto simp: Let_def)
  qed
qed simp

lemma bestOf_Max: "bestOf one models = Max (insert 0 (one ` set models))"
proof (rule Max_eqI[symmetric])
  show "y \<le> bestOf one models" if "y \<in> insert 0 (one ` set models)" for y
    using that bestOf_fold[of 0 one models] by (auto simp: bestOf_def)
  show "bestOf one models \<in> insert 0 (one ` set models)"
    using bestOf_fold[of 0 one models] by (auto simp: bestOf_def)
qed simp

lemma max_bestOf:
  "max (Max (insert 0 (one ` A))) (Max (insert 0 (one ` B))) = Max (insert 0 (one ` (A \<union> B)))"
  if "finite A" "finite B" for one :: "string \<Rightarrow> rat"
proof -
  have "insert 0 (one ` (A \<union> B)) = insert 0 (one ` A) \<union> insert 0 (one ` B)" by auto
  then show ?thesis using that by (simp only:) (rule Max_Un[symmetric]; simp)
qed

text \<open>
  The models whose price may become the bill: the models the channel bills by; the model forwarded by
  the channel, and then those the accounts of the pool map it to, as long as no price was found or when
  the group is composite.
\<close>

definition unpriced :: "(string \<Rightarrow> rat) \<Rightarrow> string set \<Rightarrow> bool" where
  "unpriced one A \<longleftrightarrow> Max (insert 0 (one ` A)) \<le> 0"

definition considered :: "inflightEstimateDeps \<Rightarrow> APIKey \<Rightarrow> string \<Rightarrow> (string \<Rightarrow> rat) \<Rightarrow> string set" where
  "considered d k model one =
     (let (primary, fallbacks, upstream) = inflightBillingModelCandidates d (Some k) model;
          composite = (\<exists>g. KeyGroup k = Some g \<and> Platform g = PlatformComposite);
          mapped = (case accountMappedModels d of None \<Rightarrow> {} | Some f \<Rightarrow> set (f (Some k) upstream))
      in set primary \<union>
         (if unpriced one (set primary) \<or> composite
          then set fallbacks \<union> (if unpriced one (set primary \<union> set fallbacks) \<or> composite then mapped else {})
          else {}))"

lemma considered_finite: "finite (considered d k model one)"
  by (auto simp: considered_def split_def Let_def split: option.splits)

text \<open>
  C23. For a request that is charged at all, the estimate is the highest estimate among the models that
  may become the bill, and it is reported as unpriced exactly when none of them has a price.
\<close>

theorem estimate_is_highest_candidate:
  assumes "User k \<noteq> None" "Model req \<noteq> []" "Kind req \<noteq> InflightEstimateAudio \<or> 0 < AudioUnits req"
    and "rates local now d (Some k) = (t, i)" "0 < t \<or> 0 < i"
    and "one = (\<lambda>m. estimateOne d (Some k) m req t i)"
  shows "estimate local now d (Some k) req =
    (let best = Max (insert 0 (one ` considered d k (Model req) one)) in (best, 0 < best))"
proof -
  obtain primary fallbacks up where c: "inflightBillingModelCandidates d (Some k) (Model req) = (primary, fallbacks, up)"
    by (metis prod.exhaust)
  define best where "best A = Max (insert 0 (one ` A))" for A
  define composite where "composite \<longleftrightarrow> (\<exists>g. KeyGroup k = Some g \<and> Platform g = PlatformComposite)"
  define mapped where "mapped = (case accountMappedModels d of None \<Rightarrow> [] | Some f \<Rightarrow> f (Some k) up)"
  have bestOf: "bestOf (\<lambda>m. estimateOne d (Some k) m req t i) ms = best (set ms)" for ms
    unfolding bestOf_Max best_def assms(6) ..
  have mx: "(if y > x then y else x) = max x y" for x y :: rat by (simp add: max_def)
  have nn: "0 \<le> best A" if "finite A" for A using that by (simp add: best_def)
  have un: "max (best A) (best B) = best (A \<union> B)" if "finite A" "finite B" for A B
    unfolding best_def using that by (rule max_bestOf)
  have comp: "(case KeyGroup k of None \<Rightarrow> False | Some g \<Rightarrow> Platform g = PlatformComposite) \<longleftrightarrow> composite"
    by (auto simp: composite_def split: option.splits)
  let ?b1 = "best (set primary \<union> set fallbacks)"
  have b1: "0 \<le> ?b1" by (intro nn) simp
  let ?b = "if best (set primary) \<le> 0 \<or> composite
    then (if ?b1 \<le> 0 \<or> composite then best (set primary \<union> set fallbacks \<union> set mapped) else ?b1) else best (set primary)"
  have pre: "(User k = None) = False" "(Model req = []) = False"
    "(Kind req = InflightEstimateAudio \<and> AudioUnits req \<le> 0) = False" "(t \<le> 0 \<and> i \<le> 0) = False"
    using assms(1,2,3,5) by auto
  have "estimate local now d (Some k) req = (if ?b \<le> 0 then (0, False) else (?b, True))"
  proof (cases "accountMappedModels d")
    case None
    then have "best (set primary \<union> set fallbacks \<union> set mapped) = ?b1" by (simp add: mapped_def)
    with None show ?thesis
      unfolding estimate_def
      by (simp only: option.case assms(4) c split_conv Let_def bestOf comp mx un pre if_False finite_set if_cancel simp_thms)
  next
    case (Some f)
    then have "mapped = f (Some k) up" by (simp add: mapped_def)
    with Some show ?thesis
      unfolding estimate_def
      by (simp only: option.case assms(4) c split_conv Let_def bestOf comp mx un pre if_False finite_set finite_Un simp_thms)
  qed
  moreover have "considered d k (Model req) one = (if best (set primary) \<le> 0 \<or> composite
      then (if ?b1 \<le> 0 \<or> composite then set primary \<union> set fallbacks \<union> set mapped else set primary \<union> set fallbacks)
      else set primary)"
    unfolding considered_def c composite_def unpriced_def best_def mapped_def
    by (auto simp: Let_def split: option.splits)
  ultimately have "estimate local now d (Some k) req =
    (let b = best (considered d k (Model req) one) in if b \<le> 0 then (0, False) else (b, True))"
    by simp
  then show ?thesis using nn[OF considered_finite, of d k "Model req" one] by (auto simp: Let_def best_def)
qed

section \<open>Witnesses\<close>

definition demo_service :: BillingCacheService where
  "demo_service = \<lparr>cfg = Some \<lparr>RunMode = ''standard'',
     InflightReservationCfg = zero_config\<lparr>Enabled := True, TTLSeconds := 60\<rparr>, DefaultRateMultiplier = 1\<rparr>,
     can_reserve = True, can_renew = True\<rparr>"

lemma demo_service_sel:
  "inflightReservationConfig (Some demo_service) = (zero_config\<lparr>Enabled := True, TTLSeconds := 60\<rparr>, True)"
  "reservation_ttl (fst (inflightReservationConfig (Some demo_service))) = Minute"
  "asks (Some demo_service) (Some 1) None False (Fin x) = (if 0 < x then Some x else None)"
  "can_renew demo_service"
  by (simp_all add: demo_service_def inflightReservationConfig_def reservation_ttl_def zero_config_def
      asks_def RunModeSimple_def wrap64_def go_def)

theorem reserveInflight_fails_open_witness:
  "\<exists>run db' db'' r. inflight_reach Minute run \<and>
     reserveInflight (Some demo_service) (Some 1) None False (Fin 8) True ''r'' (Some 10) Answered (clock run) (store run) =
       (db', Inl ErrInsufficientBalance) \<and>
     reserveInflight (Some demo_service) (Some 1) None False (Fin 7) True ''r'' (Some 10) Answered (clock run) (store run) =
       (db'', Inr (Some r)) \<and>
     amount r = 7 \<and> (''r'', 7) \<in> set (live (clock run) db'' 1) \<and> life r = new_handle True"
proof -
  obtain run where run: "inflight_reach Minute run" "clock run = 0" "balances run = (\<lambda>_. 10)" "billed run 1 = (\<lambda>_. 0)"
    "live 0 (store run) 1 = [(''a'', 3)]" by (rule one_reserved)
  note reach = run(1)[folded demo_service_sel(2)]
  have res: "reserved 0 (store run) 1 = 3" by (simp add: reserved_def run(5))
  obtain db' out where o1: "reserveInflight (Some demo_service) (Some 1) None False (Fin 8) True ''r'' (Some 10) Answered
      (clock run) (store run) = (db', out)" by fastforce
  obtain db'' out' where o2: "reserveInflight (Some demo_service) (Some 1) None False (Fin 7) True ''r'' (Some 10) Answered
      (clock run) (store run) = (db'', out')" by fastforce
  have "out = Inl ErrInsufficientBalance"
    using reserveInflight_fails_open[OF reach o1] run(2,5) res by (simp add: demo_service_sel(3))
  moreover obtain r where "out' = Inr (Some r)"
    using reserveInflight_fails_open[OF reach o2] run(2,5) res
    by (cases out') (auto simp: demo_service_sel(3) intro: reserve_error.exhaust)
  moreover from this have "amount r = 7" "(''r'', 7) \<in> set (live (clock run) db'' 1)" "life r = new_handle True"
    using reserveInflight_fails_open[OF reach o2] by (auto simp: demo_service_sel)
  ultimately show ?thesis using run(1) o1 o2 by blast
qed

definition demo_billing :: BillingService where
  "demo_billing = \<lparr>GetModelPricing = (\<lambda>m. if m = ''base'' then Some \<lparr>InputPricePerToken = 1, OutputPricePerToken = 2\<rparr> else None),
     CalculateImageCost = (\<lambda>_ _ _ _ _. None), CalculateVideoCost = (\<lambda>_ _ _ _ _ _. None),
     CalculateAudioCost = (\<lambda>_ _ _ _. None), CalculateSearchCost = (\<lambda>_ _ _. None)\<rparr>"

definition demo_deps :: inflightEstimateDeps where
  "demo_deps = \<lparr>dcfg = None, billing = Some demo_billing, resolver = None,
     resolveMapping = Some (\<lambda>_ _. \<lparr>MappedModel = ''base'', BillingModelSource = BillingModelSourceRequested\<rparr>),
     userGroupRate = None, accountMappedModels = None\<rparr>"

definition demo_key :: APIKey where
  "demo_key = \<lparr>User = Some 1, GroupID = Some 2, KeyGroup = None\<rparr>"

definition demo_request :: InflightEstimateRequest where
  "demo_request = \<lparr>Model = ''alias'', BodyBytes = 400, MaxTokens = 50, Kind = InflightEstimateToken, Units = 0,
     SearchCalls = 0, VideoResolution = [], VideoDurationSeconds = 0, AudioMode = [], AudioUnits = 0\<rparr>"

lemmas demo_estimate = demo_billing_def demo_deps_def demo_key_def demo_request_def

theorem estimate_is_highest_candidate_witness:
  "estimate (\<lambda>_. (0, 0)) 0 demo_deps (Some demo_key) demo_request = (200, True)"
proof -
  let ?one = "\<lambda>m. estimateOne demo_deps (Some demo_key) m demo_request 1 1"
  have t: "tokenCounts zero_config 400 50 = (100, 50)"
    by (simp add: tokenCounts_def zero_config_def inflightInputBytesPerTokenEstimate_def)
  have one: "?one ''alias'' = 0" "?one ''base'' = 200"
    by (simp_all add: estimateOne_def demo_estimate inflightReservationCfg_def t token_cost_def validCost_def Let_def)
  have rt: "rates (\<lambda>_. (0, 0)) 0 demo_deps (Some demo_key) = (1, 1)"
    by (simp add: rates_def demo_estimate computePeakAwareMultipliers_def resolveImageRateMultiplier_def)
  have c: "inflightBillingModelCandidates demo_deps (Some demo_key) ''alias'' = ([''alias''], [''base''], ''base'')"
    by (simp add: inflightBillingModelCandidates_def demo_estimate Let_def)
  have "Model demo_request = ''alias''" "KeyGroup demo_key = None" "accountMappedModels demo_deps = None"
    by (simp_all add: demo_estimate)
  then have "considered demo_deps demo_key (Model demo_request) ?one = {''alias'', ''base''}"
    by (simp add: considered_def c unpriced_def one insert_commute)
  then show ?thesis
    using estimate_is_highest_candidate[OF _ _ _ rt _ refl, of demo_request] one
    by (simp add: demo_key_def demo_request_def)
qed

end
