(* ===== verification/PaymentLoadBalancer.thy ===== *)
theory PaymentLoadBalancer
  imports Complex_Main GoPrelude "HOL-Library.Word" "HOL-Library.Multiset"
begin

text \<open>
  The choice of a payment provider instance (\<open>payment/load_balancer.go\<close>, \<open>payment/types.go\<close>). The
  tables of instances and orders are lists of rows, the round-robin counter is a 64-bit word, amounts
  are exact rationals. JSON, the legacy decryption and the start of the local day are arguments.
\<close>

section \<open>Payment types\<close>

definition TypeAlipay :: string where "TypeAlipay = ''alipay''"
definition TypeWxpay :: string where "TypeWxpay = ''wxpay''"
definition TypeAlipayDirect :: string where "TypeAlipayDirect = ''alipay_direct''"
definition TypeWxpayDirect :: string where "TypeWxpayDirect = ''wxpay_direct''"
definition TypeStripe :: string where "TypeStripe = ''stripe''"
definition TypeCard :: string where "TypeCard = ''card''"
definition TypeLink :: string where "TypeLink = ''link''"
definition TypeEasyPay :: string where "TypeEasyPay = ''easypay''"
definition TypeAirwallex :: string where "TypeAirwallex = ''airwallex''"
definition OrderStatusPending :: string where "OrderStatusPending = ''PENDING''"
definition OrderStatusPaid :: string where "OrderStatusPaid = ''PAID''"
definition OrderStatusRecharging :: string where "OrderStatusRecharging = ''RECHARGING''"
definition OrderStatusCompleted :: string where "OrderStatusCompleted = ''COMPLETED''"
definition StrategyRoundRobin :: string where "StrategyRoundRobin = ''round-robin''"
definition StrategyLeastAmount :: string where "StrategyLeastAmount = ''least-amount''"
definition AES256KeySize :: nat where "AES256KeySize = 32"

lemmas payment_types [go_def] = TypeAlipay_def TypeWxpay_def TypeAlipayDirect_def TypeWxpayDirect_def
  TypeStripe_def TypeCard_def TypeLink_def TypeEasyPay_def TypeAirwallex_def
lemmas order_statuses [go_def] = OrderStatusPending_def OrderStatusPaid_def OrderStatusRecharging_def
  OrderStatusCompleted_def StrategyRoundRobin_def StrategyLeastAmount_def

definition GetBasePaymentType :: "string \<Rightarrow> string" where
  "GetBasePaymentType t =
     (if t = TypeEasyPay then TypeEasyPay
      else if t = TypeAirwallex then TypeAirwallex
      else if t = TypeStripe \<or> t = TypeCard \<or> t = TypeLink then TypeStripe
      else if length TypeAlipay \<le> length t \<and> take (length TypeAlipay) t = TypeAlipay then TypeAlipay
      else if length TypeWxpay \<le> length t \<and> take (length TypeWxpay) t = TypeWxpay then TypeWxpay
      else t)"

definition normalizeVisibleMethodSupportType :: "string \<Rightarrow> string" where
  "normalizeVisibleMethodSupportType paymentType =
     (let t = TrimSpace paymentType
      in if t = TypeAlipay \<or> t = TypeAlipayDirect then TypeAlipay
         else if t = TypeWxpay \<or> t = TypeWxpayDirect then TypeWxpay
         else t)"

definition legacyVisibleMethodAlias :: "string \<Rightarrow> string" where
  "legacyVisibleMethodAlias paymentType =
     (let t = normalizeVisibleMethodSupportType paymentType
      in if t = TypeAlipay then TypeAlipayDirect
         else if t = TypeWxpay then TypeWxpayDirect
         else [])"

definition InstanceSupportsType :: "string \<Rightarrow> string \<Rightarrow> bool" where
  "InstanceSupportsType supportedTypes target =
     (if supportedTypes = [] then True
      else
        let normalizedTarget = normalizeVisibleMethodSupportType target
        in list_ex (\<lambda>t. let supported = TrimSpace t
                     in supported = target \<or> normalizeVisibleMethodSupportType supported = normalizedTarget)
             (Split CHR '','' supportedTypes))"

section \<open>Rows\<close>

record ChannelLimits =
  DailyLimit :: rat
  SingleMin :: rat
  SingleMax :: rat

definition no_limits :: ChannelLimits where
  "no_limits = \<lparr>DailyLimit = 0, SingleMin = 0, SingleMax = 0\<rparr>"

record PaymentProviderInstance =
  ID :: int
  ProviderKey :: string
  SupportedTypes :: string
  Config :: string
  Limits :: string
  PaymentMode :: string
  Enabled :: bool
  SortOrder :: int

record PaymentOrder =
  ProviderInstanceID :: string
  Status :: string
  PayAmount :: rat
  CreatedAt :: gotime
  PaidAt :: "gotime option"

type_synonym config = "string \<rightharpoonup> string"

record InstanceSelection =
  InstanceID :: string
  SelProviderKey :: string
  SelConfig :: config
  SelSupportedTypes :: string
  SelPaymentMode :: string

record instanceCandidate =
  inst :: PaymentProviderInstance
  dailyUsed :: rat

record DefaultLoadBalancer =
  instances :: "PaymentProviderInstance list"
  orders :: "PaymentOrder list"
  encryptionKey :: string
  counter :: "64 word"

datatype lb_error = QueryFailed | NoEnabledInstance string | InstanceNotFound int

section \<open>The stored configuration\<close>

text \<open>\<open>unmarshal\<close> reads a JSON object of strings, \<open>Some None\<close> being \<open>null\<close>; \<open>None\<close> is a \<open>nil\<close> map.\<close>

definition decryptConfig ::
    "(string \<Rightarrow> config option option) \<Rightarrow> (string \<Rightarrow> string \<Rightarrow> string option) \<Rightarrow> string \<Rightarrow> string \<Rightarrow> config option" where
  "decryptConfig unmarshal decrypt key stored =
     (if stored = [] then None
      else case unmarshal stored of
             Some c \<Rightarrow> c
           | None \<Rightarrow>
               if length key = AES256KeySize then
                 (case decrypt stored key of
                    None \<Rightarrow> None
                  | Some plaintext \<Rightarrow> (case unmarshal plaintext of Some c \<Rightarrow> c | None \<Rightarrow> None))
               else None)"

definition config_get :: "config option \<Rightarrow> string \<Rightarrow> string" where
  "config_get c k = (case c of None \<Rightarrow> [] | Some m \<Rightarrow> (case m k of None \<Rightarrow> [] | Some v \<Rightarrow> v))"

definition resolveWxpayJSAPIAppID :: "config option \<Rightarrow> string" where
  "resolveWxpayJSAPIAppID c =
     (let appID = TrimSpace (config_get c ''mpAppId'')
      in if appID \<noteq> [] then appID else TrimSpace (config_get c ''appId''))"

definition buildSelection ::
    "(string \<Rightarrow> config option option) \<Rightarrow> (string \<Rightarrow> string \<Rightarrow> string option) \<Rightarrow> string \<Rightarrow> PaymentProviderInstance \<Rightarrow> InstanceSelection" where
  "buildSelection unmarshal decrypt key selected =
     (let c = (case decryptConfig unmarshal decrypt key (Config selected) of None \<Rightarrow> Map.empty | Some m \<Rightarrow> m);
          c = (if PaymentMode selected \<noteq> [] then c(''paymentMode'' \<mapsto> PaymentMode selected) else c)
      in \<lparr>InstanceID = Itoa (ID selected), SelProviderKey = ProviderKey selected, SelConfig = c,
          SelSupportedTypes = SupportedTypes selected, SelPaymentMode = PaymentMode selected\<rparr>)"

section \<open>The selection\<close>

text \<open>\<open>db_fails\<close> is an error of the first query; \<open>appID\<close> the identifier carried by the context.\<close>

definition instance_matches ::
    "(string \<Rightarrow> config option option) \<Rightarrow> (string \<Rightarrow> string \<Rightarrow> string option) \<Rightarrow> string \<Rightarrow> string \<Rightarrow> string \<Rightarrow> PaymentProviderInstance \<Rightarrow> bool" where
  "instance_matches unmarshal decrypt key appID paymentType i =
     (if paymentType = TypeStripe then ProviderKey i = TypeStripe
      else if InstanceSupportsType (SupportedTypes i) paymentType then
        (if appID \<noteq> [] \<and> normalizeVisibleMethodSupportType paymentType = TypeWxpay \<and> ProviderKey i = TypeWxpay
         then resolveWxpayJSAPIAppID (decryptConfig unmarshal decrypt key (Config i)) = appID
         else True)
      else False)"

definition queryEnabledInstances ::
    "(string \<Rightarrow> config option option) \<Rightarrow> (string \<Rightarrow> string \<Rightarrow> string option) \<Rightarrow> bool \<Rightarrow> string \<Rightarrow>
     DefaultLoadBalancer \<Rightarrow> string \<Rightarrow> string \<Rightarrow> lb_error + PaymentProviderInstance list" where
  "queryEnabledInstances unmarshal decrypt db_fails appID lb providerKey paymentType =
     (if db_fails then Inl QueryFailed
      else
        let rows = filter (\<lambda>i. Enabled i \<and> (providerKey = [] \<or> ProviderKey i = providerKey)) (instances lb);
            rows = sort_key SortOrder rows;
            matched = filter (instance_matches unmarshal decrypt (encryptionKey lb) appID paymentType) rows
        in if matched = [] then Inl (NoEnabledInstance paymentType) else Inr matched)"

definition usage_statuses :: "string set" where
  "usage_statuses = {OrderStatusPending, OrderStatusPaid, OrderStatusCompleted, OrderStatusRecharging}"

definition daily_usage :: "PaymentOrder list \<Rightarrow> gotime \<Rightarrow> string \<Rightarrow> rat" where
  "daily_usage os todayStart iid =
     sum_list (map PayAmount
       (filter (\<lambda>ord. ProviderInstanceID ord = iid \<and> Status ord \<in> usage_statuses \<and> todayStart \<le> CreatedAt ord) os))"

text \<open>A failed usage query counts every usage as zero.\<close>

definition attachDailyUsage ::
    "(gotime \<Rightarrow> gotime) \<Rightarrow> bool \<Rightarrow> gotime \<Rightarrow> DefaultLoadBalancer \<Rightarrow> PaymentProviderInstance list \<Rightarrow> instanceCandidate list" where
  "attachDailyUsage startOfDay usage_fails now lb is =
     map (\<lambda>i. \<lparr>inst = i, dailyUsed = (if usage_fails then 0 else daily_usage (orders lb) (startOfDay now) (Itoa (ID i)))\<rparr>) is"

definition getInstanceChannelLimits ::
    "(string \<Rightarrow> (string \<rightharpoonup> ChannelLimits) option) \<Rightarrow> PaymentProviderInstance \<Rightarrow> string \<Rightarrow> ChannelLimits" where
  "getInstanceChannelLimits unmarshal_limits i paymentType =
     (if Limits i = [] then no_limits
      else case unmarshal_limits (Limits i) of
             None \<Rightarrow> no_limits
           | Some limits \<Rightarrow>
               let lookupKey = (if ProviderKey i = ''stripe'' then ''stripe'' else paymentType)
               in case limits lookupKey of
                    Some cl \<Rightarrow> cl
                  | None \<Rightarrow>
                      let aliasKey = legacyVisibleMethodAlias lookupKey
                      in if aliasKey \<noteq> [] then (case limits aliasKey of Some cl \<Rightarrow> cl | None \<Rightarrow> no_limits)
                         else no_limits)"

text \<open>One pass of the loop: whether the candidate is kept.\<close>

definition within_limits ::
    "(string \<Rightarrow> (string \<rightharpoonup> ChannelLimits) option) \<Rightarrow> string \<Rightarrow> rat \<Rightarrow> instanceCandidate \<Rightarrow> bool" where
  "within_limits unmarshal_limits paymentType orderAmount c =
     (let cl = getInstanceChannelLimits unmarshal_limits (inst c) paymentType
      in if SingleMin cl > 0 \<and> orderAmount < SingleMin cl then False
         else if SingleMax cl > 0 \<and> orderAmount > SingleMax cl then False
         else if DailyLimit cl > 0 \<and> dailyUsed c + orderAmount > DailyLimit cl then False
         else True)"

definition filterByLimits ::
    "(string \<Rightarrow> (string \<rightharpoonup> ChannelLimits) option) \<Rightarrow> instanceCandidate list \<Rightarrow> string \<Rightarrow> rat \<Rightarrow> instanceCandidate list" where
  "filterByLimits unmarshal_limits candidates paymentType orderAmount =
     filter (within_limits unmarshal_limits paymentType orderAmount) candidates"

definition pickLeastAmount :: "instanceCandidate list \<Rightarrow> instanceCandidate" where
  "pickLeastAmount candidates =
     fold (\<lambda>c best. if dailyUsed c < dailyUsed best then c else best) (tl candidates) (hd candidates)"

text \<open>\<open>None\<close> is the panic of a remainder by zero; the counter advances for round robin only.\<close>

definition pickByStrategy ::
    "64 word \<Rightarrow> instanceCandidate list \<Rightarrow> string \<Rightarrow> 64 word \<times> instanceCandidate option" where
  "pickByStrategy n candidates strategy =
     (if strategy = StrategyLeastAmount \<and> length candidates > 1 then (n, Some (pickLeastAmount candidates))
      else if candidates = [] then (n + 1, None)
      else (n + 1, Some (candidates ! (unat (n + 1) mod length candidates))))"

definition SelectInstance ::
    "(string \<Rightarrow> config option option) \<Rightarrow> (string \<Rightarrow> string \<Rightarrow> string option) \<Rightarrow> (string \<Rightarrow> (string \<rightharpoonup> ChannelLimits) option) \<Rightarrow>
     (gotime \<Rightarrow> gotime) \<Rightarrow> bool \<Rightarrow> bool \<Rightarrow> string \<Rightarrow> gotime \<Rightarrow> DefaultLoadBalancer \<Rightarrow> string \<Rightarrow> string \<Rightarrow> string \<Rightarrow> rat \<Rightarrow>
     DefaultLoadBalancer \<times> (lb_error + InstanceSelection option)" where
  "SelectInstance unmarshal decrypt unmarshal_limits startOfDay db_fails usage_fails appID now lb providerKey paymentType strategy orderAmount =
     (case queryEnabledInstances unmarshal decrypt db_fails appID lb providerKey paymentType of
        Inl e \<Rightarrow> (lb, Inl e)
      | Inr is \<Rightarrow>
          (let candidates = attachDailyUsage startOfDay usage_fails now lb is;
               available = filterByLimits unmarshal_limits candidates paymentType orderAmount;
               available = (if available = [] then candidates else available);
               (n, selected) = pickByStrategy (counter lb) available strategy
           in (lb\<lparr>counter := n\<rparr>,
               Inr (map_option (\<lambda>c. buildSelection unmarshal decrypt (encryptionKey lb) (inst c)) selected))))"

definition paid_statuses :: "string set" where
  "paid_statuses = {OrderStatusCompleted, OrderStatusPaid, OrderStatusRecharging}"

definition GetInstanceDailyAmount ::
    "(gotime \<Rightarrow> gotime) \<Rightarrow> bool \<Rightarrow> gotime \<Rightarrow> DefaultLoadBalancer \<Rightarrow> string \<Rightarrow> lb_error + rat" where
  "GetInstanceDailyAmount startOfDay db_fails now lb instanceID =
     (if db_fails then Inl QueryFailed
      else Inr (sum_list (map PayAmount
        (filter (\<lambda>ord. ProviderInstanceID ord = instanceID \<and> Status ord \<in> paid_statuses \<and>
             (case PaidAt ord of None \<Rightarrow> False | Some t \<Rightarrow> startOfDay now \<le> t)) (orders lb)))))"

definition GetInstanceConfig ::
    "(string \<Rightarrow> config option option) \<Rightarrow> (string \<Rightarrow> string \<Rightarrow> string option) \<Rightarrow> DefaultLoadBalancer \<Rightarrow> int \<Rightarrow> lb_error + config option" where
  "GetInstanceConfig unmarshal decrypt lb instanceID =
     (case find (\<lambda>i. ID i = instanceID) (instances lb) of
        None \<Rightarrow> Inl (InstanceNotFound instanceID)
      | Some i \<Rightarrow> Inr (decryptConfig unmarshal decrypt (encryptionKey lb) (Config i)))"

section \<open>The least used candidate\<close>

lemma least_fold:
  fixes b :: instanceCandidate and cs :: "instanceCandidate list"
  defines "r \<equiv> fold (\<lambda>c best. if dailyUsed c < dailyUsed best then c else best) cs b"
  shows "r \<in> insert b (set cs)" "\<forall>c \<in> insert b (set cs). dailyUsed r \<le> dailyUsed c"
  unfolding r_def
proof (induction cs arbitrary: b)
  case (Cons c cs)
  {
    case 1
    show ?case using Cons(1)[of "if dailyUsed c < dailyUsed b then c else b"] by auto
  next
    case 2
    show ?case
    proof (cases "dailyUsed c < dailyUsed b")
      case True
      then show ?thesis using Cons(2)[of c] by (auto intro: order_trans less_imp_le)
    next
      case False
      then show ?thesis using Cons(2)[of b] by (auto intro: order_trans)
    qed
  }
qed simp_all

lemma pickLeastAmount_least:
  assumes "cs \<noteq> []"
  shows "pickLeastAmount cs \<in> set cs" "\<And>c. c \<in> set cs \<Longrightarrow> dailyUsed (pickLeastAmount cs) \<le> dailyUsed c"
  using least_fold[where cs = "tl cs" and b = "hd cs"] assms by (cases cs; auto simp: pickLeastAmount_def)+

lemma pickByStrategy_spec:
  assumes "cs \<noteq> []" "pickByStrategy n cs strategy = (n', sel)"
  obtains c where "sel = Some c" "c \<in> set cs" "strategy = StrategyLeastAmount \<longrightarrow> (\<forall>d \<in> set cs. dailyUsed c \<le> dailyUsed d)"
proof (cases "strategy = StrategyLeastAmount \<and> length cs > 1")
  case True
  then show ?thesis using assms pickLeastAmount_least[OF assms(1)] that by (auto simp: pickByStrategy_def)
next
  case False
  let ?c = "cs ! (unat (n + 1) mod length cs)"
  have "sel = Some ?c" using False assms by (auto simp: pickByStrategy_def)
  moreover have "?c \<in> set cs" using assms(1) by simp
  moreover have "dailyUsed ?c \<le> dailyUsed d" if s: "strategy = StrategyLeastAmount" "d \<in> set cs" for d
  proof -
    have "length cs = 1" using False s(1) assms(1) by (cases cs) auto
    then obtain x where "cs = [x]" by (auto simp: length_Suc_conv)
    then show ?thesis using s(2) by simp
  qed
  ultimately show ?thesis by (intro that) auto
qed

section \<open>Properties\<close>

text \<open>The instances that serve a request, and the usage of today the selection goes by: zero for all when its query failed.\<close>

definition serves_request ::
    "(string \<Rightarrow> config option option) \<Rightarrow> (string \<Rightarrow> string \<Rightarrow> string option) \<Rightarrow> string \<Rightarrow>
     DefaultLoadBalancer \<Rightarrow> string \<Rightarrow> string \<Rightarrow> PaymentProviderInstance \<Rightarrow> bool" where
  "serves_request unmarshal decrypt appID lb providerKey paymentType i \<longleftrightarrow>
     i \<in> set (instances lb) \<and> Enabled i \<and> (providerKey = [] \<or> ProviderKey i = providerKey) \<and>
     instance_matches unmarshal decrypt (encryptionKey lb) appID paymentType i"

definition used_today :: "(gotime \<Rightarrow> gotime) \<Rightarrow> bool \<Rightarrow> gotime \<Rightarrow> DefaultLoadBalancer \<Rightarrow> PaymentProviderInstance \<Rightarrow> rat" where
  "used_today startOfDay usage_fails now lb i =
     (if usage_fails then 0 else daily_usage (orders lb) (startOfDay now) (Itoa (ID i)))"

text \<open>The limits an order keeps; a limit that is not positive is none.\<close>

definition keeps_limits :: "ChannelLimits \<Rightarrow> rat \<Rightarrow> rat \<Rightarrow> bool" where
  "keeps_limits cl amount used \<longleftrightarrow>
     (SingleMin cl \<le> 0 \<or> SingleMin cl \<le> amount) \<and> (SingleMax cl \<le> 0 \<or> amount \<le> SingleMax cl) \<and>
     (DailyLimit cl \<le> 0 \<or> used + amount \<le> DailyLimit cl)"

lemma within_keeps:
  "within_limits unmarshal_limits paymentType amount c \<longleftrightarrow>
     keeps_limits (getInstanceChannelLimits unmarshal_limits (inst c) paymentType) amount (dailyUsed c)"
  by (auto simp: within_limits_def keeps_limits_def Let_def not_less)

lemma attached_offers:
  assumes "queryEnabledInstances unmarshal decrypt db_fails appID lb providerKey paymentType = Inr is"
  shows "set (attachDailyUsage startOfDay usage_fails now lb is) =
    {\<lparr>inst = i, dailyUsed = used_today startOfDay usage_fails now lb i\<rparr> |i.
       serves_request unmarshal decrypt appID lb providerKey paymentType i}" "is \<noteq> []"
proof -
  have i: "set is = {i. serves_request unmarshal decrypt appID lb providerKey paymentType i}" "is \<noteq> []"
    using assms by (auto simp: queryEnabledInstances_def serves_request_def Let_def split: if_splits)
  show "is \<noteq> []" by (rule i(2))
  show "set (attachDailyUsage startOfDay usage_fails now lb is) =
    {\<lparr>inst = i, dailyUsed = used_today startOfDay usage_fails now lb i\<rparr> |i.
       serves_request unmarshal decrypt appID lb providerKey paymentType i}"
    unfolding attachDailyUsage_def set_map i(1) used_today_def by auto
qed

text \<open>
  C27. The selection is an enabled instance of the requested provider that serves the payment type. As far as the usage
  of today is known, it keeps the order within the limits of a single payment and of the day, unless no instance that
  serves the request does, and with the least-amount strategy none of the instances in question was used less
  today. When the query of the usage fails, all usages count as zero: the limits of a single payment are kept as before,
  but the limit of the day is checked against this order alone and the strategy is blind.
\<close>

theorem selection_respects_limits:
  assumes "SelectInstance unmarshal decrypt unmarshal_limits startOfDay False usage_fails appID now lb providerKey paymentType
      strategy orderAmount = (lb', Inr sel)"
    and "serves = serves_request unmarshal decrypt appID lb providerKey paymentType"
    and "used = used_today startOfDay usage_fails now lb"
    and "fits = (\<lambda>i. keeps_limits (getInstanceChannelLimits unmarshal_limits i paymentType) orderAmount (used i))"
  shows "\<exists>i. sel = Some (buildSelection unmarshal decrypt (encryptionKey lb) i) \<and> serves i \<and>
    (fits i \<or> (\<forall>j. serves j \<longrightarrow> \<not> fits j)) \<and>
    (strategy = StrategyLeastAmount \<longrightarrow> (\<forall>j. serves j \<longrightarrow> fits j = fits i \<longrightarrow> used i \<le> used j))"
proof -
  obtain "is" where q: "queryEnabledInstances unmarshal decrypt False appID lb providerKey paymentType = Inr is"
    using assms(1) by (auto simp: SelectInstance_def split: sum.splits)
  let ?cs = "attachDailyUsage startOfDay usage_fails now lb is"
  let ?av = "filterByLimits unmarshal_limits ?cs paymentType orderAmount"
  let ?use = "if ?av = [] then ?cs else ?av"
  let ?c = "\<lambda>i. \<lparr>inst = i, dailyUsed = used i\<rparr>"
  have cs: "set ?cs = {?c i |i. serves i}" "is \<noteq> []" using attached_offers[OF q] by (simp_all add: assms(2,3))
  have ne: "?use \<noteq> []" using cs(2) by (simp add: attachDailyUsage_def)
  have av: "set ?av = {?c i |i. serves i \<and> fits i}"
    using cs(1) by (auto simp: filterByLimits_def within_keeps assms(4))
  obtain n c0 where p: "pickByStrategy (counter lb) ?use strategy = (n, c0)" by fastforce
  have sel: "sel = map_option (\<lambda>c. buildSelection unmarshal decrypt (encryptionKey lb) (inst c)) c0"
    using assms(1) q p by (simp add: SelectInstance_def Let_def)
  obtain c where c: "c0 = Some c" "c \<in> set ?use" "strategy = StrategyLeastAmount \<longrightarrow> (\<forall>d \<in> set ?use. dailyUsed c \<le> dailyUsed d)"
    by (rule pickByStrategy_spec[OF ne p])
  have none: "?av = [] \<longleftrightarrow> (\<forall>j. serves j \<longrightarrow> \<not> fits j)" using av by (auto simp flip: set_empty)
  have use: "set ?use = {?c j |j. serves j \<and> (fits j \<or> ?av = [])}" using cs(1) av by (cases "?av = []") auto
  obtain i where i: "c = ?c i" "serves i" "fits i \<or> ?av = []" using c(2) unfolding use by blast
  have "used i \<le> used j" if "strategy = StrategyLeastAmount" "serves j" "fits j = fits i" for j
  proof -
    have "?c j \<in> set ?use" unfolding use using that(2,3) i(3) by auto
    then show ?thesis using c(3) that(1) i(1) by fastforce
  qed
  then show ?thesis using c(1) sel i none by auto
qed

text \<open>Consecutive round-robin picks from the same candidates.\<close>

fun picks :: "64 word \<Rightarrow> instanceCandidate list \<Rightarrow> nat \<Rightarrow> instanceCandidate option list" where
  "picks n cs 0 = []"
| "picks n cs (Suc k) = (let (n', c) = pickByStrategy n cs StrategyRoundRobin in c # picks n' cs k)"

lemma picks_eq:
  assumes "cs \<noteq> []" "unat n + k < 2 ^ 64"
  shows "picks n cs k = map (\<lambda>j. Some (cs ! ((unat n + 1 + j) mod length cs))) [0..<k]"
  using assms(2)
proof (induction k arbitrary: n)
  case (Suc k)
  have u: "unat (n + 1) = unat n + 1" using Suc.prems by (simp add: unat_word_ariths)
  have "picks n cs (Suc k) = Some (cs ! (unat (n + 1) mod length cs)) # picks (n + 1) cs k"
    using assms(1) by (simp add: pickByStrategy_def StrategyRoundRobin_def StrategyLeastAmount_def)
  also have "\<dots> = map (\<lambda>j. Some (cs ! ((unat n + 1 + j) mod length cs))) [0..<Suc k]"
    using Suc.IH[of "n + 1"] Suc.prems unfolding u by (simp add: upt_conv_Cons map_Suc_upt[symmetric] del: upt_Suc)
  finally show ?case .
qed simp

text \<open>
  Round robin is fair: as long as the 64-bit counter does not wrap around, as many consecutive
  payments as there are candidates use each candidate exactly once.
\<close>

theorem round_robin_is_fair:
  assumes "cs \<noteq> []" "unat n + length cs < 2 ^ 64"
  shows "mset (picks n cs (length cs)) = mset (map Some cs)"
proof -
  have round: "map (\<lambda>j. Some (cs ! ((a + j) mod length cs))) [0..<length cs] = map Some (rotate a cs)" for a
    by (rule nth_equalityI) (simp_all add: nth_rotate)
  have "picks n cs (length cs) = map Some (rotate (unat n + 1) cs)"
    unfolding picks_eq[OF assms] by (rule round)
  moreover have "mset (rotate a cs) = mset cs" for a
    by (metis append_take_drop_id mset_append rotate_drop_take union_commute)
  ultimately show ?thesis by (simp only: mset_map)
qed

section \<open>Witnesses\<close>

definition demo_instance :: "int \<Rightarrow> string \<Rightarrow> PaymentProviderInstance" where
  "demo_instance i limits = \<lparr>ID = i, ProviderKey = ''easypay'', SupportedTypes = ''alipay,wxpay'', Config = [],
     Limits = limits, PaymentMode = [], Enabled = True, SortOrder = i\<rparr>"

definition demo_balancer :: DefaultLoadBalancer where
  "demo_balancer = \<lparr>instances = [demo_instance 1 ''low'', demo_instance 2 []], orders = [], encryptionKey = [], counter = 0\<rparr>"

definition demo_limits :: "string \<Rightarrow> (string \<rightharpoonup> ChannelLimits) option" where
  "demo_limits s = Some [''alipay'' \<mapsto> \<lparr>DailyLimit = 0, SingleMin = 0, SingleMax = 10\<rparr>]"

text \<open>An order of 50 goes to the instance without a limit, whose turn it would not be.\<close>

theorem selection_respects_limits_witness:
  "\<exists>lb'. SelectInstance (\<lambda>_. None) (\<lambda>_ _. None) demo_limits id False False [] 0 demo_balancer [] ''alipay'' StrategyRoundRobin 50 =
     (lb', Inr (Some (buildSelection (\<lambda>_. None) (\<lambda>_ _. None) [] (demo_instance 2 []))))"
proof -
  define used where "used = used_today id False 0 demo_balancer"
  define fits where "fits = (\<lambda>i. keeps_limits (getInstanceChannelLimits demo_limits i ''alipay'') 50 (used i))"
  define serves where "serves = serves_request (\<lambda>_. None) (\<lambda>_ _. None) [] demo_balancer [] ''alipay''"
  obtain lb' out where o: "SelectInstance (\<lambda>_. None) (\<lambda>_ _. None) demo_limits id False False [] 0 demo_balancer [] ''alipay''
      StrategyRoundRobin 50 = (lb', out)" by fastforce
  have sup: "InstanceSupportsType ''alipay,wxpay'' ''alipay''" by code_simp
  have m: "instance_matches (\<lambda>_. None) (\<lambda>_ _. None) [] [] ''alipay'' (demo_instance i l)" for i l
    by (simp add: instance_matches_def demo_instance_def sup go_def)
  have sel_inst: "Enabled (demo_instance i l)" "SortOrder (demo_instance i l) = i" for i l
    by (simp_all add: demo_instance_def)
  have q: "queryEnabledInstances (\<lambda>_. None) (\<lambda>_ _. None) False [] demo_balancer [] ''alipay'' =
    Inr [demo_instance 1 ''low'', demo_instance 2 []]"
    by (simp add: queryEnabledInstances_def demo_balancer_def m sel_inst)
  obtain sel where "out = Inr sel"
    using o by (auto simp: SelectInstance_def q Let_def split: prod.splits)
  then have o': "SelectInstance (\<lambda>_. None) (\<lambda>_ _. None) demo_limits id False False [] 0 demo_balancer [] ''alipay''
      StrategyRoundRobin 50 = (lb', Inr sel)" using o by simp
  obtain i where c: "sel = Some (buildSelection (\<lambda>_. None) (\<lambda>_ _. None) [] i)" "serves i"
    "fits i \<or> (\<forall>d. serves d \<longrightarrow> \<not> fits d)"
    using selection_respects_limits[OF o' serves_def used_def fits_def] by (auto simp: demo_balancer_def)
  have none: "\<not> fits (demo_instance 1 ''low'')"
    by (simp add: fits_def keeps_limits_def getInstanceChannelLimits_def demo_limits_def) (simp add: demo_instance_def)
  have d: "serves (demo_instance 2 [])" "fits (demo_instance 2 [])"
    by (simp_all add: serves_def fits_def serves_request_def keeps_limits_def getInstanceChannelLimits_def demo_balancer_def
        m no_limits_def sel_inst) (simp_all add: demo_instance_def)
  then have "fits i" using c(3) by blast
  moreover have "i = demo_instance 1 ''low'' \<or> i = demo_instance 2 []"
    using c(2) by (simp add: serves_def serves_request_def demo_balancer_def)
  ultimately have "i = demo_instance 2 []" using none by auto
  then show ?thesis using o' c(1) by auto
qed

theorem round_robin_is_fair_witness:
  "mset (picks 7 [\<lparr>inst = demo_instance 1 [], dailyUsed = 0\<rparr>, \<lparr>inst = demo_instance 2 [], dailyUsed = 5\<rparr>] (Suc (Suc 0))) =
   {# Some \<lparr>inst = demo_instance 1 [], dailyUsed = 0\<rparr>, Some \<lparr>inst = demo_instance 2 [], dailyUsed = 5\<rparr> #}"
proof -
  let ?cs = "[\<lparr>inst = demo_instance 1 [], dailyUsed = 0\<rparr>, \<lparr>inst = demo_instance 2 [], dailyUsed = 5\<rparr>]"
  have "unat (7 :: 64 word) + length ?cs < 2 ^ 64" by simp
  from round_robin_is_fair[OF _ this] show ?thesis by (simp del: picks.simps)
qed

end
