(* ===== verification/KeywordMatcher.thy ===== *)
theory KeywordMatcher
  imports Complex_Main GoPrelude
begin

text \<open>
  The matcher of blocked keywords, \<open>service/content_moderation_keyword_matcher.go\<close>: an Aho-Corasick
  automaton in arrays. Arrays are lists; an index that the code keeps as \<open>int32\<close> is a natural number,
  or an integer where \<open>-1\<close> stands for none; labels are bytes. \<open>strings.ToLower\<close>, which knows all of
  Unicode, is an argument. The loops that follow links get the length of an array as fuel, which is
  enough because sibling links go to smaller indices and failure links to shorter strings.
\<close>

section \<open>The arrays\<close>

record contentModerationKeywordNode =
  failure :: nat
  bestKeyword :: int
  edgeStart :: nat
  edgeCount :: nat

record contentModerationKeywordEdge =
  target :: nat
  label :: char

record contentModerationKeywordBuildEdge =
  btarget :: nat
  nextSibling :: int
  blabel :: char

record contentModerationKeywordMatcher =
  nodes :: "contentModerationKeywordNode list"
  edges :: "contentModerationKeywordEdge list"
  rootTransitions :: "char \<Rightarrow> nat"
  keywordList :: "string list"

definition newContentModerationKeywordNode :: contentModerationKeywordNode where
  "newContentModerationKeywordNode = \<lparr>failure = 0, bestKeyword = -1, edgeStart = 0, edgeCount = 0\<rparr>"

definition contentModerationKeywordBuildFirstEdge :: "contentModerationKeywordNode \<Rightarrow> int" where
  "contentModerationKeywordBuildFirstEdge node = (if edgeStart node = 0 then -1 else int (edgeStart node - 1))"

text \<open>The edges a loop over the siblings visits, from a first index on.\<close>

fun edge_chain :: "nat \<Rightarrow> contentModerationKeywordBuildEdge list \<Rightarrow> int \<Rightarrow> contentModerationKeywordBuildEdge list" where
  "edge_chain 0 es i = []"
| "edge_chain (Suc n) es i = (if i < 0 then [] else es ! nat i # edge_chain n es (nextSibling (es ! nat i)))"

definition edges_of ::
    "contentModerationKeywordNode list \<Rightarrow> contentModerationKeywordBuildEdge list \<Rightarrow> nat \<Rightarrow> contentModerationKeywordBuildEdge list" where
  "edges_of ns es s = edge_chain (length es) es (contentModerationKeywordBuildFirstEdge (ns ! s))"

definition contentModerationKeywordBuildTransition ::
    "contentModerationKeywordNode list \<Rightarrow> contentModerationKeywordBuildEdge list \<Rightarrow> nat \<Rightarrow> char \<Rightarrow> int" where
  "contentModerationKeywordBuildTransition ns es s c =
     (if s \<ge> length ns then -1
      else case find (\<lambda>e. blabel e = c) (edges_of ns es s) of None \<Rightarrow> -1 | Some e \<Rightarrow> int (btarget e))"

definition minKeywordIndex :: "int \<Rightarrow> int \<Rightarrow> int" where
  "minKeywordIndex left right =
     (if left < 0 then right else if right < 0 \<or> left < right then left else right)"

section \<open>Building the trie\<close>

type_synonym build = "contentModerationKeywordNode list \<times> contentModerationKeywordBuildEdge list"

definition add_byte :: "build \<times> nat \<Rightarrow> char \<Rightarrow> build \<times> nat" where
  "add_byte b c =
     (case b of ((ns, es), state) \<Rightarrow>
        let next = contentModerationKeywordBuildTransition ns es state c
        in if next < 0 then
             (let new = length ns;
                  ns = ns @ [newContentModerationKeywordNode];
                  es = es @ [\<lparr>btarget = new, nextSibling = contentModerationKeywordBuildFirstEdge (ns ! state), blabel = c\<rparr>];
                  ns = ns[state := (ns ! state)\<lparr>edgeStart := length es\<rparr>]
              in ((ns, es), new))
           else ((ns, es), nat next))"

definition add_keyword :: "(string \<Rightarrow> string) \<Rightarrow> build \<Rightarrow> nat \<times> string \<Rightarrow> build" where
  "add_keyword lower b k =
     (case k of (keywordIndex, keyword) \<Rightarrow>
        if keyword = [] then b
        else (case foldl add_byte (b, 0) (lower keyword) of
                ((ns, es), state) \<Rightarrow>
                  let current = bestKeyword (ns ! state)
                  in if current < 0 \<or> int keywordIndex < current
                     then (ns[state := (ns ! state)\<lparr>bestKeyword := int keywordIndex\<rparr>], es)
                     else (ns, es)))"

definition build_trie :: "(string \<Rightarrow> string) \<Rightarrow> string list \<Rightarrow> build" where
  "build_trie lower kws = foldl (add_keyword lower) ([newContentModerationKeywordNode], []) (enumerate 0 kws)"

section \<open>Failure links\<close>

fun fallback_loop ::
    "nat \<Rightarrow> contentModerationKeywordNode list \<Rightarrow> contentModerationKeywordBuildEdge list \<Rightarrow> char \<Rightarrow> nat \<Rightarrow> int \<Rightarrow> int" where
  "fallback_loop 0 ns es c fail fallback = fallback"
| "fallback_loop (Suc n) ns es c fail fallback =
     (if fallback < 0 \<and> fail \<noteq> 0
      then let fail = failure (ns ! fail)
           in fallback_loop n ns es c fail (contentModerationKeywordBuildTransition ns es fail c)
      else fallback)"

definition link_edge ::
    "contentModerationKeywordBuildEdge list \<Rightarrow> nat \<Rightarrow> contentModerationKeywordNode list \<times> nat list \<Rightarrow>
     contentModerationKeywordBuildEdge \<Rightarrow> contentModerationKeywordNode list \<times> nat list" where
  "link_edge es state nq edge =
     (case nq of (ns, queue) \<Rightarrow>
        let fail = failure (ns ! state);
            fallback = contentModerationKeywordBuildTransition ns es fail (blabel edge);
            fallback = fallback_loop (length ns) ns es (blabel edge) fail fallback;
            t = btarget edge;
            ns = (if fallback \<ge> 0 then ns[t := (ns ! t)\<lparr>failure := nat fallback\<rparr>] else ns);
            ns = ns[t := (ns ! t)\<lparr>bestKeyword := minKeywordIndex (bestKeyword (ns ! t)) (bestKeyword (ns ! failure (ns ! t)))\<rparr>]
        in (ns, queue @ [t]))"

fun link_loop ::
    "nat \<Rightarrow> contentModerationKeywordBuildEdge list \<Rightarrow> contentModerationKeywordNode list \<Rightarrow> nat list \<Rightarrow> contentModerationKeywordNode list" where
  "link_loop 0 es ns queue = ns"
| "link_loop (Suc n) es ns [] = ns"
| "link_loop (Suc n) es ns (state # queue) =
     (case foldl (link_edge es state) (ns, queue) (edges_of ns es state) of
        (ns, queue) \<Rightarrow> link_loop n es ns queue)"

section \<open>Sorted edges\<close>

text \<open>The insertion sort moves larger labels of the sorted prefix up and puts the edge before them.\<close>

definition insert_edge ::
    "contentModerationKeywordEdge list \<Rightarrow> contentModerationKeywordEdge \<Rightarrow> contentModerationKeywordEdge list" where
  "insert_edge xs current =
     (let moved = takeWhile (\<lambda>e. (of_char (label current) :: nat) < of_char (label e)) (rev xs)
      in take (length xs - length moved) xs @ current # rev moved)"

definition flatten_node ::
    "contentModerationKeywordBuildEdge list \<Rightarrow> contentModerationKeywordNode list \<times> contentModerationKeywordEdge list \<Rightarrow>
     nat \<Rightarrow> contentModerationKeywordNode list \<times> contentModerationKeywordEdge list" where
  "flatten_node es nodes_out i =
     (case nodes_out of (ns, out) \<Rightarrow>
        let outgoing = map (\<lambda>e. \<lparr>target = btarget e, label = blabel e\<rparr>) (edges_of ns es i);
            outgoing = foldl insert_edge [] outgoing
        in (ns[i := (ns ! i)\<lparr>edgeStart := length out, edgeCount := length outgoing\<rparr>], out @ outgoing))"

definition newContentModerationKeywordMatcher ::
    "(string \<Rightarrow> string) \<Rightarrow> string list \<Rightarrow> contentModerationKeywordMatcher option" where
  "newContentModerationKeywordMatcher lower kws =
     (if kws = [] then None
      else case build_trie lower kws of
             (ns, es) \<Rightarrow>
               if length ns = 1 then None
               else
                 let roots = edges_of ns es 0;
                     transitions = foldl (\<lambda>f e. f(blabel e := btarget e)) (\<lambda>_. 0) roots;
                     ns = link_loop (length ns) es ns (map btarget roots);
                     (ns, out) = foldl (flatten_node es) (ns, []) [0..<length ns]
                 in Some \<lparr>nodes = ns, edges = out, rootTransitions = transitions, keywordList = kws\<rparr>)"

section \<open>Matching\<close>

function search :: "contentModerationKeywordEdge list \<Rightarrow> char \<Rightarrow> nat \<Rightarrow> nat \<Rightarrow> nat" where
  "search es c left right =
     (if left < right then
        let middle = left + (right - left) div 2
        in if (of_char (label (es ! middle)) :: nat) < of_char c then search es c (middle + 1) right
           else search es c left middle
      else left)"
  by auto
termination by (relation "measure (\<lambda>(es, c, left, right). right - left)") auto

declare search.simps [simp del]

definition next_state :: "contentModerationKeywordMatcher \<Rightarrow> nat \<Rightarrow> char \<Rightarrow> nat" where
  "next_state m state c =
     (if state = 0 then rootTransitions m c
      else if state \<ge> length (nodes m) then 0
      else
        let node = nodes m ! state;
            end' = edgeStart node + edgeCount node;
            left = search (edges m) c (edgeStart node) end'
        in if left < end' \<and> label (edges m ! left) = c then target (edges m ! left) else 0)"

fun state_loop :: "nat \<Rightarrow> contentModerationKeywordMatcher \<Rightarrow> char \<Rightarrow> nat \<Rightarrow> nat" where
  "state_loop 0 m c state = state"
| "state_loop (Suc n) m c state =
     (let next = next_state m state c
      in if next \<noteq> 0 then next
         else if state = 0 then state
         else state_loop n m c (failure (nodes m ! state)))"

text \<open>\<open>Inl\<close> is the return inside the loop.\<close>

fun match_loop :: "contentModerationKeywordMatcher \<Rightarrow> string \<Rightarrow> nat \<Rightarrow> int \<Rightarrow> string + int" where
  "match_loop m [] state best = Inr best"
| "match_loop m (c # cs) state best =
     (let state = state_loop (Suc (length (nodes m))) m c state;
          best = minKeywordIndex best (bestKeyword (nodes m ! state))
      in if best = 0 then Inl (keywordList m ! 0) else match_loop m cs state best)"

definition Match :: "(string \<Rightarrow> string) \<Rightarrow> contentModerationKeywordMatcher option \<Rightarrow> string \<Rightarrow> string option" where
  "Match lower m text =
     (case m of None \<Rightarrow> None
      | Some m \<Rightarrow>
          if text = [] \<or> nodes m = [] \<or> keywordList m = [] then None
          else (case match_loop m (lower text) 0 (-1) of
                  Inl k \<Rightarrow> Some k
                | Inr best \<Rightarrow>
                    if best < 0 \<or> nat best \<ge> length (keywordList m) then None
                    else Some (keywordList m ! nat best)))"

end
