(* ===== verification/KeywordTrie.thy ===== *)
theory KeywordTrie
  imports KeywordMatcher "HOL-Library.Sublist"
begin

text \<open>
  The first phase of the construction in \<open>service/content_moderation_keyword_matcher.go\<close>: longest
  suffixes in a set of strings, lowest indices of keywords, the sibling chains, and the invariant
  \<open>built\<close> of the trie, which every inserted byte and keyword preserves.
\<close>

section \<open>The longest suffix in a set\<close>

fun lsuf :: "string set \<Rightarrow> string \<Rightarrow> string" where
  "lsuf S [] = []"
| "lsuf S (x # t) = (if x # t \<in> S then x # t else lsuf S t)"

definition prefix_closed :: "string set \<Rightarrow> bool" where
  "prefix_closed S \<longleftrightarrow> [] \<in> S \<and> (\<forall>u c. u @ [c] \<in> S \<longrightarrow> u \<in> S)"

lemma lsuf_in: "[] \<in> S \<Longrightarrow> lsuf S w \<in> S"
  by (induction w) auto

lemma lsuf_suffix: "suffix (lsuf S w) w"
  by (induction w) (auto simp: suffix_Cons)

lemma lsuf_fix: "w \<in> S \<Longrightarrow> lsuf S w = w"
  by (cases w) auto

lemma lsuf_greatest: "u \<in> S \<Longrightarrow> suffix u w \<Longrightarrow> suffix u (lsuf S w)"
  by (induction w) (auto simp: suffix_Cons)

lemma lsuf_snoc:
  assumes "prefix_closed S"
  shows "lsuf S (w @ [c]) = lsuf S (lsuf S w @ [c])"
proof (induction w)
  case (Cons x t)
  show ?case
  proof (cases "x # t \<in> S")
    case False
    then have "x # t @ [c] \<notin> S" using assms by (auto simp: prefix_closed_def) (metis append_Cons)
    then show ?thesis using Cons False by simp
  qed simp
qed simp

text \<open>One walk along the failures from a member of the set.\<close>

lemma lsuf_walk:
  assumes "prefix_closed S" "u \<in> S" "u @ [c] \<notin> S"
  shows "lsuf S (u @ [c]) = (if u = [] then [] else lsuf S (lsuf S (tl u) @ [c]))"
  using assms lsuf_snoc[OF assms(1), of "tl u" c] by (cases u) auto

lemma length_lsuf_tl: "u \<noteq> [] \<Longrightarrow> length (lsuf S (tl u)) < length u"
  using suffix_length_le[OF lsuf_suffix[of S "tl u"]] by (cases u) auto

section \<open>Lowest indices\<close>

definition lowest :: "nat set \<Rightarrow> int" where
  "lowest A = (if A = {} then -1 else int (Min A))"

lemma lowest_Un:
  assumes "finite A" "finite B"
  shows "minKeywordIndex (lowest A) (lowest B) = lowest (A \<union> B)"
proof (cases "A = {} \<or> B = {}")
  case False
  then have "Min (A \<union> B) = min (Min A) (Min B)" using assms by (simp add: Min_Un)
  then show ?thesis using False by (auto simp: lowest_def minKeywordIndex_def min_def)
qed (auto simp: lowest_def minKeywordIndex_def)

lemma lowest_empty [simp]: "lowest {} = -1"
  by (simp add: lowest_def)

section \<open>Chains of siblings\<close>

definition links_ok :: "contentModerationKeywordBuildEdge list \<Rightarrow> bool" where
  "links_ok es \<longleftrightarrow> (\<forall>i < length es. nextSibling (es ! i) < int i)"

lemma links_okD: "links_ok es \<Longrightarrow> 0 \<le> i \<Longrightarrow> i < int (length es) \<Longrightarrow> nextSibling (es ! nat i) < i"
  unfolding links_ok_def by (drule spec[of _ "nat i"]) auto

lemma edge_chain_enough:
  assumes "links_ok es" "i < int (length es)" "i < int n" "i < int m"
  shows "edge_chain n es i = edge_chain m es i"
  using assms(2-)
proof (induction n arbitrary: m i)
  case 0
  then show ?case by (cases m) auto
next
  case (Suc n)
  show ?case
  proof (cases "i < 0")
    case False
    then obtain m' where m: "m = Suc m'" using Suc.prems by (cases m) auto
    have "nextSibling (es ! nat i) < i" using links_okD[OF assms(1)] False Suc.prems(1) by auto
    then show ?thesis using Suc False m by auto
  qed (cases m; simp)
qed

lemma edge_chain_append:
  assumes "links_ok es" "i < int (length es)"
  shows "edge_chain n (es @ xs) i = edge_chain n es i"
  using assms(2)
proof (induction n arbitrary: i)
  case (Suc n)
  show ?case
  proof (cases "i < 0")
    case False
    then have "nextSibling (es ! nat i) < int (length es)" using links_okD[OF assms(1), of i] Suc.prems by auto
    then show ?thesis using Suc False by (auto simp: nth_append)
  qed simp
qed simp

section \<open>The trie\<close>

text \<open>\<open>P\<close> lists, for every node, the string that leads to it.\<close>

definition trie ::
    "string list \<Rightarrow> contentModerationKeywordNode list \<Rightarrow> contentModerationKeywordBuildEdge list \<Rightarrow> bool" where
  "trie P ns es \<longleftrightarrow>
     length ns = length P \<and> P \<noteq> [] \<and> P ! 0 = [] \<and> distinct P \<and> prefix_closed (set P) \<and> links_ok es \<and>
     (\<forall>s < length P. contentModerationKeywordBuildFirstEdge (ns ! s) < int (length es)) \<and>
     (\<forall>s < length P. distinct (map blabel (edges_of ns es s))) \<and>
     (\<forall>s < length P. \<forall>c t. (\<exists>e \<in> set (edges_of ns es s). blabel e = c \<and> btarget e = t) \<longleftrightarrow>
        t < length P \<and> P ! t = P ! s @ [c])"

lemma edges_of_cong: "edgeStart (ns' ! s) = edgeStart (ns ! s) \<Longrightarrow> edges_of ns' es s = edges_of ns es s"
  by (simp add: edges_of_def contentModerationKeywordBuildFirstEdge_def)

lemma trie_cong:
  assumes "trie P ns es" "length ns' = length ns" "map edgeStart ns' = map edgeStart ns"
  shows "trie P ns' es"
proof -
  have start: "edgeStart (ns' ! s) = edgeStart (ns ! s)" if "s < length P" for s
    using that assms nth_map[of s ns' edgeStart] nth_map[of s ns edgeStart] by (simp add: trie_def)
  have "contentModerationKeywordBuildFirstEdge (ns' ! s) = contentModerationKeywordBuildFirstEdge (ns ! s)"
    "edges_of ns' es s = edges_of ns es s" if "s < length P" for s
    using start[OF that] edges_of_cong[of ns' s ns es] by (simp_all add: contentModerationKeywordBuildFirstEdge_def)
  then show ?thesis using assms(1,2) by (simp add: trie_def)
qed

lemma trie_index: "trie P ns es \<Longrightarrow> i < length P \<Longrightarrow> j < length P \<Longrightarrow> P ! i = P ! j \<longleftrightarrow> i = j"
  by (simp add: trie_def nth_eq_iff_index_eq)

lemma trie_edge:
  assumes "trie P ns es" "s < length P"
  shows "e \<in> set (edges_of ns es s) \<Longrightarrow> btarget e < length P \<and> P ! btarget e = P ! s @ [blabel e]"
    "t < length P \<Longrightarrow> P ! t = P ! s @ [c] \<Longrightarrow> \<exists>e \<in> set (edges_of ns es s). blabel e = c \<and> btarget e = t"
  using assms unfolding trie_def by blast+

lemma transition_found:
  assumes tr: "trie P ns es" and s: "s < length P" and t: "t < length P" "P ! t = P ! s @ [c]"
  shows "contentModerationKeywordBuildTransition ns es s c = int t"
proof -
  obtain e where "e \<in> set (edges_of ns es s)" "blabel e = c" using trie_edge(2)[OF tr s t] by blast
  then have "find (\<lambda>e. blabel e = c) (edges_of ns es s) \<noteq> None" by (auto simp: find_None_iff)
  then obtain e where e: "find (\<lambda>e. blabel e = c) (edges_of ns es s) = Some e" by blast
  then have "e \<in> set (edges_of ns es s)" "blabel e = c" by (auto simp: find_Some_iff)
  then have "btarget e = t" using trie_edge(1)[OF tr s] trie_index[OF tr _ t(1)] t(2) by metis
  then show ?thesis using e s tr by (simp add: contentModerationKeywordBuildTransition_def trie_def)
qed

lemma transition_none:
  assumes tr: "trie P ns es" and s: "s < length P" and t: "P ! s @ [c] \<notin> set P"
  shows "contentModerationKeywordBuildTransition ns es s c = -1"
proof -
  have "find (\<lambda>e. blabel e = c) (edges_of ns es s) = None"
    using trie_edge(1)[OF tr s] t by (auto simp: find_None_iff) (metis nth_mem)
  then show ?thesis by (simp add: contentModerationKeywordBuildTransition_def)
qed

lemma trie_start: "trie [[]] [newContentModerationKeywordNode] []"
  by (auto simp: trie_def prefix_closed_def links_ok_def edges_of_def newContentModerationKeywordNode_def
      contentModerationKeywordBuildFirstEdge_def)

lemma add_byte_new:
  assumes tr: "trie P ns es" and s: "s < length P" and new: "P ! s @ [c] \<notin> set P"
    and b: "add_byte ((ns, es), s) c = ((ns', es'), s')"
  shows "trie (P @ [P ! s @ [c]]) ns' es'" "s' = length P"
    "map bestKeyword ns' = map bestKeyword ns @ [-1]" "map failure ns' = map failure ns @ [0]"
proof -
  let ?e = "\<lparr>btarget = length ns, nextSibling = contentModerationKeywordBuildFirstEdge (ns ! s), blabel = c\<rparr>"
  let ?P = "P @ [P ! s @ [c]]"
  have len: "length ns = length P" using tr by (simp add: trie_def)
  have eq: "es' = es @ [?e]" "s' = length P"
    "ns' = (ns @ [newContentModerationKeywordNode])[s := (ns ! s)\<lparr>edgeStart := Suc (length es)\<rparr>]"
    using b s by (auto simp: add_byte_def transition_none[OF tr s new] Let_def nth_append len)
  show "s' = length P" by (rule eq(2))
  show "map bestKeyword ns' = map bestKeyword ns @ [-1]" "map failure ns' = map failure ns @ [0]"
    using s len by (simp_all add: eq(3) map_update newContentModerationKeywordNode_def list_update_append list_update_same_conv)
  have fe: "contentModerationKeywordBuildFirstEdge (ns ! x) < int (length es)" if "x < length P" for x
    using tr that by (simp add: trie_def)
  have links: "links_ok es" using tr by (simp add: trie_def)
  have links': "links_ok es'" using links fe[OF s] by (auto simp: links_ok_def eq(1) nth_append less_Suc_eq)
  have first: "contentModerationKeywordBuildFirstEdge (ns' ! x) =
    (if x = s then int (length es) else if x < length P then contentModerationKeywordBuildFirstEdge (ns ! x) else -1)"
    if "x < length ?P" for x
    using that s len by (auto simp: eq(3) nth_list_update nth_append contentModerationKeywordBuildFirstEdge_def
        newContentModerationKeywordNode_def less_Suc_eq)
  have chain: "edge_chain n es' i = edge_chain n es i" if "i < int (length es)" for n i
    unfolding eq(1) by (rule edge_chain_append[OF links that])
  have out: "edges_of ns' es' x = (if x = s then ?e # edges_of ns es s else if x < length P then edges_of ns es x else [])"
    if x: "x < length ?P" for x
  proof -
    have "edges_of ns' es' s = ?e # edges_of ns es s"
      using first[of s] s chain[OF fe[OF s]] by (simp add: edges_of_def eq(1))
    moreover have "edges_of ns' es' x = edges_of ns es x" if "x \<noteq> s" "x < length P"
      using first[OF x] that chain[OF fe[OF that(2)]] edge_chain_enough[OF links fe[OF that(2)], of "Suc (length es)" "length es"]
        fe[OF that(2)] by (simp add: edges_of_def eq(1))
    moreover have "edges_of ns' es' x = []" if "x \<noteq> s" "\<not> x < length P"
      using first[OF x] that by (simp add: edges_of_def eq(1))
    ultimately show ?thesis by simp
  qed
  have notlabel: "c \<notin> set (map blabel (edges_of ns es s))"
    using trie_edge(1)[OF tr s] new by auto (metis nth_mem)
  have nt: "?P ! t = P ! t" if "t < length P" for t using that by (simp add: nth_append)
  have tgt: "btarget e < length P" "P ! btarget e = P ! x @ [blabel e]" if "x < length P" "e \<in> set (edges_of ns es x)" for x e
    using trie_edge(1)[OF tr that] by auto
  have child: "(\<exists>e \<in> set (edges_of ns' es' x). blabel e = d \<and> btarget e = t) \<longleftrightarrow> t < length ?P \<and> ?P ! t = ?P ! x @ [d]"
    if x: "x < length ?P" for x d t
  proof -
    consider "x = s" | "x \<noteq> s" "x < length P" | "x = length P" using x by fastforce
    then show ?thesis
    proof cases
      case 1
      have "(\<exists>e \<in> set (edges_of ns es s). blabel e = d \<and> btarget e = t) \<longleftrightarrow> t < length P \<and> P ! t = P ! s @ [d]"
        using tr s by (simp add: trie_def)
      then show ?thesis using 1 s out[OF x] new by (auto simp: nth_append len less_Suc_eq)
    next
      case 2
      have "(\<exists>e \<in> set (edges_of ns es x). blabel e = d \<and> btarget e = t) \<longleftrightarrow> t < length P \<and> P ! t = P ! x @ [d]"
        using tr 2 by (simp add: trie_def)
      moreover have "P ! s \<noteq> P ! x" using trie_index[OF tr s 2(2)] 2(1) by simp
      ultimately show ?thesis using 2 out[OF x] by (auto simp: nth_append less_Suc_eq)
    next
      case 3
      have "(P ! s @ [c]) @ [d] \<notin> set P"
        using tr new unfolding trie_def prefix_closed_def by blast
      then have "P ! t \<noteq> P ! s @ [c, d]" if "t < length P" using nth_mem[OF that] by auto
      then have "\<not> (t < length ?P \<and> ?P ! t = ?P ! x @ [d])" using 3 by (auto simp: nth_append less_Suc_eq)
      then show ?thesis using 3 s out[OF x] by simp
    qed
  qed
  have "prefix_closed (set ?P)" using tr s by (auto simp: trie_def prefix_closed_def)
  moreover have "contentModerationKeywordBuildFirstEdge (ns' ! x) < int (length es')" if "x < length ?P" for x
    using first[OF that] fe[of x] by (auto simp: eq(1))
  moreover have "distinct (map blabel (edges_of ns' es' x))" if "x < length ?P" for x
    using out[OF that] tr s notlabel by (simp add: trie_def)
  moreover have "length ns' = length ?P" using len by (simp add: eq(3))
  moreover have "?P ! 0 = []" "distinct ?P" using tr new s by (auto simp: trie_def nth_append)
  ultimately show "trie ?P ns' es'" unfolding trie_def using links' child by blast
qed


section \<open>Inserting the keywords\<close>

definition hits :: "(string \<Rightarrow> string) \<Rightarrow> string list \<Rightarrow> (string \<Rightarrow> bool) \<Rightarrow> nat set" where
  "hits lower kws Q = {i. i < length kws \<and> kws ! i \<noteq> [] \<and> Q (lower (kws ! i))}"

lemma finite_hits [simp]: "finite (hits lower kws Q)"
  by (simp add: hits_def)

lemma hits_Un: "hits lower kws Q \<union> hits lower kws R = hits lower kws (\<lambda>u. Q u \<or> R u)"
  by (auto simp: hits_def)

lemma hits_snoc: "hits lower (kws @ [k]) Q = hits lower kws Q \<union> (if k \<noteq> [] \<and> Q (lower k) then {length kws} else {})"
  by (auto simp: hits_def nth_append less_Suc_eq)

lemma hits_nil [simp]: "hits lower [] Q = {}"
  by (simp add: hits_def)

lemma lowest_hits_snoc:
  "lowest (hits lower kws Q \<union> {length kws}) =
   (if lowest (hits lower kws Q) < 0 \<or> int (length kws) < lowest (hits lower kws Q) then int (length kws) else lowest (hits lower kws Q))"
proof (cases "hits lower kws Q = {}")
  case False
  have "Min (hits lower kws Q) \<in> hits lower kws Q" using False by simp
  then have lt: "Min (hits lower kws Q) < length kws" by (simp add: hits_def)
  define m where "m = Min (hits lower kws Q)"
  have "Min (hits lower kws Q \<union> {length kws}) = min (length kws) m" using False by (simp add: m_def)
  then have "Min (hits lower kws Q \<union> {length kws}) = m" "m < length kws" using lt by (simp_all add: m_def)
  then show ?thesis using False by (simp add: lowest_def flip: m_def)
qed (simp add: lowest_def)

definition own :: "(string \<Rightarrow> string) \<Rightarrow> string list \<Rightarrow> string \<Rightarrow> int" where
  "own lower kws u = lowest (hits lower kws (\<lambda>v. v = u))"

definition built :: "(string \<Rightarrow> string) \<Rightarrow> string list \<Rightarrow> string list \<Rightarrow> build \<Rightarrow> bool" where
  "built lower kws P b \<longleftrightarrow>
     trie P (fst b) (snd b) \<and> map failure (fst b) = replicate (length P) 0 \<and>
     map bestKeyword (fst b) = map (own lower kws) P \<and>
     (\<forall>k \<in> set kws. k \<noteq> [] \<longrightarrow> lower k \<in> set P)"

lemma own_fresh: "built lower kws P b \<Longrightarrow> u \<notin> set P \<Longrightarrow> own lower kws u = -1"
  by (force simp: own_def built_def hits_def lowest_def)

lemma add_byte_built:
  assumes bl: "built lower kws P b" and s: "s < length P"
  shows "\<exists>P'. built lower kws P' (fst (add_byte (b, s) c)) \<and> snd (add_byte (b, s) c) < length P' \<and>
     P' ! snd (add_byte (b, s) c) = P ! s @ [c]"
proof -
  obtain ns es where b: "b = (ns, es)" by (cases b)
  have tr: "trie P ns es" using bl by (simp add: built_def b)
  show ?thesis
  proof (cases "P ! s @ [c] \<in> set P")
    case True
    then obtain t where t: "t < length P" "P ! t = P ! s @ [c]" by (metis in_set_conv_nth)
    have "add_byte (b, s) c = (b, t)" using transition_found[OF tr s t] by (simp add: add_byte_def b)
    then show ?thesis using bl t by auto
  next
    case False
    obtain ns' es' s' where r: "add_byte ((ns, es), s) c = ((ns', es'), s')" by (metis prod.collapse)
    note new = add_byte_new[OF tr s False r]
    have "built lower kws (P @ [P ! s @ [c]]) (ns', es')"
      using bl new own_fresh[OF bl False] by (auto simp: built_def b replicate_append_same)
    then show ?thesis using new(2) r b by (intro exI[of _ "P @ [P ! s @ [c]]"]) (auto simp: nth_append)
  qed
qed

lemma add_bytes_built:
  assumes "built lower kws P b" "s < length P"
  shows "\<exists>P'. built lower kws P' (fst (foldl add_byte (b, s) w)) \<and> snd (foldl add_byte (b, s) w) < length P' \<and>
     P' ! snd (foldl add_byte (b, s) w) = P ! s @ w"
  using assms
proof (induction w arbitrary: P b s)
  case (Cons c w)
  obtain b' s' where r: "add_byte (b, s) c = (b', s')" by (cases "add_byte (b, s) c")
  obtain P' where P': "built lower kws P' b'" "s' < length P'" "P' ! s' = P ! s @ [c]"
    using add_byte_built[OF Cons.prems, of c] r by auto
  show ?case using Cons.IH[OF P'(1,2)] P'(3) r by simp
qed auto

lemma add_keyword_built:
  assumes bl: "built lower kws P b"
  shows "\<exists>P'. built lower (kws @ [k]) P' (add_keyword lower b (length kws, k))"
proof (cases "k = []")
  case True
  then have "own lower (kws @ [k]) = own lower kws" by (auto simp: own_def hits_snoc)
  then show ?thesis using bl True by (auto simp: built_def add_keyword_def)
next
  case False
  have "0 < length P" "P ! 0 = []" using bl by (auto simp: built_def trie_def)
  then obtain P' ns es s where P': "foldl add_byte (b, 0) (lower k) = ((ns, es), s)"
      "built lower kws P' (ns, es)" "s < length P'" "P' ! s = lower k"
    using add_bytes_built[OF bl, of 0 "lower k"] by (metis append_Nil prod.collapse)
  have tr: "trie P' ns es" and len: "length ns = length P'" using P'(2) by (auto simp: built_def trie_def)
  have bests: "bestKeyword (ns ! x) = own lower kws (P' ! x)" if "x < length P'" for x
    using P'(2) that len nth_map[of x ns bestKeyword] nth_map[of x P' "own lower kws"] by (simp add: built_def)
  have own: "own lower (kws @ [k]) u = (if u = lower k
      then (if own lower kws u < 0 \<or> int (length kws) < own lower kws u then int (length kws) else own lower kws u)
      else own lower kws u)" for u
    using False lowest_hits_snoc[of lower kws "\<lambda>v. v = u"] by (auto simp: own_def hits_snoc)
  define ns' where "ns' = fst (add_keyword lower b (length kws, k))"
  have res: "add_keyword lower b (length kws, k) = (ns', es)"
    using False P'(1) by (simp add: ns'_def add_keyword_def Let_def)
  have "ns[s := (ns ! s)\<lparr>bestKeyword := own lower kws (lower k)\<rparr>] = ns"
  proof -
    have best: "own lower kws (lower k) = bestKeyword (ns ! s)" using bests[OF P'(3)] P'(4) by simp
    show ?thesis unfolding best by simp
  qed
  then have ns': "ns' = ns[s := (ns ! s)\<lparr>bestKeyword := own lower (kws @ [k]) (lower k)\<rparr>]"
    using False P'(1) bests[OF P'(3)] P'(4) own[of "lower k"] by (auto simp: ns'_def add_keyword_def Let_def)
  have "map edgeStart ns' = map edgeStart ns" "map failure ns' = map failure ns"
    using P'(3) len by (simp_all add: ns' map_update list_update_same_conv)
  moreover have "map bestKeyword ns' = map (own lower (kws @ [k])) P'"
  proof (rule nth_equalityI)
    fix x assume "x < length (map bestKeyword ns')"
    then have x: "x < length P'" by (simp add: ns' len)
    have "P' ! x = lower k \<longleftrightarrow> x = s" using trie_index[OF tr x P'(3)] P'(4) by simp
    then show "map bestKeyword ns' ! x = map (own lower (kws @ [k])) P' ! x"
      using x len bests[OF x] own[of "P' ! x"] P'(4) by (auto simp: ns' nth_list_update)
  qed (simp add: ns' len)
  moreover have "lower k \<in> set P'" using P'(3,4) by (metis nth_mem)
  ultimately show ?thesis
    using P'(2) trie_cong[OF tr, of ns'] by (intro exI[of _ P']) (auto simp: res built_def ns')
qed

lemma build_trie_built: "\<exists>P. built lower kws P (build_trie lower kws)"
proof (induction kws rule: rev_induct)
  case Nil
  show ?case using trie_start by (intro exI[of _ "[[]]"])
    (simp add: build_trie_def built_def own_def newContentModerationKeywordNode_def)
next
  case (snoc k kws)
  then obtain P where P: "built lower kws P (build_trie lower kws)" ..
  obtain P' where "built lower (kws @ [k]) P' (add_keyword lower (build_trie lower kws) (length kws, k))"
    using add_keyword_built[OF P] ..
  then show ?case by (auto simp: build_trie_def enumerate_append_eq)
qed

end
