(* ===== verification/KeywordLinks.thy ===== *)
theory KeywordLinks
  imports KeywordTrie
begin

text \<open>
  The breadth-first phase: when a node is reached, its failure link leads to the longest proper suffix in
  the trie and its best keyword is the lowest of all keywords that end there. The invariant \<open>levels\<close>
  splits the queue into the rest of a level and the start of the next; the nodes not yet taken from the
  queue bound the fuel.
\<close>

section \<open>The links\<close>

text \<open>What failure and best keyword are for the node that \<open>w\<close> leads to.\<close>

definition linked :: "(string \<Rightarrow> string) \<Rightarrow> string list \<Rightarrow> string list \<Rightarrow> string \<Rightarrow> contentModerationKeywordNode \<Rightarrow> bool" where
  "linked lower kws P w node \<longleftrightarrow>
     failure node < length P \<and> P ! failure node = lsuf (set P) (tl w) \<and>
     bestKeyword node = lowest (hits lower kws (\<lambda>v. v \<noteq> [] \<and> suffix v w))"

definition unlinked :: "(string \<Rightarrow> string) \<Rightarrow> string list \<Rightarrow> string \<Rightarrow> contentModerationKeywordNode \<Rightarrow> bool" where
  "unlinked lower kws w node \<longleftrightarrow> failure node = 0 \<and> bestKeyword node = own lower kws w"

lemma prefix_closed_prefix: "prefix_closed S \<Longrightarrow> w \<in> S \<Longrightarrow> prefix u w \<Longrightarrow> u \<in> S"
proof (induction w rule: rev_induct)
  case (snoc c w)
  then show ?case by (auto simp: prefix_closed_def)
qed simp

lemma prefix_closed_length:
  assumes "prefix_closed S" "finite S" "w \<in> S"
  shows "length w < card S"
proof -
  have "set (prefixes w) \<subseteq> S" using prefix_closed_prefix[OF assms(1,3)] by auto
  then have "card (set (prefixes w)) \<le> card S" using assms(2) by (rule card_mono[rotated])
  then show ?thesis by (simp add: distinct_card)
qed

lemma trie_depth: "trie P ns es \<Longrightarrow> v < length P \<Longrightarrow> length (P ! v) < length ns"
  using prefix_closed_length[of "set P" "P ! v"] by (simp add: trie_def distinct_card)

lemma trie_closed: "trie P ns es \<Longrightarrow> prefix_closed (set P) \<and> [] \<in> set P \<and> P ! 0 = [] \<and> 0 < length P \<and> length ns = length P"
  by (simp add: trie_def prefix_closed_def)

lemma fallback_loop_lsuf:
  assumes tr: "trie P ns es" and f: "f < length P" "length (P ! f) \<le> n"
    and ok: "\<And>v. v < length P \<Longrightarrow> length (P ! v) \<le> length (P ! f) \<Longrightarrow> linked lower kws P (P ! v) (ns ! v)"
    and F: "F = fallback_loop n ns es c f (contentModerationKeywordBuildTransition ns es f c)"
  shows "(if F < 0 then lsuf (set P) (P ! f @ [c]) = [] else nat F < length P \<and> P ! nat F = lsuf (set P) (P ! f @ [c]))"
  using f ok F
proof (induction n arbitrary: f)
  case (0 f)
  then have "f = 0" using trie_index[OF tr 0(1), of 0] trie_closed[OF tr] by auto
  then show ?case
    using 0 trie_closed[OF tr] lsuf_walk[of "set P" "[]" c] lsuf_fix[of "[c]" "set P"]
      transition_found[OF tr, of 0 _ c] transition_none[OF tr, of 0 c]
    by (cases "[c] \<in> set P") (auto simp: in_set_conv_nth)
next
  case (Suc n f)
  show ?case
  proof (cases "P ! f @ [c] \<in> set P")
    case True
    then obtain t where t: "t < length P" "P ! t = P ! f @ [c]" by (metis in_set_conv_nth)
    then show ?thesis using Suc.prems(4) transition_found[OF tr Suc.prems(1) t] lsuf_fix[OF True] by simp
  next
    case False
    note none = transition_none[OF tr Suc.prems(1) False]
    have walk: "lsuf (set P) (P ! f @ [c]) = (if P ! f = [] then [] else lsuf (set P) (lsuf (set P) (tl (P ! f)) @ [c]))"
      using lsuf_walk[OF _ nth_mem[OF Suc.prems(1)] False] trie_closed[OF tr] by simp
    have root: "P ! f = [] \<longleftrightarrow> f = 0" using trie_index[OF tr Suc.prems(1), of 0] trie_closed[OF tr] by auto
    show ?thesis
    proof (cases "f = 0")
      case True
      then show ?thesis using walk root none Suc.prems(4) by simp
    next
      case nonroot: False
      define g where "g = failure (ns ! f)"
      have g: "g < length P" "P ! g = lsuf (set P) (tl (P ! f))"
        using Suc.prems(3)[OF Suc.prems(1)] by (auto simp: linked_def g_def)
      have less: "length (P ! g) < length (P ! f)" using g(2) length_lsuf_tl nonroot root by simp
      have "F = fallback_loop n ns es c g (contentModerationKeywordBuildTransition ns es g c)"
        using Suc.prems(4) none nonroot by (simp add: g_def Let_def)
      moreover have step: "lsuf (set P) (P ! f @ [c]) = lsuf (set P) (P ! g @ [c])" using walk nonroot root g(2) by simp
      ultimately show ?thesis unfolding step
        by (intro Suc.IH[OF g(1) _ Suc.prems(3)]) (use less Suc.prems(2) in simp_all)
    qed
  qed
qed

lemma link_edge_links:
  assumes tr: "trie P ns es" and s: "s < length P" "P ! s \<noteq> []"
    and ok: "\<And>v. v < length P \<Longrightarrow> length (P ! v) \<le> length (P ! s) \<Longrightarrow> linked lower kws P (P ! v) (ns ! v)"
    and e: "e \<in> set (edges_of ns es s)" and raw: "unlinked lower kws (P ! btarget e) (ns ! btarget e)"
    and kws: "\<And>k. k \<in> set kws \<Longrightarrow> k \<noteq> [] \<Longrightarrow> lower k \<in> set P"
  shows "\<exists>x. link_edge es s (ns, q) e = (ns[btarget e := x], q @ [btarget e]) \<and>
     linked lower kws P (P ! btarget e) x \<and> edgeStart x = edgeStart (ns ! btarget e)"
proof -
  let ?t = "btarget e" let ?c = "blabel e" let ?S = "set P"
  have t: "?t < length P" "P ! ?t = P ! s @ [?c]" using trie_edge(1)[OF tr s(1) e] by auto
  note cl = trie_closed[OF tr]
  define f where "f = failure (ns ! s)"
  have f: "f < length P" "P ! f = lsuf ?S (tl (P ! s))" using ok[OF s(1)] by (auto simp: linked_def f_def)
  have less: "length (P ! f) < length (P ! s)" using f(2) length_lsuf_tl s(2) by simp
  define F where "F = fallback_loop (length ns) ns es ?c f (contentModerationKeywordBuildTransition ns es f ?c)"
  have F: "if F < 0 then lsuf ?S (P ! f @ [?c]) = [] else nat F < length P \<and> P ! nat F = lsuf ?S (P ! f @ [?c])"
    by (rule fallback_loop_lsuf[OF tr f(1) less_imp_le[OF trie_depth[OF tr f(1)]] ok F_def]) (use less in simp_all)
  have tl: "lsuf ?S (tl (P ! ?t)) = lsuf ?S (P ! f @ [?c])"
    using lsuf_snoc[of ?S "tl (P ! s)" ?c] cl s(2) f(2) by (simp add: t(2))
  define g where "g = (if F < 0 then 0 else nat F)"
  have g: "g < length P" "P ! g = lsuf ?S (tl (P ! ?t))"
    using F tl cl by (auto simp: g_def split: if_splits)
  have gless: "length (P ! g) \<le> length (P ! s)"
    using g(2) length_lsuf_tl[of "P ! ?t" ?S] by (simp add: t(2))
  then have gt: "g \<noteq> ?t" using t(2) by auto
  have gok: "linked lower kws P (P ! g) (ns ! g)" by (rule ok[OF g(1) gless])
  define x where "x = (ns ! ?t)\<lparr>failure := g, bestKeyword := minKeywordIndex (bestKeyword (ns ! ?t)) (bestKeyword (ns ! g))\<rparr>"
  have unl: "failure (ns ! ?t) = 0" "bestKeyword (ns ! ?t) = own lower kws (P ! ?t)" using raw by (auto simp: unlinked_def)
  have tl': "?t < length ns" using t cl by simp
  have eq: "link_edge es s (ns, q) e = (ns[?t := x], q @ [?t])"
  proof (cases "F < 0")
    case True
    have "(ns ! ?t)\<lparr>failure := 0\<rparr> = ns ! ?t" using unl(1) by (cases "ns ! ?t") simp
    then have "x = (ns ! ?t)\<lparr>bestKeyword := minKeywordIndex (bestKeyword (ns ! ?t)) (bestKeyword (ns ! 0))\<rparr>"
      using True by (simp add: x_def g_def)
    then show ?thesis using True gt unl(1) by (simp add: link_edge_def Let_def F_def f_def)
  next
    case False
    then show ?thesis using gt tl' by (simp add: link_edge_def Let_def F_def f_def g_def x_def nth_list_update)
  qed
  have "hits lower kws (\<lambda>v. v = P ! ?t) \<union> hits lower kws (\<lambda>v. v \<noteq> [] \<and> suffix v (P ! g)) =
    hits lower kws (\<lambda>v. v \<noteq> [] \<and> suffix v (P ! ?t))"
  proof -
    have iff: "v = P ! ?t \<or> v \<noteq> [] \<and> suffix v (P ! g) \<longleftrightarrow> v \<noteq> [] \<and> suffix v (P ! ?t)" if v: "v \<in> ?S" for v
    proof -
      have "P ! ?t \<noteq> []" by (simp add: t(2))
      then obtain a u where au: "P ! ?t = a # u" by (cases "P ! ?t") simp_all
      have "suffix v u \<longleftrightarrow> suffix v (lsuf ?S u)" 
        using lsuf_greatest[OF v] lsuf_suffix[of ?S u] suffix_order.trans by blast
      then show ?thesis using g(2) by (auto simp: au suffix_Cons)
    qed
    have "lower (kws ! i) \<in> ?S" if "i < length kws" "kws ! i \<noteq> []" for i using kws that by simp
    then show ?thesis unfolding hits_Un unfolding hits_def using iff by blast
  qed
  then have "bestKeyword x = lowest (hits lower kws (\<lambda>v. v \<noteq> [] \<and> suffix v (P ! ?t)))"
    using gok unl(2) lowest_Un[of "hits lower kws (\<lambda>v. v = P ! ?t)" "hits lower kws (\<lambda>v. v \<noteq> [] \<and> suffix v (P ! g))"]
    by (simp add: x_def own_def linked_def)
  then have "linked lower kws P (P ! ?t) x" using g by (simp add: linked_def x_def)
  then show ?thesis using eq by (intro exI[of _ x]) (simp add: x_def)
qed


text \<open>The search goes by levels: \<open>A\<close> is what the queue still has of depth \<open>d\<close>, \<open>B\<close> what it has of the next.\<close>

definition levels ::
    "(string \<Rightarrow> string) \<Rightarrow> string list \<Rightarrow> string list \<Rightarrow> contentModerationKeywordBuildEdge list \<Rightarrow> nat \<Rightarrow> nat list \<Rightarrow> nat list \<Rightarrow>
     contentModerationKeywordNode list \<Rightarrow> bool" where
  "levels lower kws P es d A B ns \<longleftrightarrow>
     trie P ns es \<and> d > 0 \<and>
     (\<forall>v < length P. length (P ! v) \<le> d \<or> v \<in> set B \<longrightarrow> linked lower kws P (P ! v) (ns ! v)) \<and>
     (\<forall>v < length P. length (P ! v) > d \<and> v \<notin> set B \<longrightarrow> unlinked lower kws (P ! v) (ns ! v)) \<and>
     (\<forall>v < length P. length (P ! v) = Suc d \<longrightarrow> (v \<in> set B \<longleftrightarrow> butlast (P ! v) \<notin> (!) P ` set A)) \<and>
     distinct A \<and> distinct B \<and>
     (\<forall>v \<in> set A. v < length P \<and> length (P ! v) = d) \<and> (\<forall>v \<in> set B. v < length P \<and> length (P ! v) = Suc d)"

lemma link_edges_links:
  assumes "trie P ns es" "s < length P" "P ! s \<noteq> []"
    and "\<And>v. v < length P \<Longrightarrow> length (P ! v) \<le> length (P ! s) \<Longrightarrow> linked lower kws P (P ! v) (ns ! v)"
    and "set E \<subseteq> set (edges_of ns es s)" "distinct (map btarget E)"
    and "\<And>e. e \<in> set E \<Longrightarrow> unlinked lower kws (P ! btarget e) (ns ! btarget e)"
    and "\<And>k. k \<in> set kws \<Longrightarrow> k \<noteq> [] \<Longrightarrow> lower k \<in> set P"
  shows "\<exists>ns'. foldl (link_edge es s) (ns, q) E = (ns', q @ map btarget E) \<and> length ns' = length ns \<and>
     map edgeStart ns' = map edgeStart ns \<and>
     (\<forall>v. v \<notin> set (map btarget E) \<longrightarrow> ns' ! v = ns ! v) \<and>
     (\<forall>e \<in> set E. linked lower kws P (P ! btarget e) (ns' ! btarget e))"
  using assms
proof (induction E arbitrary: ns q)
  case (Cons e E)
  note tr = Cons.prems(1)
  have e: "e \<in> set (edges_of ns es s)" using Cons.prems(5) by simp
  have t: "btarget e < length P" "P ! btarget e = P ! s @ [blabel e]" using trie_edge(1)[OF tr Cons.prems(2) e] by auto
  obtain x where x: "link_edge es s (ns, q) e = (ns[btarget e := x], q @ [btarget e])"
    "linked lower kws P (P ! btarget e) x" "edgeStart x = edgeStart (ns ! btarget e)"
    using link_edge_links[OF tr Cons.prems(2-4) e Cons.prems(7)[of e] Cons.prems(8)] by auto
  let ?ns = "ns[btarget e := x]"
  have start: "map edgeStart ?ns = map edgeStart ns"
    using x(3) t(1) trie_closed[OF tr] by (simp add: map_update list_update_same_conv)
  have tr': "trie P ?ns es" using trie_cong[OF tr _ start] by simp
  have "edgeStart (?ns ! s) = edgeStart (ns ! s)" using x(3) by (cases "s = btarget e"; cases "s < length ns") (simp_all add: list_update_beyond)
  then have edges: "edges_of ?ns es s = edges_of ns es s" by (rule edges_of_cong)
  have keep: "?ns ! v = ns ! v" if "v \<noteq> btarget e" for v using that by simp
  have "\<exists>ns'. foldl (link_edge es s) (?ns, q @ [btarget e]) E = (ns', (q @ [btarget e]) @ map btarget E) \<and> length ns' = length ?ns \<and>
     map edgeStart ns' = map edgeStart ?ns \<and>
     (\<forall>v. v \<notin> set (map btarget E) \<longrightarrow> ns' ! v = ?ns ! v) \<and>
     (\<forall>e \<in> set E. linked lower kws P (P ! btarget e) (ns' ! btarget e))"
  proof (rule Cons.IH[OF tr' Cons.prems(2,3)])
    fix v assume v: "v < length P" "length (P ! v) \<le> length (P ! s)"
    then have "v \<noteq> btarget e" using t(2) by auto
    then show "linked lower kws P (P ! v) (?ns ! v)" using keep Cons.prems(4)[OF v] by simp
  next
    fix e' assume e': "e' \<in> set E"
    then have "btarget e' \<in> btarget ` set E" by (rule imageI)
    then have "btarget e' \<noteq> btarget e" using Cons.prems(6) by (metis distinct.simps(2) list.simps(9) list.set_map)
    then show "unlinked lower kws (P ! btarget e') (?ns ! btarget e')" using keep Cons.prems(7)[of e'] e' by simp
  qed (use edges Cons.prems in auto)
  then obtain ns' where ns': "foldl (link_edge es s) (?ns, q @ [btarget e]) E = (ns', (q @ [btarget e]) @ map btarget E)"
     "length ns' = length ?ns" "map edgeStart ns' = map edgeStart ?ns"
     "\<And>v. v \<notin> set (map btarget E) \<Longrightarrow> ns' ! v = ?ns ! v"
     "\<And>e. e \<in> set E \<Longrightarrow> linked lower kws P (P ! btarget e) (ns' ! btarget e)" by blast
  have "ns' ! btarget e = x" using ns'(4)[of "btarget e"] Cons.prems(6) t(1) trie_closed[OF tr] by simp
  then show ?case using ns' x keep start by (intro exI[of _ ns']) auto
qed simp


lemma trie_children:
  assumes tr: "trie P ns es" and s: "s < length P"
  shows "v \<in> set (map btarget (edges_of ns es s)) \<longleftrightarrow> v < length P \<and> P ! v \<noteq> [] \<and> butlast (P ! v) = P ! s" (is ?set)
    and "distinct (map btarget (edges_of ns es s))" (is ?dist)
proof -
  have eq: "P ! v = P ! s @ [last (P ! v)] \<longleftrightarrow> P ! v \<noteq> [] \<and> butlast (P ! v) = P ! s"
    by (metis append_butlast_last_id butlast_snoc snoc_eq_iff_butlast)
  show ?set
  proof
    assume "v \<in> set (map btarget (edges_of ns es s))"
    then obtain e where "e \<in> set (edges_of ns es s)" "v = btarget e" by auto
    then show "v < length P \<and> P ! v \<noteq> [] \<and> butlast (P ! v) = P ! s" using trie_edge(1)[OF tr s] by auto
  next
    assume "v < length P \<and> P ! v \<noteq> [] \<and> butlast (P ! v) = P ! s"
    then show "v \<in> set (map btarget (edges_of ns es s))" using trie_edge(2)[OF tr s, of v "last (P ! v)"] eq by auto
  qed
  have lab: "distinct (map blabel (edges_of ns es s))" using tr s by (simp add: trie_def)
  have "blabel e = blabel e'" if "e \<in> set (edges_of ns es s)" "e' \<in> set (edges_of ns es s)" "btarget e = btarget e'" for e e'
    using trie_edge(1)[OF tr s that(1)] trie_edge(1)[OF tr s that(2)] that(3) by simp
  then have "inj_on btarget (set (edges_of ns es s))" using lab unfolding distinct_map inj_on_def by blast
  then show ?dist using lab by (simp add: distinct_map)
qed

lemma levels_pop:
  assumes lv: "levels lower kws P es d (s # A) B ns"
    and kws: "\<And>k. k \<in> set kws \<Longrightarrow> k \<noteq> [] \<Longrightarrow> lower k \<in> set P"
  shows "\<exists>ns' B'. foldl (link_edge es s) (ns, A @ B) (edges_of ns es s) = (ns', A @ B') \<and>
     levels lower kws P es d A B' ns' \<and> map edgeStart ns' = map edgeStart ns"
proof -
  have tr: "trie P ns es" and d: "d > 0" and s: "s < length P" "length (P ! s) = d"
    and dist: "s \<notin> set A" "distinct A" "distinct B"
    and A: "\<And>v. v \<in> set A \<Longrightarrow> v < length P \<and> length (P ! v) = d"
    and B: "\<And>v. v \<in> set B \<Longrightarrow> v < length P \<and> length (P ! v) = Suc d"
    and ok: "\<And>v. v < length P \<Longrightarrow> length (P ! v) \<le> d \<or> v \<in> set B \<Longrightarrow> linked lower kws P (P ! v) (ns ! v)"
    and raw: "\<And>v. v < length P \<Longrightarrow> length (P ! v) > d \<Longrightarrow> v \<notin> set B \<Longrightarrow> unlinked lower kws (P ! v) (ns ! v)"
    and next': "\<And>v. v < length P \<Longrightarrow> length (P ! v) = Suc d \<Longrightarrow> v \<in> set B \<longleftrightarrow> butlast (P ! v) \<notin> (!) P ` set (s # A)"
    using lv by (auto simp: levels_def)
  let ?T = "map btarget (edges_of ns es s)"
  note T = trie_children[OF tr s(1)]
  have T_deep: "v < length P \<and> length (P ! v) = Suc d \<and> v \<notin> set B" if "v \<in> set ?T" for v
  proof -
    have v: "v < length P" "P ! v \<noteq> []" "butlast (P ! v) = P ! s" using T(1) that by auto
    then have "length (P ! v) = Suc d" using s(2) length_butlast[of "P ! v"] by (cases "P ! v") auto
    then show ?thesis using v next'[of v] by auto
  qed
  have nonroot: "P ! s \<noteq> []" using s(2) d by auto
  obtain ns' where ns': "foldl (link_edge es s) (ns, A @ B) (edges_of ns es s) = (ns', (A @ B) @ ?T)" "length ns' = length ns"
     "map edgeStart ns' = map edgeStart ns"
     "\<And>v. v \<notin> set ?T \<Longrightarrow> ns' ! v = ns ! v"
     "\<And>e. e \<in> set (edges_of ns es s) \<Longrightarrow> linked lower kws P (P ! btarget e) (ns' ! btarget e)"
    using link_edges_links[OF tr s(1) nonroot, of lower kws "edges_of ns es s" "A @ B"] ok s(2) T(2) kws raw T_deep by auto
  have new: "linked lower kws P (P ! v) (ns' ! v)" if "v \<in> set ?T" for v using that ns'(5) by auto
  have inj: "P ! s \<notin> (!) P ` set A" using trie_index[OF tr s(1)] A dist(1) by auto
  have "levels lower kws P es d A (B @ ?T) ns'"
    unfolding levels_def
  proof (intro conjI allI impI ballI)
    show "trie P ns' es" by (rule trie_cong[OF tr ns'(2,3)])
    show "0 < d" by (rule d)
  next
    fix v assume v: "v < length P" "length (P ! v) \<le> d \<or> v \<in> set (B @ ?T)"
    show "linked lower kws P (P ! v) (ns' ! v)"
    proof (cases "v \<in> set ?T")
      case False
      then show ?thesis using ok[OF v(1)] v(2) ns'(4)[OF False] by auto
    qed (rule new)
  next
    fix v assume v: "v < length P" "d < length (P ! v) \<and> v \<notin> set (B @ ?T)"
    then show "unlinked lower kws (P ! v) (ns' ! v)" using raw ns'(4)[of v] by simp
  next
    fix v assume v: "v < length P" "length (P ! v) = Suc d"
    then have "v \<in> set ?T \<longleftrightarrow> butlast (P ! v) = P ! s" using T(1) by auto
    then show "v \<in> set (B @ ?T) \<longleftrightarrow> butlast (P ! v) \<notin> (!) P ` set A" using next'[OF v] inj by (cases "butlast (P ! v) = P ! s") auto
  next
    show "distinct A" by (rule dist)
    show "distinct (B @ ?T)" using dist(3) T(2) T_deep by auto
  qed (use A B T_deep in auto)
  then show ?thesis using ns'(1,3) by auto
qed

lemma levels_next:
  assumes lv: "levels lower kws P es d [] B ns"
  shows "levels lower kws P es (Suc d) B [] ns"
proof -
  have all: "v \<in> set B" if "v < length P" "length (P ! v) = Suc d" for v using lv that by (simp add: levels_def)
  have par: "butlast (P ! v) \<in> (!) P ` set B" if v: "v < length P" "length (P ! v) = Suc (Suc d)" for v
  proof -
    have "P ! v \<noteq> []" using v(2) by auto
    then have "butlast (P ! v) @ [last (P ! v)] \<in> set P" using v(1) by simp
    then have "butlast (P ! v) \<in> set P" using lv by (auto simp: levels_def trie_def prefix_closed_def)
    then obtain u where "u < length P" "P ! u = butlast (P ! v)" by (metis in_set_conv_nth)
    then show ?thesis using all[of u] v(2) by (force simp: image_iff)
  qed
  have B: "v < length P \<and> length (P ! v) = Suc d" if "v \<in> set B" for v using lv that by (simp add: levels_def)
  have ok: "linked lower kws P (P ! v) (ns ! v)" if "v < length P" "length (P ! v) \<le> Suc d" for v
    using lv all[OF that(1)] that le_Suc_eq unfolding levels_def by blast
  have raw: "unlinked lower kws (P ! v) (ns ! v)" if v: "v < length P" "length (P ! v) > Suc d" for v
  proof -
    have "v \<notin> set B" using B[of v] v(2) by auto
    then show ?thesis using lv v unfolding levels_def by (meson Suc_lessD)
  qed
  have "trie P ns es" "distinct B" using lv by (simp_all add: levels_def)
  then show ?thesis unfolding levels_def using ok raw par B by simp
qed

definition deeper :: "string list \<Rightarrow> nat \<Rightarrow> nat set" where
  "deeper P d = {v. v < length P \<and> length (P ! v) > d}"

lemma deeper_next:
  assumes lv: "levels lower kws P es d [] B ns"
  shows "length B + card (deeper P (Suc d)) = card (deeper P d)"
proof -
  have "v \<in> set B" if "v < length P" "length (P ! v) = Suc d" for v using lv that by (simp add: levels_def)
  moreover have "v < length P \<and> length (P ! v) = Suc d" if "v \<in> set B" for v using lv that by (simp add: levels_def)
  ultimately have B: "v \<in> set B \<longleftrightarrow> v < length P \<and> length (P ! v) = Suc d" for v by blast
  have set: "set B = {v. v < length P \<and> length (P ! v) = Suc d}" using B by blast
  have "deeper P d = set B \<union> deeper P (Suc d)" unfolding set deeper_def by (rule set_eqI) (simp, arith)
  moreover have "set B \<inter> deeper P (Suc d) = {}" unfolding set deeper_def by auto
  moreover have "distinct B" using lv by (simp add: levels_def)
  moreover have "finite (deeper P (Suc d))" by (simp add: deeper_def)
  ultimately show ?thesis using card_Un_disjoint[of "set B" "deeper P (Suc d)"] by (simp add: distinct_card)
qed

lemma levels_end:
  assumes lv: "levels lower kws P es d [] [] ns" and v: "v < length P"
  shows "linked lower kws P (P ! v) (ns ! v)"
proof -
  have "length (P ! v) \<le> d"
  proof (rule ccontr)
    assume deep: "\<not> length (P ! v) \<le> d"
    have "take (Suc d) (P ! v) \<in> set P"
      using prefix_closed_prefix[of "set P" "P ! v"] lv v by (simp add: levels_def trie_def take_is_prefix)
    then obtain u where "u < length P" "P ! u = take (Suc d) (P ! v)" by (metis in_set_conv_nth)
    then show False using lv deep by (auto simp: levels_def)
  qed
  then show ?thesis using lv v by (simp add: levels_def)
qed

lemma link_loop_levels:
  assumes "levels lower kws P es d A B ns" "length A + card (deeper P d) \<le> n"
    and kws: "\<And>k. k \<in> set kws \<Longrightarrow> k \<noteq> [] \<Longrightarrow> lower k \<in> set P"
  shows "map edgeStart (link_loop n es ns (A @ B)) = map edgeStart ns \<and>
    (\<forall>v < length P. linked lower kws P (P ! v) (link_loop n es ns (A @ B) ! v))"
  using assms(1,2)
proof (induction n arbitrary: d A B ns)
  case 0
  then have "A = []" "B = []" using deeper_next[of lower kws P es d B ns] by auto
  then show ?case using levels_end 0(1) by auto
next
  case (Suc n)
  have pop: ?case if lv: "levels lower kws P es d' (s # A') B' ns" and q: "A @ B = s # A' @ B'"
    and le: "length (s # A') + card (deeper P d') \<le> Suc n" for d' s A' B'
  proof -
    obtain ns' B'' where "foldl (link_edge es s) (ns, A' @ B') (edges_of ns es s) = (ns', A' @ B'')"
      "levels lower kws P es d' A' B'' ns'" "map edgeStart ns' = map edgeStart ns"
      using levels_pop[OF lv kws] by blast
    then show ?thesis using Suc.IH[of d' A' B'' ns'] le q by simp
  qed
  show ?case
  proof (cases A)
    case (Cons s A')
    then show ?thesis using pop[of d s A' B] Suc.prems by simp
  next
    case Nil
    have lv: "levels lower kws P es (Suc d) B [] ns" using Suc.prems(1) Nil levels_next by simp
    show ?thesis
    proof (cases B)
      case (Cons s B')
      then show ?thesis using pop[of "Suc d" s B' "[]"] lv Nil Suc.prems(2) deeper_next[of lower kws P es d B ns] Suc.prems(1) by simp
    qed (use Nil Suc.prems(1) levels_end in auto)
  qed
qed


lemma built_levels:
  assumes bl: "built lower kws P (ns, es)" and lower: "\<And>k. k \<in> set kws \<Longrightarrow> k \<noteq> [] \<Longrightarrow> lower k \<noteq> []"
  shows "levels lower kws P es 1 (map btarget (edges_of ns es 0)) [] ns"
    "length (map btarget (edges_of ns es 0)) + card (deeper P 1) \<le> length ns"
proof -
  have tr: "trie P ns es" using bl by (simp add: built_def)
  note cl = trie_closed[OF tr]
  let ?T = "map btarget (edges_of ns es 0)"
  have root: "0 < length P" "P ! 0 = []" using cl by auto
  note T = trie_children[OF tr root(1)]
  have T1: "v \<in> set ?T \<longleftrightarrow> v < length P \<and> length (P ! v) = 1" for v
    unfolding T(1) root(2) by (cases "P ! v" rule: rev_cases) auto
  have un: "unlinked lower kws (P ! v) (ns ! v)" if v: "v < length P" for v
    using bl v cl nth_map[of v ns failure] nth_map[of v ns bestKeyword] by (simp add: unlinked_def built_def)
  have sing: "v \<noteq> [] \<and> suffix v [x] \<longleftrightarrow> v = [x]" for v :: string and x by (auto simp: suffix_Cons)
  have lk: "linked lower kws P (P ! v) (ns ! v)" if v: "v < length P" "length (P ! v) \<le> 1" for v
  proof (cases "P ! v")
    case Nil
    have "hits lower kws (\<lambda>u. u = []) = {}" using lower by (auto simp: hits_def)
    moreover have "hits lower kws (\<lambda>u. u \<noteq> [] \<and> suffix u []) = {}" by (auto simp: hits_def)
    ultimately show ?thesis using un[OF v(1)] Nil root by (simp add: linked_def unlinked_def own_def)
  next
    case (Cons x u)
    then have "P ! v = [x]" using v(2) by simp
    then show ?thesis using un[OF v(1)] root sing by (simp add: linked_def unlinked_def own_def)
  qed
  have par: "butlast (P ! v) \<in> (!) P ` set ?T" if v: "v < length P" "length (P ! v) = Suc 1" for v
  proof -
    obtain x y where xy: "P ! v = [x] @ [y]" using v(2) by (auto simp: length_Suc_conv)
    then have "[x] @ [y] \<in> set P" using v(1) by (metis nth_mem)
    then have "[x] \<in> set P" using cl unfolding prefix_closed_def by blast
    then obtain u where "u < length P" "P ! u = [x]" by (metis in_set_conv_nth)
    then have "u \<in> set ?T" "P ! u = butlast (P ! v)" using T1[of u] xy by simp_all
    then show ?thesis by (metis imageI)
  qed
  show "levels lower kws P es 1 ?T [] ns"
    unfolding levels_def using tr lk un par T(2) T1 by simp
  have set: "set ?T = {v. v < length P \<and> length (P ! v) = 1}" using T1 by blast
  have "set ?T \<union> deeper P 1 \<subseteq> {..<length P}" "set ?T \<inter> deeper P 1 = {}" unfolding set deeper_def by auto
  then have "card (set ?T) + card (deeper P 1) \<le> length P"
    by (metis List.finite_set card_Un_disjoint card_lessThan card_mono finite_Un finite_lessThan finite_subset)
  then show "length ?T + card (deeper P 1) \<le> length ns" using cl by (simp add: distinct_card[OF T(2)] del: set_map)
qed

end
