(* ===== verification/KeywordMatching.thy ===== *)
theory KeywordMatching
  imports KeywordLinks
begin

text \<open>
  The last phases: the insertion sort of the edges of a node, the flat edge array and the binary search in
  a slice of it, the transitions of the finished automaton, and the scan of a text, which is compared with
  the search of each keyword in turn.
\<close>

section \<open>The sorted edges\<close>

abbreviation key :: "contentModerationKeywordEdge \<Rightarrow> nat" where
  "key e \<equiv> of_char (label e)"

lemma insert_edge_eq:
  "insert_edge xs e = rev (dropWhile (\<lambda>x. key e < key x) (rev xs)) @ e # rev (takeWhile (\<lambda>x. key e < key x) (rev xs))"
proof -
  have "xs = rev (dropWhile (\<lambda>x. key e < key x) (rev xs)) @ rev (takeWhile (\<lambda>x. key e < key x) (rev xs))"
    by (metis rev_append rev_rev_ident takeWhile_dropWhile_id)
  then have "take (length xs - length (takeWhile (\<lambda>x. key e < key x) (rev xs))) xs = rev (dropWhile (\<lambda>x. key e < key x) (rev xs))"
    by (metis (no_types, lifting) append_eq_conv_conj diff_add_inverse2 length_append length_rev)
  then show ?thesis by (simp add: insert_edge_def Let_def)
qed

lemma set_insert_edge: "set (insert_edge xs e) = insert e (set xs)"
proof -
  have "set xs = set (takeWhile (\<lambda>x. key e < key x) (rev xs)) \<union> set (dropWhile (\<lambda>x. key e < key x) (rev xs))"
    by (metis set_append set_rev takeWhile_dropWhile_id)
  then show ?thesis by (auto simp: insert_edge_eq)
qed

lemma sorted_insert_edge:
  assumes "sorted (map key xs)"
  shows "sorted (map key (insert_edge xs e))"
proof -
  let ?Q = "\<lambda>x. key e < key x"
  have eq: "xs = rev (dropWhile ?Q (rev xs)) @ rev (takeWhile ?Q (rev xs))"
    by (metis rev_append rev_rev_ident takeWhile_dropWhile_id)
  have "sorted (map key (rev (dropWhile ?Q (rev xs)) @ rev (takeWhile ?Q (rev xs))))" using assms eq by simp
  then have s: "sorted (map key (rev (dropWhile ?Q (rev xs))))" "sorted (map key (rev (takeWhile ?Q (rev xs))))"
    "\<And>x y. x \<in> set (dropWhile ?Q (rev xs)) \<Longrightarrow> y \<in> set (takeWhile ?Q (rev xs)) \<Longrightarrow> key x \<le> key y"
    unfolding map_append sorted_append by auto
  have above: "key e < key y" if "y \<in> set (takeWhile ?Q (rev xs))" for y using that by (rule set_takeWhileD[THEN conjunct2])
  have below: "key x \<le> key e" if x: "x \<in> set (dropWhile ?Q (rev xs))" for x
  proof (cases "dropWhile ?Q (rev xs)")
    case (Cons y ys)
    then have "\<not> ?Q y" using hd_dropWhile[of ?Q "rev xs"] by auto
    moreover have "key x \<le> key y" using s(1) x unfolding Cons by (auto simp: sorted_append)
    ultimately show ?thesis by simp
  next
    case Nil
    show ?thesis using x unfolding Nil by simp
  qed
  show ?thesis unfolding insert_edge_eq using s above below by (auto simp: sorted_append intro: less_imp_le order.trans)
qed

lemma foldl_insert_edge:
  "set (foldl insert_edge xs es) = set xs \<union> set es"
  "sorted (map key xs) \<Longrightarrow> sorted (map key (foldl insert_edge xs es))"
  by (induction es arbitrary: xs) (auto simp: set_insert_edge sorted_insert_edge)


definition flat :: "contentModerationKeywordBuildEdge list \<Rightarrow> contentModerationKeywordEdge list" where
  "flat es = foldl insert_edge [] (map (\<lambda>e. \<lparr>target = btarget e, label = blabel e\<rparr>) es)"

lemma flat_set: "e \<in> set (flat es) \<longleftrightarrow> (\<exists>b \<in> set es. e = \<lparr>target = btarget b, label = blabel b\<rparr>)"
  by (auto simp: flat_def foldl_insert_edge)

lemma flat_sorted: "sorted (map key (flat es))"
  by (simp add: flat_def foldl_insert_edge)

lemma flatten_node_eq:
  "flatten_node es (ns, out) i =
     (ns[i := (ns ! i)\<lparr>edgeStart := length out, edgeCount := length (flat (edges_of ns es i))\<rparr>], out @ flat (edges_of ns es i))"
  by (simp add: flatten_node_def flat_def Let_def)

lemma flatten_nodes:
  assumes "k \<le> length ns" "foldl (flatten_node es) (ns, []) [0..<k] = (ns', out)"
  shows "length ns' = length ns \<and> (\<forall>i < length ns. k \<le> i \<longrightarrow> ns' ! i = ns ! i) \<and>
    (\<forall>i < k. failure (ns' ! i) = failure (ns ! i) \<and> bestKeyword (ns' ! i) = bestKeyword (ns ! i) \<and>
       (\<exists>before after. out = before @ flat (edges_of ns es i) @ after \<and> edgeStart (ns' ! i) = length before \<and>
          edgeCount (ns' ! i) = length (flat (edges_of ns es i))))"
  using assms
proof (induction k arbitrary: ns' out)
  case (Suc k)
  obtain ns1 out1 where 1: "foldl (flatten_node es) (ns, []) [0..<k] = (ns1, out1)" by (metis prod.collapse)
  have k: "k < length ns" using Suc.prems(1) by simp
  have len: "length ns1 = length ns" and keep: "\<And>i. i < length ns \<Longrightarrow> k \<le> i \<Longrightarrow> ns1 ! i = ns ! i"
    and done': "\<And>i. i < k \<Longrightarrow> failure (ns1 ! i) = failure (ns ! i) \<and> bestKeyword (ns1 ! i) = bestKeyword (ns ! i) \<and>
       (\<exists>before after. out1 = before @ flat (edges_of ns es i) @ after \<and> edgeStart (ns1 ! i) = length before \<and>
          edgeCount (ns1 ! i) = length (flat (edges_of ns es i)))"
    using Suc.IH[OF _ 1] k by auto
  have e: "edges_of ns1 es k = edges_of ns es k" using keep[OF k] by (intro edges_of_cong) simp
  have res: "ns' = ns1[k := (ns ! k)\<lparr>edgeStart := length out1, edgeCount := length (flat (edges_of ns es k))\<rparr>]"
    "out = out1 @ flat (edges_of ns es k)"
    using Suc.prems(2) 1 keep[OF k] by (simp_all add: flatten_node_eq e)
  have "failure (ns' ! i) = failure (ns ! i) \<and> bestKeyword (ns' ! i) = bestKeyword (ns ! i) \<and>
       (\<exists>before after. out = before @ flat (edges_of ns es i) @ after \<and> edgeStart (ns' ! i) = length before \<and>
          edgeCount (ns' ! i) = length (flat (edges_of ns es i)))" if i: "i < Suc k" for i
  proof (cases "i = k")
    case True
    then show ?thesis using k len by (simp add: res) (intro exI[of _ out1] exI[of _ "[]"]; simp)
  next
    case False
    then have "i < k" using i by simp
    from done'[OF this] obtain before after where
      "out1 = before @ flat (edges_of ns es i) @ after" "edgeStart (ns1 ! i) = length before"
      "edgeCount (ns1 ! i) = length (flat (edges_of ns es i))" by blast
    then show ?thesis using done'[OF \<open>i < k\<close>] False by (auto simp: res)
  qed
  moreover have "ns' ! i = ns ! i" if "i < length ns" "Suc k \<le> i" for i using keep[of i] that by (simp add: res)
  ultimately show ?case using len by (simp add: res)
qed simp

section \<open>The search\<close>

lemma search_step:
  "left < right \<Longrightarrow> search xs c left right =
     (if key (xs ! (left + (right - left) div 2)) < of_char c then search xs c (left + (right - left) div 2 + 1) right
      else search xs c left (left + (right - left) div 2))"
  by (subst search.simps) (simp add: Let_def)

lemma search_stop: "\<not> left < right \<Longrightarrow> search xs c left right = left"
  by (subst search.simps) simp

lemma search_split:
  assumes "sorted (map key xs)" "left \<le> right" "right \<le> length xs"
    and "\<forall>j < left. key (xs ! j) < of_char c" "\<forall>j < length xs. right \<le> j \<longrightarrow> \<not> key (xs ! j) < of_char c"
  shows "(\<forall>j < search xs c left right. key (xs ! j) < of_char c) \<and>
    (\<forall>j < length xs. search xs c left right \<le> j \<longrightarrow> \<not> key (xs ! j) < of_char c)"
  using assms
proof (induction xs c left right rule: search.induct)
  case (1 xs c left right)
  show ?case
  proof (cases "left < right")
    case True
    define m where "m = left + (right - left) div 2"
    have m: "left \<le> m" "m < right" using True by (auto simp: m_def)
    have mono: "key (xs ! i) \<le> key (xs ! j)" if "i \<le> j" "j < length xs" for i j
      using 1(3) that by (simp add: sorted_iff_nth_mono)
    show ?thesis
    proof (cases "key (xs ! m) < of_char c")
      case lt: True
      have "key (xs ! j) < of_char c" if "j < m + 1" for j by (rule le_less_trans[OF mono lt]) (use that m 1(5) in simp_all)
      then have below: "\<forall>j < m + 1. key (xs ! j) < of_char c" by blast
      have step: "search xs c left right = search xs c (m + 1) right" unfolding search_step[OF True] m_def[symmetric] using lt by simp
      show ?thesis unfolding step by (rule 1(1)[OF True m_def lt 1(3) _ 1(5) below 1(7)]) (use m in simp)
    next
      case ge: False
      have "\<not> key (xs ! j) < of_char c" if "j < length xs" "m \<le> j" for j using mono[OF that(2,1)] ge by simp
      then have above: "\<forall>j < length xs. m \<le> j \<longrightarrow> \<not> key (xs ! j) < of_char c" by blast
      have step: "search xs c left right = search xs c left m" unfolding search_step[OF True] m_def[symmetric] using ge by simp
      show ?thesis unfolding step by (rule 1(2)[OF True m_def ge 1(3) m(1) _ 1(6) above]) (use m 1(5) in simp)
    qed
  next
    case False
    then show ?thesis unfolding search_stop[OF False] using 1(6,7) by auto
  qed
qed

text \<open>The search in a slice is the search in the slice alone.\<close>

lemma search_slice:
  assumes "left \<le> right" "right \<le> length xs"
  shows "search (before @ xs @ after) c (length before + left) (length before + right) = length before + search xs c left right"
  using assms
proof (induction xs c left right rule: search.induct)
  case (1 xs c left right)
  show ?case
  proof (cases "left < right")
    case True
    define m where "m = left + (right - left) div 2"
    have m: "left \<le> m" "m < right" using True by (auto simp: m_def)
    have mid: "length before + left + (length before + right - (length before + left)) div 2 = length before + m" by (simp add: m_def)
    have at: "(before @ xs @ after) ! (length before + m) = xs ! m" using m 1(4) by (simp add: nth_append)
    have lhs: "search (before @ xs @ after) c (length before + left) (length before + right) =
      (if key (xs ! m) < of_char c then search (before @ xs @ after) c (length before + (m + 1)) (length before + right)
       else search (before @ xs @ after) c (length before + left) (length before + m))"
      using search_step[of "length before + left" "length before + right" "before @ xs @ after" c] True
      unfolding mid at by (simp add: add.assoc)
    have rhs: "search xs c left right = (if key (xs ! m) < of_char c then search xs c (m + 1) right else search xs c left m)"
      using search_step[OF True, of xs c] by (simp add: m_def)
    show ?thesis
      using 1(1)[OF True m_def] 1(2)[OF True m_def] m 1(4) unfolding lhs rhs by (simp split: if_split)
  qed (simp add: search_stop)
qed


lemma search_found:
  fixes c :: char
  assumes "sorted (map key xs)"
  defines "r \<equiv> search xs c 0 (length xs)"
  shows "r < length xs \<and> label (xs ! r) = c \<longleftrightarrow> (\<exists>e \<in> set xs. label e = c)"
proof
  assume "\<exists>e \<in> set xs. label e = c"
  then obtain j where j: "j < length xs" "label (xs ! j) = c" by (auto simp: in_set_conv_nth)
  have sp: "(\<forall>j < r. key (xs ! j) < of_char c) \<and> (\<forall>j < length xs. r \<le> j \<longrightarrow> \<not> key (xs ! j) < of_char c)"
    unfolding r_def by (rule search_split[OF assms(1)]) simp_all
  then have "r \<le> j" using j by (metis leI less_irrefl)
  moreover have "key (xs ! r) \<le> key (xs ! j)" using assms(1) calculation j(1) by (simp add: sorted_iff_nth_mono)
  ultimately have "r < length xs" "key (xs ! r) = of_char c" using sp j by (auto simp: le_less)
  then show "r < length xs \<and> label (xs ! r) = c" by (metis of_char_eq_iff)
qed auto

section \<open>The matcher\<close>

definition automaton :: "(string \<Rightarrow> string) \<Rightarrow> string list \<Rightarrow> string list \<Rightarrow> contentModerationKeywordMatcher \<Rightarrow> bool" where
  "automaton lower kws P m \<longleftrightarrow>
     keywordList m = kws \<and> length (nodes m) = length P \<and> P \<noteq> [] \<and> P ! 0 = [] \<and> distinct P \<and> prefix_closed (set P) \<and>
     (\<forall>v < length P. linked lower kws P (P ! v) (nodes m ! v)) \<and>
     (\<forall>v < length P. \<forall>c. if P ! v @ [c] \<in> set P then next_state m v c < length P \<and> P ! next_state m v c = P ! v @ [c]
                           else next_state m v c = 0) \<and>
     (\<forall>k \<in> set kws. k \<noteq> [] \<longrightarrow> lower k \<in> set P)"

lemma root_transitions:
  "distinct (map blabel es) \<Longrightarrow>
   foldl (\<lambda>f e. f(blabel e := btarget e)) f es c = (case find (\<lambda>e. blabel e = c) es of None \<Rightarrow> f c | Some e \<Rightarrow> btarget e)"
proof (induction es arbitrary: f)
  case (Cons e es)
  have "find (\<lambda>e. blabel e = c) es = None" if "blabel e = c"
  proof -
    have "c \<notin> blabel ` set es" using Cons.prems that by auto
    then show ?thesis by (auto simp: find_None_iff)
  qed
  then show ?case using Cons by auto
qed simp

lemma new_matcher_automaton:
  assumes lower: "\<And>k. k \<in> set kws \<Longrightarrow> k \<noteq> [] \<Longrightarrow> lower k \<noteq> []"
    and m: "newContentModerationKeywordMatcher lower kws = Some m"
  shows "\<exists>P. automaton lower kws P m"
proof -
  obtain ns es where b: "build_trie lower kws = (ns, es)" by (metis prod.collapse)
  obtain P where bl: "built lower kws P (ns, es)" using build_trie_built[of lower kws] b by auto
  have tr: "trie P ns es" and kws: "\<And>k. k \<in> set kws \<Longrightarrow> k \<noteq> [] \<Longrightarrow> lower k \<in> set P" using bl by (auto simp: built_def)
  note cl = trie_closed[OF tr]
  let ?roots = "edges_of ns es 0"
  define ns1 where "ns1 = link_loop (length ns) es ns (map btarget ?roots)"
  obtain ns2 out where fl: "foldl (flatten_node es) (ns1, []) [0..<length ns1] = (ns2, out)" by (metis prod.collapse)
  have m_eq: "m = \<lparr>nodes = ns2, edges = out, rootTransitions = foldl (\<lambda>f e. f(blabel e := btarget e)) (\<lambda>_. 0) ?roots, keywordList = kws\<rparr>"
    using m by (auto simp: newContentModerationKeywordMatcher_def b Let_def fl[unfolded ns1_def] split: if_splits)
  have ns1: "map edgeStart ns1 = map edgeStart ns" "\<And>v. v < length P \<Longrightarrow> linked lower kws P (P ! v) (ns1 ! v)"
    using link_loop_levels[OF built_levels[OF bl lower] kws] by (auto simp: ns1_def)
  have len1: "length ns1 = length P" using arg_cong[OF ns1(1), of length] cl by simp
  have tr1: "trie P ns1 es" by (rule trie_cong[OF tr _ ns1(1)]) (use len1 cl in simp)
  have len2: "length ns2 = length P" using flatten_nodes[OF _ fl] len1 by simp
  have node: "failure (ns2 ! v) = failure (ns1 ! v)" "bestKeyword (ns2 ! v) = bestKeyword (ns1 ! v)"
    "\<exists>before after. out = before @ flat (edges_of ns1 es v) @ after \<and> edgeStart (ns2 ! v) = length before \<and>
          edgeCount (ns2 ! v) = length (flat (edges_of ns1 es v))" if "v < length P" for v
    using flatten_nodes[OF _ fl] len1 that by auto
  have linked2: "linked lower kws P (P ! v) (ns2 ! v)" if "v < length P" for v
    using ns1(2)[OF that] node(1,2)[OF that] by (simp add: linked_def)
  have next': "if P ! v @ [c] \<in> set P then next_state m v c < length P \<and> P ! next_state m v c = P ! v @ [c]
                           else next_state m v c = 0" if v: "v < length P" for v c
  proof (cases "v = 0")
    case True
    have "distinct (map blabel ?roots)" using tr cl by (simp add: trie_def)
    then have n: "next_state m v c = (case find (\<lambda>e. blabel e = c) ?roots of None \<Rightarrow> 0 | Some e \<Rightarrow> btarget e)"
      using True root_transitions[of ?roots "\<lambda>_. 0" c] by (simp add: next_state_def m_eq)
    have "contentModerationKeywordBuildTransition ns es v c =
        (case find (\<lambda>e. blabel e = c) ?roots of None \<Rightarrow> -1 | Some e \<Rightarrow> int (btarget e))"
      using True cl by (simp add: contentModerationKeywordBuildTransition_def)
    then have nat: "next_state m v c = nat (contentModerationKeywordBuildTransition ns es v c)"
      unfolding n by (simp split: option.split)
    show ?thesis
    proof (cases "P ! v @ [c] \<in> set P")
      case True
      then obtain t where "t < length P" "P ! t = P ! v @ [c]" by (metis in_set_conv_nth)
      then have "next_state m v c = t" using transition_found[OF tr v] nat by simp
      then show ?thesis using \<open>t < length P\<close> \<open>P ! t = P ! v @ [c]\<close> True by simp
    qed (use nat transition_none[OF tr v] in simp)
  next
    case False
    obtain before after where out: "out = before @ flat (edges_of ns1 es v) @ after" "edgeStart (ns2 ! v) = length before"
      "edgeCount (ns2 ! v) = length (flat (edges_of ns1 es v))" using node(3)[OF v] by blast
    let ?xs = "flat (edges_of ns1 es v)"
    let ?r = "search ?xs c 0 (length ?xs)"
    have sr: "search out c (length before) (length before + length ?xs) = length before + ?r"
      using search_slice[of 0 "length ?xs" ?xs before after c] by (simp add: out(1))
    have n: "next_state m v c = (if ?r < length ?xs \<and> label (?xs ! ?r) = c then target (?xs ! ?r) else 0)"
      using False v len2 sr by (auto simp: next_state_def m_eq Let_def out(2,3)) (simp_all add: out(1) nth_append)
    note found = search_found[where c = c, OF flat_sorted[of "edges_of ns1 es v"]]
    show ?thesis
    proof (cases "P ! v @ [c] \<in> set P")
      case True
      then obtain t where "t < length P" "P ! t = P ! v @ [c]" by (metis in_set_conv_nth)
      then obtain e where "e \<in> set (edges_of ns1 es v)" "blabel e = c" using trie_edge(2)[OF tr1 v] by blast
      then have "\<lparr>target = btarget e, label = c\<rparr> \<in> set ?xs" unfolding flat_set by auto
      then have "\<exists>x \<in> set ?xs. label x = c" by (rule bexI[rotated]) simp
      then have r: "?r < length ?xs" "label (?xs ! ?r) = c" using found by auto
      then have "?xs ! ?r \<in> set ?xs" by simp
      then obtain b where "b \<in> set (edges_of ns1 es v)" "?xs ! ?r = \<lparr>target = btarget b, label = blabel b\<rparr>" using flat_set by blast
      then show ?thesis using n r trie_edge(1)[OF tr1 v] True by auto
    next
      case no: False
      have "\<not> (\<exists>x \<in> set ?xs. label x = c)"
      proof
        assume "\<exists>x \<in> set ?xs. label x = c"
        then obtain b where "b \<in> set (edges_of ns1 es v)" "blabel b = c" using flat_set by fastforce
        then show False using trie_edge(1)[OF tr1 v] no by (metis nth_mem)
      qed
      then show ?thesis using n found no by auto
    qed
  qed
  have "keywordList m = kws" "length (nodes m) = length P" "\<forall>v < length P. linked lower kws P (P ! v) (nodes m ! v)"
    using len2 linked2 by (simp_all add: m_eq)
  moreover have "P \<noteq> []" "P ! 0 = []" "distinct P" "prefix_closed (set P)" using tr by (auto simp: trie_def)
  ultimately have "automaton lower kws P m" unfolding automaton_def using next' kws by blast
  then show ?thesis ..
qed


lemma new_matcher_none:
  assumes m: "newContentModerationKeywordMatcher lower kws = None" and k: "k \<in> set kws" "k \<noteq> []"
  shows "lower k = []"
proof -
  obtain ns es where b: "build_trie lower kws = (ns, es)" by (metis prod.collapse)
  obtain P where bl: "built lower kws P (ns, es)" using build_trie_built[of lower kws] b by auto
  have "kws \<noteq> []" using k by auto
  then have "length ns = 1" using m by (auto simp: newContentModerationKeywordMatcher_def b Let_def split: if_splits prod.splits)
  then have "P = [[]]" using bl by (auto simp: built_def trie_def length_Suc_conv)
  then show ?thesis using bl k by (simp add: built_def)
qed

lemma state_loop_lsuf:
  assumes au: "automaton lower kws P m" and v: "v < length P" "length (P ! v) < n"
  shows "state_loop n m c v < length P \<and> P ! state_loop n m c v = lsuf (set P) (P ! v @ [c])"
  using v
proof (induction n arbitrary: v)
  case (Suc n)
  have next': "if P ! v @ [c] \<in> set P then next_state m v c < length P \<and> P ! next_state m v c = P ! v @ [c]
                           else next_state m v c = 0"
    and lk: "linked lower kws P (P ! v) (nodes m ! v)" and closed: "prefix_closed (set P)" and root: "P ! 0 = []" "0 < length P"
    using au Suc.prems(1) by (auto simp: automaton_def)
  show ?case
  proof (cases "P ! v @ [c] \<in> set P")
    case True
    then have n: "next_state m v c < length P" "P ! next_state m v c = P ! v @ [c]" using next' by auto
    have "next_state m v c \<noteq> 0"
    proof
      assume "next_state m v c = 0"
      then show False using n(2) root(1) by simp
    qed
    then show ?thesis using n lsuf_fix[OF True] by (simp add: Let_def)
  next
    case False
    then have zero: "next_state m v c = 0" using next' by simp
    note walk = lsuf_walk[OF closed nth_mem[OF Suc.prems(1)] False]
    show ?thesis
    proof (cases "v = 0")
      case True
      then show ?thesis using zero walk root by simp
    next
      case nz: False
      have "distinct P" using au by (simp add: automaton_def)
      then have ne: "P ! v \<noteq> []" using nz nth_eq_iff_index_eq[of P v 0] Suc.prems(1) root by simp
      define f where "f = failure (nodes m ! v)"
      have f: "f < length P" "P ! f = lsuf (set P) (tl (P ! v))" using lk by (auto simp: linked_def f_def)
      have "length (P ! f) < n" using f(2) length_lsuf_tl[OF ne, of "set P"] Suc.prems(2) by simp
      note ih = Suc.IH[OF f(1) this]
      have "state_loop (Suc n) m c v = state_loop n m c f" using zero nz by (simp add: f_def)
      moreover have "lsuf (set P) (P ! v @ [c]) = lsuf (set P) (P ! f @ [c])" using walk ne f(2) by simp
      ultimately show ?thesis using ih by simp
    qed
  qed
qed simp

lemma automaton_depth: "automaton lower kws P m \<Longrightarrow> v < length P \<Longrightarrow> length (P ! v) < Suc (length (nodes m))"
  using prefix_closed_length[of "set P" "P ! v"] by (simp add: automaton_def distinct_card)

text \<open>The keywords that occur in what has been read.\<close>

abbreviation occurring :: "(string \<Rightarrow> string) \<Rightarrow> string list \<Rightarrow> string \<Rightarrow> nat set" where
  "occurring lower kws w \<equiv> hits lower kws (\<lambda>v. v \<noteq> [] \<and> sublist v w)"

lemma occurring_snoc:
  assumes "\<And>k. k \<in> set kws \<Longrightarrow> k \<noteq> [] \<Longrightarrow> lower k \<in> S"
  shows "occurring lower kws (w @ [c]) = occurring lower kws w \<union> hits lower kws (\<lambda>v. v \<noteq> [] \<and> suffix v (lsuf S (w @ [c])))"
proof -
  have "sublist v (w @ [c]) \<longleftrightarrow> sublist v w \<or> suffix v (lsuf S (w @ [c]))" if "v \<in> S" for v
  proof -
    have "suffix v (lsuf S (w @ [c])) \<longleftrightarrow> suffix v (w @ [c])"
      using lsuf_greatest[OF that] lsuf_suffix[of S "w @ [c]"] suffix_order.trans by blast
    then show ?thesis unfolding sublist_snoc by blast
  qed
  moreover have "lower (kws ! i) \<in> S" if "i < length kws" "kws ! i \<noteq> []" for i using assms that by simp
  ultimately show ?thesis unfolding hits_Un unfolding hits_def by blast
qed

lemma lowest_zero:
  assumes "finite A"
  shows "lowest A = 0 \<longleftrightarrow> 0 \<in> A"
proof (cases "A = {}")
  case False
  have "Min A = 0 \<longleftrightarrow> 0 \<in> A" using Min_in[OF assms False] Min_le[OF assms, of 0] by auto
  then show ?thesis using False by (simp add: lowest_def)
qed simp

lemma match_loop_lowest:
  assumes au: "automaton lower kws P m" and v: "v < length P" "P ! v = lsuf (set P) w"
    and best: "best = lowest (occurring lower kws w)" "best \<noteq> 0"
  shows "match_loop m cs v best =
     (if lowest (occurring lower kws (w @ cs)) = 0 then Inl (kws ! 0) else Inr (lowest (occurring lower kws (w @ cs))))"
  using v best
proof (induction cs arbitrary: w v best)
  case (Cons c cs)
  define v' where "v' = state_loop (Suc (length (nodes m))) m c v"
  have closed: "prefix_closed (set P)" and kws: "\<And>k. k \<in> set kws \<Longrightarrow> k \<noteq> [] \<Longrightarrow> lower k \<in> set P"
    and kl: "keywordList m = kws" using au by (auto simp: automaton_def)
  have v': "v' < length P" "P ! v' = lsuf (set P) (w @ [c])"
    using state_loop_lsuf[OF au Cons.prems(1) automaton_depth[OF au Cons.prems(1)], of c] Cons.prems(2) lsuf_snoc[OF closed, of w c]
    by (simp_all add: v'_def del: state_loop.simps)
  have bk: "bestKeyword (nodes m ! v') = lowest (hits lower kws (\<lambda>u. u \<noteq> [] \<and> suffix u (lsuf (set P) (w @ [c]))))"
    using au v' by (auto simp: automaton_def linked_def)
  define best' where "best' = minKeywordIndex best (bestKeyword (nodes m ! v'))"
  have best': "best' = lowest (occurring lower kws (w @ [c]))"
  proof -
    have "occurring lower kws (w @ [c]) =
        occurring lower kws w \<union> hits lower kws (\<lambda>v. v \<noteq> [] \<and> suffix v (lsuf (set P) (w @ [c])))"
      by (rule occurring_snoc) (rule kws)
    then show ?thesis unfolding best'_def bk Cons.prems(3) by (simp add: lowest_Un)
  qed
  have step: "match_loop m (c # cs) v best = (if best' = 0 then Inl (keywordList m ! 0) else match_loop m cs v' best')"
    by (simp add: Let_def best'_def v'_def del: state_loop.simps)
  show ?case
  proof (cases "best' = 0")
    case True
    have more: "sublist u (w @ c # cs)" if "sublist u (w @ [c])" for u
      using sublist_order.order.trans[OF that, of "w @ c # cs"] sublist_append_rightI[of "w @ [c]" cs] by simp
    have "0 \<in> occurring lower kws (w @ [c])" using lowest_zero[OF finite_hits] best' True by simp
    then have "0 \<in> occurring lower kws (w @ c # cs)"
      using more unfolding hits_def by blast
    then have "lowest (occurring lower kws (w @ c # cs)) = 0" using lowest_zero[OF finite_hits] by blast
    then show ?thesis using True step kl by simp
  next
    case False
    then show ?thesis using Cons.IH[OF v' best' False] step by simp
  qed
qed simp

lemma find_lowest:
  "find (\<lambda>k. k \<noteq> [] \<and> Q (lower k)) kws =
     (if lowest (hits lower kws Q) < 0 then None else Some (kws ! nat (lowest (hits lower kws Q))))"
proof (cases "hits lower kws Q = {}")
  case True
  then have "find (\<lambda>k. k \<noteq> [] \<and> Q (lower k)) kws = None" by (auto simp: hits_def find_None_iff in_set_conv_nth)
  then show ?thesis by (simp add: True)
next
  case False
  define i where "i = Min (hits lower kws Q)"
  have "i \<in> hits lower kws Q" using Min_in[OF finite_hits False] by (simp add: i_def)
  moreover have "j \<notin> hits lower kws Q" if "j < i" for j using that Min_le[OF finite_hits] by (fastforce simp: i_def)
  ultimately have "find (\<lambda>k. k \<noteq> [] \<and> Q (lower k)) kws = Some (kws ! i)"
    by (auto simp: find_Some_iff hits_def intro!: exI[of _ i])
  then show ?thesis using False by (simp add: lowest_def i_def)
qed

text \<open>C28. Whenever lowering a string leaves it empty only if it is empty, the matcher built from any list of
  keywords reports, on any text, the first keyword in the order of the list that is not empty and occurs
  in the text up to case, and nothing when there is none: the automaton with its failure links, inherited
  best keywords and sorted edge slices answers what a search of each keyword in turn answers.\<close>

theorem Match_finds_first_blocked_keyword:
  assumes lower: "\<And>s. lower s = [] \<longleftrightarrow> s = []"
  shows "Match lower (newContentModerationKeywordMatcher lower kws) text =
    find (\<lambda>k. k \<noteq> [] \<and> sublist (lower k) (lower text)) kws"
proof -
  let ?occ = "occurring lower kws (lower text)"
  have find: "find (\<lambda>k. k \<noteq> [] \<and> sublist (lower k) (lower text)) kws =
      (if lowest ?occ < 0 then None else Some (kws ! nat (lowest ?occ)))"
    using find_lowest[of "\<lambda>v. v \<noteq> [] \<and> sublist v (lower text)" lower kws] lower by simp
  show ?thesis
  proof (cases "newContentModerationKeywordMatcher lower kws")
    case None
    have "k = []" if "k \<in> set kws" for k using new_matcher_none[OF None that] lower by blast
    then have "?occ = {}" by (auto simp: hits_def)
    then show ?thesis using None find by (simp add: Match_def)
  next
    case (Some m)
    obtain P where au: "automaton lower kws P m" using new_matcher_automaton[OF _ Some] lower by auto
    have root: "0 < length P" "P ! 0 = []" "length (nodes m) = length P" "keywordList m = kws" "nodes m \<noteq> []"
      using au by (auto simp: automaton_def)
    have none: "occurring lower kws [] = {}" by (auto simp: hits_def)
    have loop: "match_loop m (lower text) 0 (-1) = (if lowest ?occ = 0 then Inl (kws ! 0) else Inr (lowest ?occ))"
      using match_loop_lowest[OF au root(1), of "[]" "-1" "lower text"] root(2) none by simp
    have range: "nat (lowest ?occ) < length kws" if "\<not> lowest ?occ < 0"
    proof -
      have "?occ \<noteq> {}" using that by auto
      then have "Min ?occ \<in> ?occ" by simp
      then have "Min ?occ < length kws" by (simp add: hits_def)
      then show ?thesis using \<open>?occ \<noteq> {}\<close> by (simp add: lowest_def)
    qed
    show ?thesis
    proof (cases "text = [] \<or> kws = []")
      case True
      then have "text = [] \<and> lower text = [] \<or> kws = []" using lower by blast
      then have "?occ = {}" by (auto simp: hits_def)
      then have "find (\<lambda>k. k \<noteq> [] \<and> sublist (lower k) (lower text)) kws = None" unfolding find by simp
      moreover have "Match lower (Some m) text = None" using True root(4) by (auto simp: Match_def)
      ultimately show ?thesis using Some by simp
    next
      case False
      then have "Match lower (Some m) text = (case match_loop m (lower text) 0 (-1) of Inl k \<Rightarrow> Some k
          | Inr best \<Rightarrow> if best < 0 \<or> nat best \<ge> length kws then None else Some (kws ! nat best))"
        unfolding Match_def option.case root(4) using False root(5) by simp
      also have "\<dots> = (if lowest ?occ < 0 then None else Some (kws ! nat (lowest ?occ)))"
        unfolding loop using range by (cases "lowest ?occ < 0"; cases "lowest ?occ = 0") (simp_all add: not_le)
      finally show ?thesis unfolding find Some .
    qed
  qed
qed

theorem Match_finds_first_blocked_keyword_witness:
  "Match ToLower (newContentModerationKeywordMatcher ToLower [''she'', [], ''HE'', ''hers'']) ''usHErs'' =
     find (\<lambda>k. k \<noteq> [] \<and> sublist (ToLower k) (ToLower ''usHErs'')) [''she'', [], ''HE'', ''hers'']"
  by (rule Match_finds_first_blocked_keyword) (simp add: ToLower_def)

end
