(* ===== verification/ModelAllowlist.thy ===== *)
theory ModelAllowlist
  imports GoPrelude
begin

text \<open>
  The model allowlist of a group, \<open>service/group_model_allowlist.go\<close>: normalisation of what an
  administrator submits, admission of a requested model, and the models shown in a listing. The spelling
  rules for OpenAI models (\<open>NormalizeOpenAICompatRequestedModel\<close>) are an argument \<open>alias\<close>: what is shown
  here holds for any. An entry of the allowlist is a pattern in which only the star is special; its
  meaning is given by \<open>glob\<close>.
\<close>

section \<open>Patterns\<close>

text \<open>The loop over the inner parts: each is cut off at its leftmost occurrence.\<close>

fun match_middle :: "string list \<Rightarrow> string \<Rightarrow> string option" where
  "match_middle [] model = Some model"
| "match_middle (part # parts) model =
     (case Index model part of None \<Rightarrow> None | Some index \<Rightarrow> match_middle parts (drop (index + length part) model))"

definition groupAllowlistPatternMatches :: "string \<Rightarrow> string \<Rightarrow> bool" where
  "groupAllowlistPatternMatches pattern model =
     (let pattern = ToLower pattern; model = ToLower model; parts = Split CHR ''*'' pattern
      in if length parts = 1 then pattern = model
         else if \<not> HasPrefix model (parts ! 0) then False
         else (case match_middle (butlast (tl parts)) (drop (length (parts ! 0)) model) of
                 None \<Rightarrow> False
               | Some model \<Rightarrow> HasSuffix model (last parts)))"

section \<open>The allowlist\<close>

record GroupModelAllowlist =
  AllowlistEnabled :: bool
  Models :: "string list"

datatype allowlist_error = INVALID_MODEL_ALLOWLIST

definition ModelAllowlistEnabled :: "GroupModelAllowlist option \<Rightarrow> bool" where
  "ModelAllowlistEnabled g = (case g of None \<Rightarrow> False | Some a \<Rightarrow> AllowlistEnabled a)"

definition normalize_step :: "string list \<times> string list \<Rightarrow> string \<Rightarrow> string list \<times> string list" where
  "normalize_step s model =
     (case s of (seen, out) \<Rightarrow>
        let model = TrimSpace model
        in if model = [] then (seen, out)
           else if ToLower model \<in> set seen then (seen, out)
           else (ToLower model # seen, out @ [model]))"

definition normalizeGroupModelAllowlist :: "GroupModelAllowlist \<Rightarrow> allowlist_error + GroupModelAllowlist" where
  "normalizeGroupModelAllowlist cfg =
     (if Models cfg = [] then
        (if AllowlistEnabled cfg then Inl INVALID_MODEL_ALLOWLIST
         else Inr \<lparr>AllowlistEnabled = AllowlistEnabled cfg, Models = []\<rparr>)
      else
        let out = snd (foldl normalize_step ([], []) (Models cfg))
        in if out = [] \<and> AllowlistEnabled cfg then Inl INVALID_MODEL_ALLOWLIST
           else Inr \<lparr>AllowlistEnabled = AllowlistEnabled cfg, Models = out\<rparr>)"

definition ModelIDOverrides :: "string \<Rightarrow> string option" where
  "ModelIDOverrides = map_of
     [(''claude-sonnet-4-5'', ''claude-sonnet-4-5-20250929''),
      (''claude-opus-4-5'', ''claude-opus-4-5-20251101''),
      (''claude-haiku-4-5'', ''claude-haiku-4-5-20251001'')]"

definition NormalizeModelID :: "string \<Rightarrow> string" where
  "NormalizeModelID i = (if i = [] then i else case ModelIDOverrides i of Some mapped \<Rightarrow> mapped | None \<Rightarrow> i)"

definition add_candidate :: "string list \<Rightarrow> string \<Rightarrow> string list" where
  "add_candidate candidates value =
     (let value = ToLower (TrimSpace value)
      in if value = [] then candidates
         else if value \<in> set candidates then candidates
         else candidates @ [value])"

definition groupModelAllowlistCandidates :: "(string \<Rightarrow> string) \<Rightarrow> string \<Rightarrow> string list" where
  "groupModelAllowlistCandidates alias model =
     foldl add_candidate []
       [model, TrimPrefix model ''models/'', NormalizeModelID (TrimSuffix model ''-thinking''), alias model]"

definition Allows :: "(string \<Rightarrow> string) \<Rightarrow> GroupModelAllowlist \<Rightarrow> string \<Rightarrow> bool" where
  "Allows alias a model =
     (if \<not> AllowlistEnabled a then True
      else let model = TrimSpace model
           in if model = [] then True
              else let candidates = groupModelAllowlistCandidates alias model
                   in list_ex (\<lambda>entry. let entry = TrimSpace entry
                        in entry \<noteq> [] \<and> list_ex (groupAllowlistPatternMatches entry) candidates) (Models a))"

section \<open>Listing\<close>

definition allowlistSourcePatternAllowsModel :: "string list \<Rightarrow> string \<Rightarrow> bool" where
  "allowlistSourcePatternAllowsModel patterns model =
     (if list_ex (\<lambda>pattern. EqualFold pattern model \<or>
           HasSuffix pattern ''*'' \<and> HasPrefix (ToLower model) (ToLower (TrimSuffix pattern ''*''))) patterns
      then True
      else let normalizedClaudeModel = NormalizeModelID (TrimSuffix model ''-thinking'')
           in \<not> EqualFold normalizedClaudeModel model \<and>
              list_ex (\<lambda>pattern. EqualFold pattern normalizedClaudeModel) patterns)"

definition add_listed :: "string list \<times> string list \<Rightarrow> string \<Rightarrow> string list \<times> string list" where
  "add_listed s model =
     (case s of (seen, filtered) \<Rightarrow>
        if ToLower model \<in> set seen then (seen, filtered)
        else (ToLower model # seen, filtered @ [model]))"

definition list_pattern :: "string \<Rightarrow> string list \<times> string list \<Rightarrow> string \<Rightarrow> string list \<times> string list" where
  "list_pattern entry s pattern =
     (if groupAllowlistPatternMatches entry pattern then add_listed s pattern
      else if HasSuffix pattern ''*'' \<and> \<not> Contains (TrimSuffix pattern ''*'') ''*'' \<and>
              HasPrefix (ToLower entry) (ToLower (TrimSuffix pattern ''*''))
      then add_listed s entry
      else s)"

definition list_entry :: "string list \<Rightarrow> string list \<times> string list \<Rightarrow> string \<Rightarrow> string list \<times> string list" where
  "list_entry patterns s entry =
     (let entry = TrimSpace entry
      in if entry = [] then s
         else if Contains entry ''*'' then foldl (list_pattern entry) s patterns
         else if allowlistSourcePatternAllowsModel patterns entry then add_listed s entry
         else s)"

definition FilterForListing :: "GroupModelAllowlist \<Rightarrow> string list \<Rightarrow> string list" where
  "FilterForListing a source =
     (if \<not> AllowlistEnabled a then source
      else if Models a = [] then []
      else let patterns = filter (\<lambda>p. p \<noteq> []) (map TrimSpace source)
           in if patterns = [] then []
              else snd (foldl (list_entry patterns) ([], []) (Models a)))"

section \<open>The meaning of a pattern\<close>

text \<open>A star stands for any string, every other character for itself.\<close>

fun glob :: "string \<Rightarrow> string \<Rightarrow> bool" where
  "glob [] s = (s = [])"
| "glob (c # p) s =
     (if c = CHR ''*'' then list_ex (\<lambda>i. glob p (drop i s)) [0..<Suc (length s)]
      else s \<noteq> [] \<and> hd s = c \<and> glob p (tl s))"

lemma glob_star: "glob (CHR ''*'' # p) s \<longleftrightarrow> (\<exists>t. suffix t s \<and> glob p t)"
proof -
  have "(\<exists>i \<le> length s. glob p (drop i s)) \<longleftrightarrow> (\<exists>t. suffix t s \<and> glob p t)"
    by (metis suffix_drop diff_le_self suffix_take append_take_drop_id suffix_def drop_eq_Nil append_eq_conv_conj le_add1 length_append)
  then show ?thesis by (simp add: list_ex_iff less_Suc_eq_le atLeast0LessThan lessThan_Suc_atMost Bex_def del: upt_Suc)
qed

lemma glob_literal: "CHR ''*'' \<notin> set a \<Longrightarrow> glob (a @ p) s \<longleftrightarrow> (\<exists>t. s = a @ t \<and> glob p t)"
proof (induction a arbitrary: s)
  case (Cons c a)
  then show ?case by (cases s) auto
qed simp

lemma glob_literal_only: "CHR ''*'' \<notin> set a \<Longrightarrow> glob a s \<longleftrightarrow> s = a"
  using glob_literal[of a "[]" s] by simp

lemma glob_self: "glob p p"
proof (induction p)
  case (Cons c p)
  show ?case
  proof (cases "c = CHR ''*''")
    case True
    then show ?thesis using Cons glob_star[of p "c # p"] suffix_ConsI[of p p c] by blast
  qed (use Cons in simp)
qed simp

section \<open>Matching is leftmost\<close>

text \<open>The parts occur one after another, anything between them, and the last one at the end.\<close>

definition parts_match :: "string list \<Rightarrow> string \<Rightarrow> bool" where
  "parts_match parts s \<longleftrightarrow> glob (Join ''*'' parts) s"

definition parts_within :: "string list \<Rightarrow> string \<Rightarrow> bool" where
  "parts_within parts s \<longleftrightarrow> (\<exists>t. suffix t s \<and> parts_match parts t)"

lemma parts_within_suffix: "suffix t s \<Longrightarrow> parts_within parts t \<Longrightarrow> parts_within parts s"
  unfolding parts_within_def using suffix_order.trans by blast

lemma parts_match_step:
  "CHR ''*'' \<notin> set part \<Longrightarrow> parts \<noteq> [] \<Longrightarrow>
   parts_match (part # parts) s \<longleftrightarrow> (\<exists>t. s = part @ t \<and> parts_within parts t)"
  by (cases parts) (simp_all add: parts_match_def parts_within_def glob_literal glob_star del: glob.simps)

lemma parts_within_last: "CHR ''*'' \<notin> set part \<Longrightarrow> parts_within [part] s \<longleftrightarrow> HasSuffix s part"
  by (auto simp: parts_within_def parts_match_def glob_literal_only HasSuffix_iff)

lemma parts_within_step:
  assumes "CHR ''*'' \<notin> set part" "parts \<noteq> []"
  shows "parts_within (part # parts) s \<longleftrightarrow>
    (case Index s part of None \<Rightarrow> False | Some i \<Rightarrow> parts_within parts (drop (i + length part) s))"
    (is "_ \<longleftrightarrow> ?leftmost")
proof
  assume "parts_within (part # parts) s"
  then obtain t where "suffix t s" "parts_match (part # parts) t" by (auto simp: parts_within_def)
  then obtain x u where s: "s = x @ part @ u" and u: "parts_within parts u"
    using parts_match_step[OF assms] by (auto simp: suffix_def)
  obtain i where i: "Index s part = Some i" "i \<le> length x" using Index_least[OF s] by blast
  have "drop (length x + length part) s = u" by (simp add: s)
  then have "suffix u (drop (i + length part) s)"
    using suffix_drop[of "length x - i" "drop (i + length part) s"] i(2) by (simp add: add.commute add.left_commute)
  then show ?leftmost using parts_within_suffix[OF _ u] i(1) by simp
next
  assume ?leftmost
  then obtain i where i: "Index s part = Some i" "parts_within parts (drop (i + length part) s)" by (auto split: option.splits)
  have s: "s = take i s @ part @ drop (i + length part) s" using Index_Some_split[OF i(1)] by simp
  have "parts_match (part # parts) (part @ drop (i + length part) s)" using parts_match_step[OF assms] i(2) by blast
  moreover have "suffix (part @ drop (i + length part) s) s" using s by (metis suffixI)
  ultimately show "parts_within (part # parts) s" unfolding parts_within_def by blast
qed

lemma match_middle_within:
  assumes "\<forall>p \<in> set parts. CHR ''*'' \<notin> set p" "CHR ''*'' \<notin> set final"
  shows "parts_within (parts @ [final]) s \<longleftrightarrow>
    (case match_middle parts s of None \<Rightarrow> False | Some t \<Rightarrow> HasSuffix t final)"
  using assms
proof (induction parts arbitrary: s)
  case (Cons part parts)
  then show ?case using parts_within_step[of part "parts @ [final]" s] by (simp split: option.split)
qed (simp add: parts_within_last)

lemma matches_glob: "groupAllowlistPatternMatches p m \<longleftrightarrow> glob (ToLower p) (ToLower m)"
proof -
  let ?p = "ToLower p" let ?m = "ToLower m" let ?parts = "Split CHR ''*'' ?p"
  have nostar: "\<forall>q \<in> set ?parts. CHR ''*'' \<notin> set q" using Split_no_sep by blast
  show ?thesis
  proof (cases "length ?parts = 1")
    case True
    then have "CHR ''*'' \<notin> set ?p" using Split_length_one_iff by blast
    then show ?thesis using True by (auto simp: groupAllowlistPatternMatches_def glob_literal_only)
  next
    case False
    then obtain a b q where parts: "?parts = a # b # q" by (cases ?parts; cases "tl ?parts") auto
    define mid where "mid = butlast (b # q)"
    define final where "final = last (b # q)"
    have bq: "b # q = mid @ [final]" by (simp add: mid_def final_def)
    have sets: "CHR ''*'' \<notin> set a" "\<forall>x \<in> set mid. CHR ''*'' \<notin> set x" "CHR ''*'' \<notin> set final"
      using nostar unfolding parts bq by auto
    have "glob ?p ?m \<longleftrightarrow> parts_match (a # mid @ [final]) ?m"
      unfolding parts_match_def bq[symmetric] parts[symmetric] Join_Split ..
    also have "\<dots> \<longleftrightarrow> HasPrefix ?m a \<and> parts_within (mid @ [final]) (drop (length a) ?m)"
      using parts_match_step[OF sets(1), of "mid @ [final]" ?m] by (auto simp: HasPrefix_split)
    also have "\<dots> \<longleftrightarrow> groupAllowlistPatternMatches p m"
      using match_middle_within[OF sets(2,3)] False
      unfolding groupAllowlistPatternMatches_def Let_def parts by (simp add: mid_def final_def split: option.splits)
    finally show ?thesis by blast
  qed
qed

section \<open>Admission\<close>

lemma add_candidate_mono: "set cs \<subseteq> set (add_candidate cs v)"
  by (auto simp: add_candidate_def Let_def)

lemma add_candidates_mono: "set cs \<subseteq> set (foldl add_candidate cs vs)"
proof (induction vs arbitrary: cs)
  case (Cons v vs)
  then show ?case using add_candidate_mono[of cs v] by (auto simp: subset_iff)
qed simp

lemma candidates_self: "TrimSpace m = m \<Longrightarrow> m \<noteq> [] \<Longrightarrow> ToLower m \<in> set (groupModelAllowlistCandidates alias m)"
  using add_candidates_mono[of "[ToLower m]" "[TrimPrefix m ''models/'', NormalizeModelID (TrimSuffix m ''-thinking''), alias m]"]
  by (simp add: groupModelAllowlistCandidates_def add_candidate_def[of "[]" m])

lemma Allows_iff:
  "Allows alias a m \<longleftrightarrow> \<not> AllowlistEnabled a \<or> TrimSpace m = [] \<or>
     (\<exists>e \<in> set (Models a). TrimSpace e \<noteq> [] \<and>
        (\<exists>c \<in> set (groupModelAllowlistCandidates alias (TrimSpace m)). glob (ToLower (TrimSpace e)) (ToLower c)))"
  by (auto simp: Allows_def Let_def list_ex_iff matches_glob)

lemma Allows_match:
  assumes "e \<in> set (Models a)" "TrimSpace e \<noteq> []" "TrimSpace m = m" "glob (ToLower (TrimSpace e)) (ToLower m)"
  shows "Allows alias a m"
proof (cases "m = []")
  case False
  have "glob (ToLower (TrimSpace e)) (ToLower (ToLower m))" using assms(4) by simp
  moreover have "ToLower m \<in> set (groupModelAllowlistCandidates alias (TrimSpace m))"
    using candidates_self[OF assms(3) False] assms(3) by simp
  ultimately show ?thesis unfolding Allows_iff using assms(1,2) by blast
qed (simp add: Allows_iff)

section \<open>Normalisation\<close>

definition spellings :: "string list \<Rightarrow> string set" where
  "spellings ms = {ToLower (TrimSpace m) | m. m \<in> set ms \<and> TrimSpace m \<noteq> []}"

lemma spellings_snoc:
  "spellings (ms @ [m]) = spellings ms \<union> (if TrimSpace m = [] then {} else {ToLower (TrimSpace m)})"
  by (auto simp: spellings_def)

definition normalized :: "string list \<Rightarrow> string list \<times> string list \<Rightarrow> bool" where
  "normalized ms s \<longleftrightarrow>
     set (fst s) = ToLower ` set (snd s) \<and> set (fst s) = spellings ms \<and>
     distinct (map ToLower (snd s)) \<and> (\<forall>m \<in> set (snd s). TrimSpace m = m \<and> m \<noteq> [])"

lemma normalize_step_normalized:
  assumes "normalized ms s"
  shows "normalized (ms @ [m]) (normalize_step s m)"
proof -
  obtain seen out where s: "s = (seen, out)" by (cases s)
  let ?m = "TrimSpace m"
  have n: "set seen = ToLower ` set out" "set seen = spellings ms"
    "distinct (map ToLower out)" "\<forall>x \<in> set out. TrimSpace x = x \<and> x \<noteq> []"
    using assms unfolding normalized_def s fst_conv snd_conv by argo+
  consider "?m = []" | "?m \<noteq> []" "ToLower ?m \<in> set seen" | "?m \<noteq> []" "ToLower ?m \<notin> set seen" by blast
  then show ?thesis
  proof cases
    case 3
    have "set (ToLower ?m # seen) = ToLower ` set (out @ [?m])" using n(1) by simp
    moreover have "distinct (map ToLower (out @ [?m]))" using n(1,3) 3(2) by simp
    ultimately show ?thesis using 3 n(2,4) unfolding normalized_def by (simp add: normalize_step_def s spellings_snoc Let_def)
  qed (use n in \<open>simp_all add: normalized_def normalize_step_def s spellings_snoc insert_absorb Let_def\<close>)
qed

lemma normalize_steps: "normalized ms (foldl normalize_step ([], []) ms)"
proof (induction ms rule: rev_induct)
  case (snoc m ms)
  then show ?case using normalize_step_normalized by simp
qed (simp add: normalized_def spellings_def)

lemma normalized_spellings:
  assumes "normalizeGroupModelAllowlist cfg = Inr out"
  shows "ToLower ` set (Models out) = spellings (Models cfg)"
    "AllowlistEnabled out = AllowlistEnabled cfg" "distinct (map ToLower (Models out))"
    "m \<in> set (Models out) \<Longrightarrow> TrimSpace m = m \<and> m \<noteq> []" "AllowlistEnabled out \<Longrightarrow> Models out \<noteq> []"
proof -
  obtain seen models where f: "foldl normalize_step ([], []) (Models cfg) = (seen, models)" by (metis prod.collapse)
  have n: "ToLower ` set models = spellings (Models cfg)"
    "distinct (map ToLower models)" "\<forall>m \<in> set models. TrimSpace m = m \<and> m \<noteq> []"
    using normalize_steps[of "Models cfg"] unfolding f normalized_def fst_conv snd_conv by argo+
  have out: "Models out = models" "AllowlistEnabled out = AllowlistEnabled cfg" "AllowlistEnabled cfg \<Longrightarrow> models \<noteq> []"
    using assms f by (auto simp: normalizeGroupModelAllowlist_def Let_def split: if_splits)
  show "ToLower ` set (Models out) = spellings (Models cfg)"
    unfolding out(1) by (rule n(1))
  show "distinct (map ToLower (Models out))" "AllowlistEnabled out = AllowlistEnabled cfg"
    "AllowlistEnabled out \<Longrightarrow> Models out \<noteq> []" using n(2) out by simp_all
  show "m \<in> set (Models out) \<Longrightarrow> TrimSpace m = m \<and> m \<noteq> []" using n(3) out(1) by simp
qed

lemma normalisation_keeps_admission:
  assumes "normalizeGroupModelAllowlist cfg = Inr out"
  shows "Allows alias out m \<longleftrightarrow> Allows alias cfg m"
proof -
  note n = normalized_spellings[OF assms]
  have entries: "(\<exists>e \<in> set (Models out). TrimSpace e \<noteq> [] \<and> Q (ToLower (TrimSpace e))) \<longleftrightarrow>
      (\<exists>e \<in> set (Models cfg). TrimSpace e \<noteq> [] \<and> Q (ToLower (TrimSpace e)))" for Q
  proof -
    have "(\<exists>e \<in> set (Models out). TrimSpace e \<noteq> [] \<and> Q (ToLower (TrimSpace e))) \<longleftrightarrow> (\<exists>x \<in> ToLower ` set (Models out). Q x)"
      using n(4) by (metis (no_types, lifting) imageE imageI)
    then show ?thesis unfolding n(1) spellings_def by blast
  qed
  show ?thesis unfolding Allows_iff n(2) using entries[of "\<lambda>x. \<exists>c \<in> set (groupModelAllowlistCandidates alias (TrimSpace m)). glob x (ToLower c)"] by blast
qed

section \<open>What is listed\<close>

lemma add_listed_set: "set (snd (add_listed s m)) \<subseteq> insert m (set (snd s))"
  by (cases s) (simp add: add_listed_def subset_insertI)

lemma list_pattern_set:
  "m \<in> set (snd (list_pattern entry s p)) \<Longrightarrow>
   m \<in> set (snd s) \<or> m = entry \<or> m = p \<and> groupAllowlistPatternMatches entry p"
  using add_listed_set[of s p] add_listed_set[of s entry] by (auto simp: list_pattern_def split: if_splits)

lemma list_patterns_set:
  "m \<in> set (snd (foldl (list_pattern entry) s ps)) \<Longrightarrow>
   m \<in> set (snd s) \<or> m = entry \<or> m \<in> set ps \<and> groupAllowlistPatternMatches entry m"
proof (induction ps arbitrary: s)
  case (Cons p ps)
  have "m \<in> set (snd (list_pattern entry s p)) \<or> m = entry \<or> m \<in> set ps \<and> groupAllowlistPatternMatches entry m"
    using Cons.IH[of "list_pattern entry s p"] Cons.prems by simp
  then show ?case using list_pattern_set[of m entry s p] by auto
qed simp

lemma list_entry_set:
  assumes "m \<in> set (snd (list_entry ps s e))"
  shows "m \<in> set (snd s) \<or> TrimSpace e \<noteq> [] \<and> (m = TrimSpace e \<or> m \<in> set ps \<and> groupAllowlistPatternMatches (TrimSpace e) m)"
proof -
  consider "list_entry ps s e = s" | "TrimSpace e \<noteq> []" "list_entry ps s e = foldl (list_pattern (TrimSpace e)) s ps"
    | "TrimSpace e \<noteq> []" "list_entry ps s e = add_listed s (TrimSpace e)"
    by (cases "TrimSpace e = []"; cases "Contains (TrimSpace e) ''*''"; cases "allowlistSourcePatternAllowsModel ps (TrimSpace e)")
      (simp_all add: list_entry_def Let_def)
  then show ?thesis
  proof cases
    case 2
    then show ?thesis using list_patterns_set[of m "TrimSpace e" s ps] assms by simp
  next
    case 3
    then show ?thesis using add_listed_set[of s "TrimSpace e"] assms by auto
  qed (use assms in simp)
qed

lemma list_entries_set:
  "m \<in> set (snd (foldl (list_entry ps) s es)) \<Longrightarrow>
   m \<in> set (snd s) \<or> (\<exists>e \<in> set es. TrimSpace e \<noteq> [] \<and>
     (m = TrimSpace e \<or> m \<in> set ps \<and> groupAllowlistPatternMatches (TrimSpace e) m))"
proof (induction es arbitrary: s)
  case (Cons e es)
  have "m \<in> set (snd (list_entry ps s e)) \<or> (\<exists>e \<in> set es. TrimSpace e \<noteq> [] \<and>
     (m = TrimSpace e \<or> m \<in> set ps \<and> groupAllowlistPatternMatches (TrimSpace e) m))"
    using Cons.IH[of "list_entry ps s e"] Cons.prems by simp
  then show ?case using list_entry_set[of m ps s e] by auto
qed simp

text \<open>C29. A pattern of the allowlist matches a model, up to case, exactly when the model can be obtained from
  the pattern by putting some string for each star: cutting the inner parts off at their leftmost
  occurrence loses no match.\<close>

theorem pattern_matching_is_glob:
  "groupAllowlistPatternMatches pattern model \<longleftrightarrow> glob (ToLower pattern) (ToLower model)"
  by (rule matches_glob)

text \<open>C30. Every model that the listing of a group shows is admitted when a client asks for it, whatever the
  sources of the listing and the spelling rules of the platform are.\<close>

theorem listed_models_are_admitted:
  assumes "m \<in> set (FilterForListing a source)"
  shows "Allows alias a m"
proof (cases "AllowlistEnabled a")
  case True
  let ?ps = "filter (\<lambda>p. p \<noteq> []) (map TrimSpace source)"
  have "m \<in> set (snd (foldl (list_entry ?ps) ([], []) (Models a)))"
    using assms True by (simp add: FilterForListing_def Let_def split: if_splits)
  then obtain e where e: "e \<in> set (Models a)" "TrimSpace e \<noteq> []"
      "m = TrimSpace e \<or> m \<in> set ?ps \<and> groupAllowlistPatternMatches (TrimSpace e) m"
    using list_entries_set[of m ?ps "([], [])" "Models a"] by auto
  have "TrimSpace m = m" using e(3) by auto
  moreover have "glob (ToLower (TrimSpace e)) (ToLower m)" using e(3) matches_glob glob_self by blast
  ultimately show ?thesis by (rule Allows_match[OF e(1,2)])
qed (simp add: Allows_iff)

theorem listed_models_are_admitted_witness:
  "Allows (\<lambda>m. m) \<lparr>AllowlistEnabled = True, Models = ['' Claude-*-4-5'', ''gpt-5'']\<rparr> ''claude-opus-4-5''"
  by (rule listed_models_are_admitted[of _ _ "[''gpt-4'', ''claude-opus-4-5 '']"]) code_simp

text \<open>The converse fails: a model of the sources can be admitted and not be shown, here because the entry is
  the dated name of the model.\<close>

lemma admitted_model_not_listed:
  "Allows (\<lambda>m. m) \<lparr>AllowlistEnabled = True, Models = [''claude-opus-4-5-20251101'']\<rparr> ''claude-opus-4-5'' \<and>
   FilterForListing \<lparr>AllowlistEnabled = True, Models = [''claude-opus-4-5-20251101'']\<rparr> [''claude-opus-4-5''] = []"
  by code_simp

end
