(* ===== verification/ProxyCircuit.thy ===== *)
theory ProxyCircuit
  imports Platforms "HOL-Library.AList" "HOL-Library.Multiset"
begin

text \<open>
  The circuit that quarantines a proxy after repeated stream disconnects,
  \<open>service/openai_proxy_stream_circuit.go\<close>. The mutex makes every operation one step. The zero
  \<open>time.Time\<close> is \<open>None\<close>. The map of entries is an association list with distinct keys, in the order in which
  an iteration visits it; the step \<open>reorder\<close> lets that order change at any time, as in Go.
\<close>

section \<open>Instants that may be zero\<close>

fun time_before :: "gotime option \<Rightarrow> gotime option \<Rightarrow> bool" where
  "time_before (Some t) (Some u) = (t < u)"
| "time_before None (Some u) = True"
| "time_before _ None = False"

text \<open>\<open>now.Sub(u)\<close>; the zero time lies further back than a duration can tell.\<close>

definition since :: "gotime \<Rightarrow> gotime option \<Rightarrow> duration" where
  "since now u = (case u of None \<Rightarrow> max_duration | Some t \<Rightarrow> time_sub now t)"

section \<open>Settings and entries\<close>

definition defaultOpenAIProxyStreamFailureThreshold :: int where "defaultOpenAIProxyStreamFailureThreshold = 2"
definition defaultOpenAIProxyStreamFailureWindow :: duration where "defaultOpenAIProxyStreamFailureWindow = Minute"
definition defaultOpenAIProxyStreamQuarantineTTL :: duration where "defaultOpenAIProxyStreamQuarantineTTL = 10 * Minute"
definition defaultOpenAIProxyStreamCircuitMaxEntries :: int where "defaultOpenAIProxyStreamCircuitMaxEntries = 4096"
definition defaultOpenAIProxyStreamFailureCollapse :: duration where "defaultOpenAIProxyStreamFailureCollapse = 3 * Second"
definition openAIProxyStreamFailOpenLogInterval :: duration where "openAIProxyStreamFailOpenLogInterval = 5 * Second"

lemmas circuit_defaults = defaultOpenAIProxyStreamFailureThreshold_def defaultOpenAIProxyStreamFailureWindow_def
  defaultOpenAIProxyStreamQuarantineTTL_def defaultOpenAIProxyStreamCircuitMaxEntries_def
  defaultOpenAIProxyStreamFailureCollapse_def openAIProxyStreamFailOpenLogInterval_def

record openAIProxyStreamCircuitSettings =
  disabled :: bool
  failureThreshold :: int
  failureWindow :: duration
  quarantineTTL :: duration
  collapseInterval :: duration
  maxEntries :: int

record GatewayOpenAIProxyStreamCircuitConfig =
  CfgDisabled :: bool
  CfgFailureThreshold :: int
  CfgWindowSeconds :: int
  CfgTTLSeconds :: int

record openAIProxyStreamCircuitEntry =
  failureCount :: int
  windowStart :: "gotime option"
  lastFailureAt :: "gotime option"
  blockedUntil :: "gotime option"
  lastTouched :: "gotime option"

definition empty_entry :: openAIProxyStreamCircuitEntry where
  "empty_entry = \<lparr>failureCount = 0, windowStart = None, lastFailureAt = None, blockedUntil = None, lastTouched = None\<rparr>"

type_synonym entries = "(int \<times> openAIProxyStreamCircuitEntry) list"

record openAIProxyStreamCircuit =
  circuit_settings :: openAIProxyStreamCircuitSettings
  circuit_entries :: entries

text \<open>\<open>None\<close>: there is no service or no configuration.\<close>

definition resolveOpenAIProxyStreamCircuitSettings ::
    "GatewayOpenAIProxyStreamCircuitConfig option \<Rightarrow> openAIProxyStreamCircuitSettings" where
  "resolveOpenAIProxyStreamCircuitSettings cfg =
     (let s = \<lparr>disabled = False,
               failureThreshold = defaultOpenAIProxyStreamFailureThreshold,
               failureWindow = defaultOpenAIProxyStreamFailureWindow,
               quarantineTTL = defaultOpenAIProxyStreamQuarantineTTL,
               collapseInterval = defaultOpenAIProxyStreamFailureCollapse,
               maxEntries = defaultOpenAIProxyStreamCircuitMaxEntries\<rparr>
      in case cfg of None \<Rightarrow> s
         | Some cfg \<Rightarrow>
             let s = s\<lparr>disabled := CfgDisabled cfg\<rparr>;
                 s = (if CfgFailureThreshold cfg > 0 then s\<lparr>failureThreshold := CfgFailureThreshold cfg\<rparr> else s);
                 s = (if CfgWindowSeconds cfg > 0 then s\<lparr>failureWindow := wrap64 (CfgWindowSeconds cfg * Second)\<rparr> else s);
                 s = (if CfgTTLSeconds cfg > 0 then s\<lparr>quarantineTTL := wrap64 (CfgTTLSeconds cfg * Second)\<rparr> else s)
             in s)"

definition newOpenAIProxyStreamCircuit :: "openAIProxyStreamCircuitSettings \<Rightarrow> openAIProxyStreamCircuit" where
  "newOpenAIProxyStreamCircuit s =
     (let s = (if failureThreshold s \<le> 0 then s\<lparr>failureThreshold := defaultOpenAIProxyStreamFailureThreshold\<rparr> else s);
          s = (if failureWindow s \<le> 0 then s\<lparr>failureWindow := defaultOpenAIProxyStreamFailureWindow\<rparr> else s);
          s = (if quarantineTTL s \<le> 0 then s\<lparr>quarantineTTL := defaultOpenAIProxyStreamQuarantineTTL\<rparr> else s);
          s = (if maxEntries s \<le> 0 then s\<lparr>maxEntries := defaultOpenAIProxyStreamCircuitMaxEntries\<rparr> else s);
          s = (if collapseInterval s < 0 then s\<lparr>collapseInterval := 0\<rparr> else s)
      in \<lparr>circuit_settings = s, circuit_entries = []\<rparr>)"

section \<open>Capacity\<close>

definition evictable :: "openAIProxyStreamCircuitSettings \<Rightarrow> gotime \<Rightarrow> openAIProxyStreamCircuitEntry \<Rightarrow> bool" where
  "evictable s now entry =
     (let staleObservation = blockedUntil entry = None \<and> since now (lastTouched entry) > failureWindow s;
          expiredQuarantine = blockedUntil entry \<noteq> None \<and> \<not> time_before (Some now) (blockedUntil entry)
      in staleObservation \<or> expiredQuarantine)"

definition oldest_step :: "int \<times> gotime option \<Rightarrow> int \<times> openAIProxyStreamCircuitEntry \<Rightarrow> int \<times> gotime option" where
  "oldest_step best pe =
     (case best of (oldestProxyID, oldest) \<Rightarrow> case pe of (proxyID, entry) \<Rightarrow>
        if oldestProxyID = 0 \<or> time_before (lastTouched entry) oldest then (proxyID, lastTouched entry)
        else (oldestProxyID, oldest))"

definition ensureCapacityLocked :: "openAIProxyStreamCircuitSettings \<Rightarrow> entries \<Rightarrow> gotime \<Rightarrow> entries" where
  "ensureCapacityLocked s es now =
     (if int (length es) < maxEntries s then es
      else let es = filter (\<lambda>(proxyID, entry). \<not> evictable s now entry) es
           in if int (length es) < maxEntries s then es
              else let oldestProxyID = fst (foldl oldest_step (0, None) es)
                   in if oldestProxyID > 0 then AList.delete oldestProxyID es else es)"

section \<open>Operations\<close>

definition restart_window :: "openAIProxyStreamCircuitSettings \<Rightarrow> gotime \<Rightarrow> openAIProxyStreamCircuitEntry \<Rightarrow> openAIProxyStreamCircuitEntry" where
  "restart_window s now entry =
     (if windowStart entry = None \<or> time_before (Some now) (windowStart entry) \<or> since now (windowStart entry) > failureWindow s
      then entry\<lparr>failureCount := 0, windowStart := Some now, blockedUntil := None\<rparr>
      else entry)"

definition collapses :: "openAIProxyStreamCircuitSettings \<Rightarrow> gotime \<Rightarrow> openAIProxyStreamCircuitEntry \<Rightarrow> bool" where
  "collapses s now entry \<longleftrightarrow>
     collapseInterval s > 0 \<and> lastFailureAt entry \<noteq> None \<and>
     since now (lastFailureAt entry) \<ge> 0 \<and> since now (lastFailureAt entry) < collapseInterval s"

definition count_failure ::
    "openAIProxyStreamCircuitSettings \<Rightarrow> gotime \<Rightarrow> openAIProxyStreamCircuitEntry \<Rightarrow> openAIProxyStreamCircuitEntry \<times> bool" where
  "count_failure s now entry =
     (let entry = entry\<lparr>failureCount := failureCount entry + 1, lastFailureAt := Some now, lastTouched := Some now\<rparr>;
          tripped = failureCount entry \<ge> failureThreshold s;
          entry = (if tripped then entry\<lparr>blockedUntil := Some (now + quarantineTTL s)\<rparr> else entry)
      in (entry, tripped))"

definition recordFailure :: "openAIProxyStreamCircuit \<Rightarrow> int \<Rightarrow> gotime \<Rightarrow> openAIProxyStreamCircuit \<times> bool \<times> gotime option" where
  "recordFailure c proxyID now =
     (let s = circuit_settings c; es = circuit_entries c
      in if disabled s \<or> proxyID \<le> 0 then (c, False, None)
         else let found = map_of es proxyID; entry = (case found of None \<Rightarrow> empty_entry | Some e \<Rightarrow> e)
         in if found \<noteq> None \<and> time_before (Some now) (blockedUntil entry)
            then (c\<lparr>circuit_entries := AList.update proxyID (entry\<lparr>lastTouched := Some now\<rparr>) es\<rparr>, False, blockedUntil entry)
            else let es = (if found = None then ensureCapacityLocked s es now else es);
                     entry = restart_window s now entry
                 in if collapses s now entry
                    then (c\<lparr>circuit_entries := AList.update proxyID (entry\<lparr>lastTouched := Some now\<rparr>) es\<rparr>, False, None)
                    else (case count_failure s now entry of (entry, tripped) \<Rightarrow>
                            (c\<lparr>circuit_entries := AList.update proxyID entry es\<rparr>, tripped, blockedUntil entry)))"

definition recordSuccess :: "openAIProxyStreamCircuit \<Rightarrow> int \<Rightarrow> openAIProxyStreamCircuit \<times> bool" where
  "recordSuccess c proxyID =
     (if proxyID \<le> 0 then (c, False)
      else case map_of (circuit_entries c) proxyID of
             None \<Rightarrow> (c, False)
           | Some _ \<Rightarrow> (c\<lparr>circuit_entries := AList.delete proxyID (circuit_entries c)\<rparr>, True))"

definition isBlocked :: "openAIProxyStreamCircuit \<Rightarrow> int \<Rightarrow> gotime \<Rightarrow> openAIProxyStreamCircuit \<times> bool" where
  "isBlocked c proxyID now =
     (if disabled (circuit_settings c) \<or> proxyID \<le> 0 then (c, False)
      else case map_of (circuit_entries c) proxyID of
             None \<Rightarrow> (c, False)
           | Some entry \<Rightarrow>
               if blockedUntil entry = None then (c, False)
               else if \<not> time_before (Some now) (blockedUntil entry)
                    then (c\<lparr>circuit_entries := AList.delete proxyID (circuit_entries c)\<rparr>, False)
                    else (c, True))"

definition activeBlockCount :: "openAIProxyStreamCircuit \<Rightarrow> gotime \<Rightarrow> nat" where
  "activeBlockCount c now =
     (if disabled (circuit_settings c) then 0
      else length (filter (\<lambda>(proxyID, entry). blockedUntil entry \<noteq> None \<and> time_before (Some now) (blockedUntil entry))
             (circuit_entries c)))"

section \<open>The circuit over time\<close>

datatype circuit_op = Failure int gotime | Success int | Check int gotime

fun circuit_step :: "openAIProxyStreamCircuit \<Rightarrow> circuit_op \<Rightarrow> openAIProxyStreamCircuit" where
  "circuit_step c (Failure p t) = fst (recordFailure c p t)"
| "circuit_step c (Success p) = fst (recordSuccess c p)"
| "circuit_step c (Check p t) = fst (isBlocked c p t)"

fun op_time :: "circuit_op \<Rightarrow> gotime option" where
  "op_time (Failure p t) = Some t"
| "op_time (Success p) = None"
| "op_time (Check p t) = Some t"

text \<open>The circuits that arise from the operations \<open>h\<close>, in any order of time.\<close>

inductive circuit_reach :: "openAIProxyStreamCircuitSettings \<Rightarrow> circuit_op list \<Rightarrow> openAIProxyStreamCircuit \<Rightarrow> bool"
  for s where
  start: "circuit_reach s [] (newOpenAIProxyStreamCircuit s)"
| step: "circuit_reach s h c \<Longrightarrow> circuit_reach s (h @ [op]) (circuit_step c op)"
| reorder: "circuit_reach s h c \<Longrightarrow> mset es = mset (circuit_entries c) \<Longrightarrow> circuit_reach s h (c\<lparr>circuit_entries := es\<rparr>)"

section \<open>Association lists\<close>

lemma keys_update: "fst ` set (AList.update k v al) = insert k (fst ` set al)"
  by (induction al) auto

lemma length_update: "length (AList.update k v al) = (if k \<in> fst ` set al then length al else Suc (length al))"
  by (induction al) auto

lemma keys_delete: "fst ` set (AList.delete k al) = fst ` set al - {k}"
  by (auto simp: AList.delete_eq)

lemma length_delete_less: "k \<in> fst ` set al \<Longrightarrow> length (AList.delete k al) < length al"
  by (auto simp: AList.delete_eq intro!: length_filter_less)

lemma found_key: "map_of al k = Some v \<Longrightarrow> k \<in> fst ` set al"
  by (force dest: map_of_SomeD)

lemma missing_key: "map_of al k = None \<longleftrightarrow> k \<notin> fst ` set al"
  by (rule map_of_eq_None_iff)

section \<open>The circuit stays bounded\<close>

lemma settings_kept [simp]:
  "circuit_settings (fst (recordFailure c p t)) = circuit_settings c"
  "circuit_settings (fst (recordSuccess c p)) = circuit_settings c"
  "circuit_settings (fst (isBlocked c p t)) = circuit_settings c"
  "circuit_settings (circuit_step c op) = circuit_settings c"
proof -
  show 1: "circuit_settings (fst (recordFailure c p t)) = circuit_settings c" for p t
    by (simp add: recordFailure_def Let_def split: prod.split)
  show 2: "circuit_settings (fst (recordSuccess c p)) = circuit_settings c" for p
    by (simp add: recordSuccess_def split: option.split)
  show 3: "circuit_settings (fst (isBlocked c p t)) = circuit_settings c" for p t
    by (simp add: isBlocked_def split: option.split)
  show "circuit_settings (circuit_step c op) = circuit_settings c"
    by (cases op) (simp_all add: 1 2 3)
qed

lemma new_circuit_settings:
  "maxEntries (circuit_settings (newOpenAIProxyStreamCircuit s)) > 0"
  "failureThreshold (circuit_settings (newOpenAIProxyStreamCircuit s)) > 0"
  "collapseInterval (circuit_settings (newOpenAIProxyStreamCircuit s)) \<ge> 0"
  "failureWindow (circuit_settings (newOpenAIProxyStreamCircuit s)) > 0"
  by (simp_all add: newOpenAIProxyStreamCircuit_def Let_def circuit_defaults go_def)

lemma reach_settings: "circuit_reach s h c \<Longrightarrow> circuit_settings c = circuit_settings (newOpenAIProxyStreamCircuit s)"
  by (induction rule: circuit_reach.induct) simp_all

lemma oldest_member:
  assumes "\<forall>pe \<in> set es. fst pe > 0"
  shows "fst (foldl oldest_step best es) \<in> insert (fst best) (fst ` set es) \<and>
    (es \<noteq> [] \<or> fst best > 0 \<longrightarrow> fst (foldl oldest_step best es) > 0 \<or> fst best < 0)"
  using assms
proof (induction es arbitrary: best)
  case (Cons pe es)
  have step: "fst (oldest_step best pe) = fst best \<and> fst best \<noteq> 0 \<or> fst (oldest_step best pe) = fst pe"
    by (cases best; cases pe) (simp add: oldest_step_def)
  show ?case using Cons.IH[of "oldest_step best pe"] Cons.prems step by force
qed simp

definition keyed :: "openAIProxyStreamCircuitSettings \<Rightarrow> entries \<Rightarrow> bool" where
  "keyed s es \<longleftrightarrow> distinct (map fst es) \<and> (\<forall>p \<in> fst ` set es. p > 0) \<and> int (length es) \<le> maxEntries s"

lemma keyed_filter: "keyed s es \<Longrightarrow> keyed s (filter P es)"
proof -
  assume k: "keyed s es"
  have "int (length (filter P es)) \<le> int (length es)" by simp
  moreover have "int (length es) \<le> maxEntries s" using k by (simp add: keyed_def)
  ultimately have "int (length (filter P es)) \<le> maxEntries s" by (rule order.trans)
  then show "keyed s (filter P es)" using k unfolding keyed_def by (auto simp: distinct_map_filter)
qed

lemma keyed_delete: "keyed s es \<Longrightarrow> keyed s (AList.delete k es)"
  unfolding AList.delete_eq by (rule keyed_filter)

lemma ensureCapacity_sublist: "set (ensureCapacityLocked s es now) \<subseteq> set es"
  by (auto simp: ensureCapacityLocked_def Let_def AList.delete_eq)

lemma ensureCapacity_room:
  assumes k: "keyed s es" and max: "maxEntries s > 0"
  shows "keyed s (ensureCapacityLocked s es now) \<and> int (length (ensureCapacityLocked s es now)) < maxEntries s"
proof (cases "int (length es) < maxEntries s")
  case False
  define es' where "es' = filter (\<lambda>(p, entry). \<not> evictable s now entry) es"
  have k': "keyed s es'" unfolding es'_def by (rule keyed_filter[OF k])
  show ?thesis
  proof (cases "int (length es') < maxEntries s")
    case True
    then show ?thesis using False k' by (simp add: ensureCapacityLocked_def es'_def)
  next
    case full: False
    define p where "p = fst (foldl oldest_step (0, None) es')"
    have "es' \<noteq> []" using full max by auto
    then have p: "p \<in> fst ` set es'" "p > 0"
      using oldest_member[of es' "(0, None)"] k' by (auto simp: p_def keyed_def)
    have "ensureCapacityLocked s es now = AList.delete p es'"
      using False full p(2) by (simp add: ensureCapacityLocked_def Let_def p_def flip: es'_def)
    moreover have "int (length (AList.delete p es')) < maxEntries s"
      using length_delete_less[OF p(1)] k' by (simp add: keyed_def)
    ultimately show ?thesis using keyed_delete[OF k'] by simp
  qed
qed (use k in \<open>simp add: ensureCapacityLocked_def\<close>)

lemma keyed_update:
  assumes "keyed s es" "p \<in> fst ` set es \<or> p > 0 \<and> int (length es) < maxEntries s"
  shows "keyed s (AList.update p e es)"
  using assms unfolding keyed_def keys_update length_update by (auto simp: AList.distinct_update)

text \<open>The entries after a failure: the table it is written into, and the entry.\<close>

definition failure_base :: "openAIProxyStreamCircuitSettings \<Rightarrow> entries \<Rightarrow> int \<Rightarrow> gotime \<Rightarrow> entries" where
  "failure_base s es p now = (if map_of es p = None then ensureCapacityLocked s es now else es)"

lemma recordFailure_update:
  assumes "\<not> disabled (circuit_settings c)" "p > 0"
  shows "\<exists>e. circuit_entries (fst (recordFailure c p now)) =
    AList.update p e (failure_base (circuit_settings c) (circuit_entries c) p now)"
  using assms by (auto simp: recordFailure_def failure_base_def Let_def split: option.split prod.split)

lemma recordFailure_off: "disabled (circuit_settings c) \<or> p \<le> 0 \<Longrightarrow> recordFailure c p now = (c, False, None)"
  by (simp add: recordFailure_def)

lemma keyed_step:
  assumes k: "keyed (circuit_settings c) (circuit_entries c)" and max: "maxEntries (circuit_settings c) > 0"
  shows "keyed (circuit_settings c) (circuit_entries (circuit_step c op))"
proof (cases op)
  case (Failure p t)
  let ?s = "circuit_settings c" let ?es = "circuit_entries c"
  show ?thesis
  proof (cases "disabled ?s \<or> p \<le> 0")
    case True
    then show ?thesis using Failure k recordFailure_off by simp
  next
    case False
    then obtain e where e: "circuit_entries (fst (recordFailure c p t)) = AList.update p e (failure_base ?s ?es p t)"
      using recordFailure_update[of c p t] by auto
    have "keyed ?s (AList.update p e (failure_base ?s ?es p t))"
    proof (cases "map_of ?es p")
      case None
      then show ?thesis using ensureCapacity_room[OF k max, of t] False by (simp add: failure_base_def keyed_update)
    next
      case (Some e')
      then show ?thesis using keyed_update[OF k] found_key[OF Some] by (simp add: failure_base_def)
    qed
    then show ?thesis using Failure e by simp
  qed
next
  case (Success p)
  then show ?thesis using k keyed_delete[OF k] by (simp add: recordSuccess_def split: option.split)
next
  case (Check p t)
  then show ?thesis using k keyed_delete[OF k] by (simp add: isBlocked_def split: option.split)
qed

lemma keyed_reorder: "mset es' = mset es \<Longrightarrow> keyed s es \<Longrightarrow> keyed s es'"
  unfolding keyed_def by (metis mset_eq_setD mset_eq_imp_distinct_iff mset_map size_mset)

lemma reach_keyed:
  assumes "circuit_reach s h c"
  shows "keyed (circuit_settings c) (circuit_entries c)"
  using assms
proof (induction rule: circuit_reach.induct)
  case start
  then show ?case using new_circuit_settings(1)[of s] by (simp add: keyed_def newOpenAIProxyStreamCircuit_def Let_def)
next
  case (step h c op)
  have "keyed (circuit_settings c) (circuit_entries (circuit_step c op))"
    by (rule keyed_step[OF step.IH]) (simp add: reach_settings[OF step.hyps(1)] new_circuit_settings)
  then show ?case by simp
next
  case (reorder h c es)
  then show ?case using keyed_reorder by simp
qed

text \<open>C33. However many proxies fail, in whatever order, the circuit never holds more entries than its maximum:
  when the entry of a new proxy finds it full, outdated entries make room or the one touched longest ago.\<close>

theorem circuit_stays_bounded:
  assumes "circuit_reach s h c"
  shows "int (length (circuit_entries c)) \<le> maxEntries (circuit_settings (newOpenAIProxyStreamCircuit s))"
  using reach_keyed[OF assms] reach_settings[OF assms] by (simp add: keyed_def)

section \<open>What trips the circuit\<close>

definition op_times :: "circuit_op list \<Rightarrow> gotime list" where
  "op_times h = List.map_filter op_time h"

lemma op_times_simps [simp]:
  "op_times [] = []" "op_times (h @ h') = op_times h @ op_times h'"
  "op_times [Failure p t] = [t]" "op_times [Success p] = []" "op_times [Check p t] = [t]"
  by (simp_all add: op_times_def List.map_filter_def)

text \<open>The clock does not run backwards between the operations, and stays within 64-bit nanoseconds.\<close>

definition steady_clock :: "circuit_op list \<Rightarrow> bool" where
  "steady_clock h \<longleftrightarrow> sorted (op_times h) \<and> (\<forall>t \<in> set (op_times h). 0 \<le> t \<and> t \<le> max_duration)"

lemma steady_prefix: "steady_clock (h @ h') \<Longrightarrow> steady_clock h"
  by (simp add: steady_clock_def sorted_append)

lemma steady_since:
  assumes "steady_clock (h @ [op])" "op_time op = Some now" "t \<in> set (op_times h)"
  shows "since now (Some t) = now - t" "t \<le> now"
proof -
  have "op_times [op] = [now]" using assms(2) by (cases op) auto
  then have "t \<le> now" "0 \<le> t" "now \<le> max_duration" using assms(1,3) by (auto simp: steady_clock_def sorted_append)
  then show "since now (Some t) = now - t" "t \<le> now"
    by (simp_all add: since_def time_sub_def min_def max_def) (simp_all add: min_duration_def)
qed

lemma failure_time: "Failure p t \<in> set h \<Longrightarrow> t \<in> set (op_times h)"
  by (force simp: op_times_def List.map_filter_def image_iff)

definition spaced :: "duration \<Rightarrow> gotime list \<Rightarrow> bool" where
  "spaced d ts \<longleftrightarrow> sorted_wrt (\<lambda>t u. t + d \<le> u) ts"

text \<open>The failures that an entry counts.\<close>

definition counted :: "openAIProxyStreamCircuitSettings \<Rightarrow> circuit_op list \<Rightarrow> int \<Rightarrow> openAIProxyStreamCircuitEntry \<Rightarrow> gotime list \<Rightarrow> bool" where
  "counted s h p e ts \<longleftrightarrow>
     int (length ts) = failureCount e \<and> spaced (collapseInterval s) ts \<and> (\<forall>t \<in> set ts. Failure p t \<in> set h) \<and>
     (ts \<noteq> [] \<longrightarrow> (\<exists>w l. windowStart e = Some w \<and> lastFailureAt e = Some l \<and>
        (\<forall>t \<in> set ts. w \<le> t \<and> t - w \<le> failureWindow s \<and> t \<le> l)))"

definition entry_ok :: "openAIProxyStreamCircuitSettings \<Rightarrow> circuit_op list \<Rightarrow> int \<Rightarrow> openAIProxyStreamCircuitEntry \<Rightarrow> bool" where
  "entry_ok s h p e \<longleftrightarrow> (\<exists>ts. counted s h p e ts) \<and>
     (\<forall>w. windowStart e = Some w \<longrightarrow> w \<in> set (op_times h)) \<and> (\<forall>l. lastFailureAt e = Some l \<longrightarrow> l \<in> set (op_times h))"

lemma entry_ok_more: "entry_ok s h p e \<Longrightarrow> entry_ok s (h @ [op]) p e"
  unfolding entry_ok_def counted_def by fastforce

lemma empty_entry_ok: "entry_ok s h p empty_entry"
  by (auto simp: entry_ok_def counted_def empty_entry_def spaced_def intro!: exI[of _ "[]"])

lemma entry_ok_touched: "entry_ok s h p e \<Longrightarrow> entry_ok s h p (e\<lparr>lastTouched := t\<rparr>)"
  by (simp add: entry_ok_def counted_def)

lemma restart_ok:
  assumes "entry_ok s h p e" "now \<in> set (op_times h)"
  shows "entry_ok s h p (restart_window s now e)"
  using assms by (auto simp: entry_ok_def counted_def restart_window_def spaced_def intro!: exI[of _ "[]"])

text \<open>After the window was restarted if necessary, the next failure that does not collapse is counted.\<close>

lemma count_ok:
  assumes ok: "entry_ok s h p e" and steady: "steady_clock (h @ [Failure p now])" and col: "collapseInterval s \<ge> 0" and win: "failureWindow s > 0"
    and nc: "\<not> collapses s now (restart_window s now e)" and c: "count_failure s now (restart_window s now e) = (e', tripped)"
  shows "\<exists>ts. counted s (h @ [Failure p now]) p e' ts \<and> last ts = now \<and> ts \<noteq> [] \<and> windowStart e' \<noteq> None \<and>
    lastFailureAt e' = Some now"
proof -
  let ?h = "h @ [Failure p now]" let ?e = "restart_window s now e"
  have e': "failureCount e' = failureCount ?e + 1" "windowStart e' = windowStart ?e" "lastFailureAt e' = Some now"
    using c by (auto simp: count_failure_def Let_def)
  have now: "0 \<le> now" "now \<le> max_duration" using steady by (auto simp: steady_clock_def)
  have mem: "windowStart e = Some w \<Longrightarrow> w \<in> set (op_times h)" "lastFailureAt e = Some l \<Longrightarrow> l \<in> set (op_times h)" for w l
    using ok by (auto simp: entry_ok_def)
  note since = steady_since[OF steady op_time.simps(1)]
  show ?thesis
  proof (cases "windowStart e = None \<or> time_before (Some now) (windowStart e) \<or> since now (windowStart e) > failureWindow s")
    case True
    then have r: "failureCount ?e = 0" "windowStart ?e = Some now" by (simp_all add: restart_window_def)
    have "counted s ?h p e' [now]" using e' r win by (simp add: counted_def spaced_def)
    then show ?thesis using e' r by auto
  next
    case False
    then obtain w where w: "windowStart e = Some w" "\<not> since now (Some w) > failureWindow s" by auto
    with False have True: "?e = e" by (simp add: restart_window_def)
    then have wn: "w \<le> now" "now - w \<le> failureWindow s" using since[OF mem(1)[OF w(1)]] w(2) by auto
    obtain ts where ts: "counted s h p e ts" using ok by (auto simp: entry_ok_def)
    have gap: "t + collapseInterval s \<le> now" if t: "t \<in> set ts" for t
    proof -
      have "ts \<noteq> []" using t by auto
      then have "\<exists>w l. windowStart e = Some w \<and> lastFailureAt e = Some l \<and>
          (\<forall>t \<in> set ts. w \<le> t \<and> t - w \<le> failureWindow s \<and> t \<le> l)" using ts by (simp add: counted_def)
      then obtain l where l: "lastFailureAt e = Some l" "t \<le> l" using t by auto
      have "l + collapseInterval s \<le> now" using nc l(1) since[OF mem(2)[OF l(1)]] col by (auto simp: collapses_def True)
      then show ?thesis using l(2) by simp
    qed
    have le: "t \<le> now" if "t \<in> set ts" for t using gap[OF that] col by linarith
    have "counted s ?h p e' (ts @ [now])"
      using ts e' wn w(1) gap le unfolding counted_def True spaced_def by (auto simp: sorted_wrt_append)
    then show ?thesis using e' w(1) True by auto
  qed
qed

lemma map_of_sublist:
  "distinct (map fst es) \<Longrightarrow> set es' \<subseteq> set es \<Longrightarrow> map_of es' q = Some e \<Longrightarrow> map_of es q = Some e"
  by (metis map_of_SomeD map_of_eq_Some_iff subsetD)

lemma failure_base_found:
  "keyed s es \<Longrightarrow> map_of (failure_base s es p now) q = Some e \<Longrightarrow> map_of es q = Some e"
  using map_of_sublist[OF _ ensureCapacity_sublist] by (auto simp: failure_base_def keyed_def split: if_splits)

text \<open>The four outcomes of a failure report.\<close>

lemma recordFailure_cases:
  obtains (off) "recordFailure c p now = (c, False, None)" "disabled (circuit_settings c) \<or> p \<le> 0"
  | (blocked) e where "\<not> disabled (circuit_settings c)" "p > 0" "map_of (circuit_entries c) p = Some e"
      "time_before (Some now) (blockedUntil e)"
      "recordFailure c p now = (c\<lparr>circuit_entries := AList.update p (e\<lparr>lastTouched := Some now\<rparr>) (circuit_entries c)\<rparr>, False, blockedUntil e)"
  | (collapsed) e where "\<not> disabled (circuit_settings c)" "p > 0"
      "e = (case map_of (circuit_entries c) p of None \<Rightarrow> empty_entry | Some e \<Rightarrow> e)" "\<not> time_before (Some now) (blockedUntil e)"
      "collapses (circuit_settings c) now (restart_window (circuit_settings c) now e)"
      "recordFailure c p now =
         (c\<lparr>circuit_entries := AList.update p ((restart_window (circuit_settings c) now e)\<lparr>lastTouched := Some now\<rparr>)
              (failure_base (circuit_settings c) (circuit_entries c) p now)\<rparr>, False, None)"
  | (counted) e e' tripped where "\<not> disabled (circuit_settings c)" "p > 0"
      "e = (case map_of (circuit_entries c) p of None \<Rightarrow> empty_entry | Some e \<Rightarrow> e)" "\<not> time_before (Some now) (blockedUntil e)"
      "\<not> collapses (circuit_settings c) now (restart_window (circuit_settings c) now e)"
      "count_failure (circuit_settings c) now (restart_window (circuit_settings c) now e) = (e', tripped)"
      "recordFailure c p now =
         (c\<lparr>circuit_entries := AList.update p e' (failure_base (circuit_settings c) (circuit_entries c) p now)\<rparr>, tripped, blockedUntil e')"
proof -
  let ?s = "circuit_settings c" let ?found = "map_of (circuit_entries c) p"
  let ?e = "case ?found of None \<Rightarrow> empty_entry | Some e \<Rightarrow> e"
  have empty: "\<not> time_before (Some now) (blockedUntil empty_entry)" by (simp add: empty_entry_def)
  show thesis
  proof (cases "disabled ?s \<or> p \<le> 0")
    case True
    then show thesis using off recordFailure_off by blast
  next
    case on: False
    show thesis
    proof (cases "?found \<noteq> None \<and> time_before (Some now) (blockedUntil ?e)")
      case True
      then obtain e where e: "?found = Some e" "time_before (Some now) (blockedUntil e)" by auto
      show thesis by (rule blocked[of e]) (use on e in \<open>simp_all add: recordFailure_def\<close>)
    next
      case False
      then have nb: "\<not> time_before (Some now) (blockedUntil ?e)" using empty by (cases ?found) auto
      show thesis
      proof (cases "collapses ?s now (restart_window ?s now ?e)")
        case True
        show thesis
          by (rule collapsed[of ?e]) (use on nb False True in \<open>simp_all add: recordFailure_def failure_base_def Let_def\<close>)
      next
        case nc: False
        obtain e' tripped where ct: "count_failure ?s now (restart_window ?s now ?e) = (e', tripped)" by (metis prod.collapse)
        show thesis
          by (rule counted[of ?e e' tripped]) (use on nb False nc ct in \<open>simp_all add: recordFailure_def failure_base_def Let_def\<close>)
      qed
    qed
  qed
qed

definition entries_ok :: "openAIProxyStreamCircuitSettings \<Rightarrow> circuit_op list \<Rightarrow> entries \<Rightarrow> bool" where
  "entries_ok s h es \<longleftrightarrow> (\<forall>p e. map_of es p = Some e \<longrightarrow> entry_ok s h p e)"

lemma found_ok: "entries_ok s h es \<Longrightarrow> entry_ok s h p (case map_of es p of None \<Rightarrow> empty_entry | Some e \<Rightarrow> e)"
  by (auto simp: entries_ok_def empty_entry_ok split: option.split)

lemma entries_ok_update:
  assumes "entries_ok s h es" "keyed s es" "entry_ok s (h @ [op]) p e"
  shows "entries_ok s (h @ [op]) (AList.update p e (failure_base s es p now))"
    "entries_ok s (h @ [op]) (AList.update p e es)"
  using assms failure_base_found[OF assms(2)] entry_ok_more by (auto simp: entries_ok_def AList.update_conv')

lemma entries_ok_delete: "entries_ok s h es \<Longrightarrow> entries_ok s (h @ [op]) (AList.delete p es)"
  by (auto simp: entries_ok_def AList.delete_conv' entry_ok_more split: if_splits)

lemma entries_ok_more: "entries_ok s h es \<Longrightarrow> entries_ok s (h @ [op]) es"
  by (auto simp: entries_ok_def entry_ok_more)

lemma step_entries_ok:
  assumes ok: "entries_ok (circuit_settings c) h (circuit_entries c)"
    and k: "keyed (circuit_settings c) (circuit_entries c)" and steady: "steady_clock (h @ [op])"
    and s: "collapseInterval (circuit_settings c) \<ge> 0" "failureWindow (circuit_settings c) > 0"
  shows "entries_ok (circuit_settings c) (h @ [op]) (circuit_entries (circuit_step c op))"
proof (cases op)
  case (Failure p t)
  have t: "t \<in> set (op_times (h @ [Failure p t]))" by simp
  show ?thesis
  proof (cases rule: recordFailure_cases[where c = c and p = p and now = t])
    case off
    then show ?thesis using Failure entries_ok_more[OF ok] by simp
  next
    case (blocked e)
    have "entry_ok (circuit_settings c) h p e" using ok blocked(3) by (simp add: entries_ok_def)
    then show ?thesis using Failure blocked(5) entries_ok_update(2)[OF ok k] entry_ok_touched entry_ok_more by simp
  next
    case (collapsed e)
    have "entry_ok (circuit_settings c) h p e" unfolding collapsed(3) by (rule found_ok[OF ok])
    then have "entry_ok (circuit_settings c) (h @ [op]) p ((restart_window (circuit_settings c) t e)\<lparr>lastTouched := Some t\<rparr>)"
      using Failure t by (intro entry_ok_touched restart_ok entry_ok_more) simp_all
    then show ?thesis using Failure collapsed(6) entries_ok_update(1)[OF ok k] by simp
  next
    case (counted e e' tripped)
    have "entry_ok (circuit_settings c) h p e" unfolding counted(3) by (rule found_ok[OF ok])
    then obtain ts where "counted (circuit_settings c) (h @ [op]) p e' ts" "lastFailureAt e' = Some t"
      using count_ok[OF _ _ s(1,2) counted(5,6)] steady Failure by blast
    moreover have "windowStart e' = windowStart (restart_window (circuit_settings c) t e)"
      using counted(6) by (auto simp: count_failure_def Let_def)
    moreover have "entry_ok (circuit_settings c) (h @ [op]) p (restart_window (circuit_settings c) t e)"
      using \<open>entry_ok _ h p e\<close> Failure t by (intro restart_ok entry_ok_more) simp_all
    ultimately have "entry_ok (circuit_settings c) (h @ [op]) p e'" using Failure by (auto simp: entry_ok_def)
    then show ?thesis using Failure counted(7) entries_ok_update(1)[OF ok k] by simp
  qed
next
  case (Success p)
  then show ?thesis using entries_ok_delete[OF ok] entries_ok_more[OF ok] by (simp add: recordSuccess_def split: option.split)
next
  case (Check p t)
  then show ?thesis using entries_ok_delete[OF ok] entries_ok_more[OF ok] by (simp add: isBlocked_def split: option.split)
qed

lemma reach_entries_ok:
  assumes "circuit_reach s h c" "steady_clock h"
  shows "entries_ok (circuit_settings c) h (circuit_entries c)"
  using assms
proof (induction rule: circuit_reach.induct)
  case start
  then show ?case by (simp add: entries_ok_def newOpenAIProxyStreamCircuit_def Let_def)
next
  case (step h c op)
  have "entries_ok (circuit_settings c) (h @ [op]) (circuit_entries (circuit_step c op))"
    using step_entries_ok[OF step.IH[OF steady_prefix[OF step.prems]] reach_keyed[OF step.hyps(1)] step.prems]
      reach_settings[OF step.hyps(1)] new_circuit_settings by simp
  then show ?case by simp
next
  case (reorder h c es)
  have "distinct (map fst (circuit_entries c))" using reach_keyed[OF reorder.hyps(1)] by (simp add: keyed_def)
  then have "map_of es = map_of (circuit_entries c)"
    using reorder.hyps(2) by (metis map_of_inject_set mset_eq_imp_distinct_iff mset_eq_setD mset_map)
  then show ?case using reorder by (simp add: entries_ok_def)
qed

text \<open>C31. With a clock that does not run backwards, a proxy is quarantined only because of as many failures of
  that proxy as the threshold asks for, the last of them now, any two of them at least the collapse
  interval apart and all of them within one window: streams that die together never count twice.\<close>

theorem quarantine_needs_separate_failures:
  assumes "circuit_reach s h c" "steady_clock (h @ [Failure p now])" "fst (snd (recordFailure c p now))"
  shows "\<exists>ts. int (length ts) = failureThreshold (circuit_settings c) \<and> last ts = now \<and>
    set ts \<subseteq> {t. Failure p t \<in> set (h @ [Failure p now])} \<and>
    sorted_wrt (\<lambda>t u. t + collapseInterval (circuit_settings c) \<le> u) ts \<and> now - hd ts \<le> failureWindow (circuit_settings c)"
proof -
  let ?s = "circuit_settings c"
  note new = new_circuit_settings[of s, folded reach_settings[OF assms(1)]]
  have ok: "entries_ok ?s h (circuit_entries c)" by (rule reach_entries_ok[OF assms(1) steady_prefix[OF assms(2)]])
  show ?thesis
  proof (cases rule: recordFailure_cases[where c = c and p = p and now = now])
    case (counted e e' tripped)
    have "entry_ok ?s h p e" unfolding counted(3) by (rule found_ok[OF ok])
    then obtain ts where ts: "counted ?s (h @ [Failure p now]) p e' ts" "last ts = now" "ts \<noteq> []"
      using count_ok[OF _ assms(2) new(3,4) counted(5,6)] by blast
    have enough: "failureThreshold ?s \<le> int (length ts)"
      using ts(1) counted(6,7) assms(3) by (auto simp: counted_def count_failure_def Let_def split: if_splits)
    define us where "us = drop (length ts - nat (failureThreshold ?s)) ts"
    have us: "int (length us) = failureThreshold ?s" "us \<noteq> []" "last us = now" "set us \<subseteq> set ts"
      using enough new(2) ts(2) by (auto simp: us_def last_drop dest: in_set_dropD)
    have "sorted_wrt (\<lambda>t u. t + collapseInterval ?s \<le> u) us"
      using ts(1) unfolding counted_def spaced_def us_def by (simp add: sorted_wrt_drop)
    moreover have "now - hd us \<le> failureWindow ?s"
    proof -
      obtain w where w: "\<forall>t \<in> set ts. w \<le> t \<and> t - w \<le> failureWindow ?s" using ts(1,3) by (auto simp: counted_def)
      have "hd us \<in> set ts" "now \<in> set ts" using us(2,4) ts(2,3) by (auto intro: last_in_set) 
      then have "now - w \<le> failureWindow ?s" "w \<le> hd us" using w by blast+
      then show ?thesis by linarith
    qed
    ultimately show ?thesis using us ts(1) by (intro exI[of _ us]) (auto simp: counted_def)
  qed (use assms(3) in simp_all)
qed

section \<open>How long a quarantine lasts\<close>

fun op_proxy :: "circuit_op \<Rightarrow> int" where
  "op_proxy (Failure p t) = p"
| "op_proxy (Success p) = p"
| "op_proxy (Check p t) = p"

text \<open>The proxy \<open>p\<close> is quarantined until \<open>u\<close>, and the proxies \<open>K\<close> fit into the circuit.\<close>

definition quarantined :: "int set \<Rightarrow> int \<Rightarrow> gotime \<Rightarrow> openAIProxyStreamCircuit \<Rightarrow> bool" where
  "quarantined K p u c \<longleftrightarrow>
     \<not> disabled (circuit_settings c) \<and> p > 0 \<and>
     finite K \<and> int (card K) \<le> maxEntries (circuit_settings c) \<and>
     distinct (map fst (circuit_entries c)) \<and> fst ` set (circuit_entries c) \<subseteq> K \<and>
     (\<exists>e. map_of (circuit_entries c) p = Some e \<and> blockedUntil e = Some u)"

lemma quarantined_room:
  assumes "quarantined K p u c" "q \<in> K"
  shows "failure_base (circuit_settings c) (circuit_entries c) q now = circuit_entries c"
proof (cases "map_of (circuit_entries c) q")
  case None
  let ?es = "circuit_entries c"
  have "insert q (fst ` set ?es) \<subseteq> K" "q \<notin> fst ` set ?es" "finite K"
    using assms None missing_key by (auto simp: quarantined_def)
  then have "Suc (card (fst ` set ?es)) \<le> card K" by (metis card_insert_disjoint card_mono List.finite_set finite_imageI)
  moreover have "card (fst ` set ?es) = length ?es" using assms(1) by (metis quarantined_def distinct_card length_map set_map)
  ultimately have "int (length ?es) < maxEntries (circuit_settings c)" using assms(1) by (simp add: quarantined_def)
  then show ?thesis by (simp add: failure_base_def ensureCapacityLocked_def)
qed (simp add: failure_base_def)

lemma quarantined_update:
  assumes "quarantined K p u c" "q \<in> K" "q = p \<Longrightarrow> blockedUntil e = Some u"
  shows "quarantined K p u (c\<lparr>circuit_entries := AList.update q e (circuit_entries c)\<rparr>)"
  using assms unfolding quarantined_def by (auto simp: AList.distinct_update keys_update AList.update_conv')

lemma quarantined_delete:
  assumes "quarantined K p u c" "q \<noteq> p"
  shows "quarantined K p u (c\<lparr>circuit_entries := AList.delete q (circuit_entries c)\<rparr>)"
  using assms unfolding quarantined_def
  by (auto simp: AList.distinct_delete keys_delete AList.delete_conv')

lemma quarantined_step:
  assumes q: "quarantined K p u c" and K: "op_proxy op \<in> K" and op: "op \<noteq> Success p" and t: "\<forall>t \<in> set (op_times [op]). t < u"
  shows "quarantined K p u (circuit_step c op)"
proof -
  obtain e where e: "map_of (circuit_entries c) p = Some e" "blockedUntil e = Some u" using q by (auto simp: quarantined_def)
  show ?thesis
  proof (cases op)
    case (Failure r now)
    have now: "now < u" and r: "r \<in> K" using t K Failure by auto
    show ?thesis
    proof (cases rule: recordFailure_cases[where c = c and p = r and now = now])
      case off
      then show ?thesis using q Failure by simp
    next
      case (blocked e')
      show ?thesis unfolding Failure circuit_step.simps blocked(5) fst_conv
        by (rule quarantined_update[OF q r]) (use e blocked(3) in auto)
    next
      case (collapsed e')
      have "r \<noteq> p" using collapsed(3,4) e now by auto
      then show ?thesis unfolding Failure circuit_step.simps collapsed(6) fst_conv quarantined_room[OF q r]
        by (intro quarantined_update[OF q r]) simp
    next
      case (counted e' e'' tripped)
      have "r \<noteq> p" using counted(3,4) e now by auto
      then show ?thesis unfolding Failure circuit_step.simps counted(7) fst_conv quarantined_room[OF q r]
        by (intro quarantined_update[OF q r]) simp
    qed
  next
    case (Success r)
    then have "r \<noteq> p" using op by simp
    then show ?thesis using Success q quarantined_delete[OF q] by (simp add: recordSuccess_def split: option.split)
  next
    case (Check r now)
    have now: "now < u" using t Check by simp
    show ?thesis
    proof (cases "r = p")
      case True
      then show ?thesis using Check e now q by (simp add: isBlocked_def)
    next
      case False
      then show ?thesis using Check q quarantined_delete[OF q] by (simp add: isBlocked_def split: option.split)
    qed
  qed
qed

lemma quarantined_steps:
  assumes "quarantined K p u c" "op_proxy ` set ops \<subseteq> K" "Success p \<notin> set ops" "\<forall>t \<in> set (op_times ops). t < u"
  shows "quarantined K p u (foldl circuit_step c ops)"
  using assms
proof (induction ops arbitrary: c)
  case (Cons op ops)
  have "op_times (op # ops) = op_times [op] @ op_times ops" by (metis append_Cons append_Nil op_times_simps(2))
  then have "quarantined K p u (circuit_step c op)" using Cons.prems by (intro quarantined_step) auto
  then show ?case using Cons \<open>op_times (op # ops) = _\<close> by simp
qed simp

lemma quarantined_isBlocked: "quarantined K p u c \<Longrightarrow> snd (isBlocked c p t) \<longleftrightarrow> t < u"
  by (cases "t < u") (auto simp: quarantined_def isBlocked_def)

lemma trip_quarantines:
  assumes trip: "fst (snd (recordFailure c p now))" and k: "keyed (circuit_settings c) (circuit_entries c)"
    and K: "finite K" "insert p (fst ` set (circuit_entries c)) \<subseteq> K" "int (card K) \<le> maxEntries (circuit_settings c)"
  shows "quarantined K p (now + quarantineTTL (circuit_settings c)) (fst (recordFailure c p now))"
proof (cases rule: recordFailure_cases[where c = c and p = p and now = now])
  case (counted e e' tripped)
  let ?base = "failure_base (circuit_settings c) (circuit_entries c) p now"
  have base: "set ?base \<subseteq> set (circuit_entries c)" using ensureCapacity_sublist by (auto simp: failure_base_def)
  have "distinct (map fst ?base)"
  proof (cases "map_of (circuit_entries c) p")
    case None
    have "maxEntries (circuit_settings c) > 0" using K by (metis card_gt_0_iff empty_iff insert_subset of_nat_0_less_iff order.strict_trans2)
    then show ?thesis using ensureCapacity_room[OF k] None by (simp add: failure_base_def keyed_def)
  qed (use k in \<open>simp add: failure_base_def keyed_def\<close>)
  moreover have "blockedUntil e' = Some (now + quarantineTTL (circuit_settings c))"
    using counted(6,7) trip by (auto simp: count_failure_def Let_def split: if_splits)
  moreover have "fst ` set ?base \<subseteq> K" using base K(2) by auto
  ultimately show ?thesis
    using counted(1,2) K unfolding counted(7) quarantined_def by (simp add: AList.distinct_update keys_update AList.update_conv')
qed (use trip in simp_all)

text \<open>C32. From the failure that trips the circuit on, the proxy is refused for exactly the time of quarantine:
  neither further failures, of this or of other proxies, nor checks or successes of other proxies end it
  early or draw it out, as long as the proxies concerned fit into the circuit.\<close>

theorem quarantine_lasts_exactly:
  assumes "circuit_reach s h c" "fst (snd (recordFailure c p now))"
    and "int (card (insert p (fst ` set (circuit_entries c) \<union> op_proxy ` set ops))) \<le> maxEntries (circuit_settings c)"
    and "Success p \<notin> set ops" "\<forall>t \<in> set (op_times ops). t < now + quarantineTTL (circuit_settings c)"
  shows "snd (isBlocked (foldl circuit_step (fst (recordFailure c p now)) ops) p t) \<longleftrightarrow>
    t < now + quarantineTTL (circuit_settings c)"
proof -
  let ?K = "insert p (fst ` set (circuit_entries c) \<union> op_proxy ` set ops)"
  have "quarantined ?K p (now + quarantineTTL (circuit_settings c)) (fst (recordFailure c p now))"
    by (rule trip_quarantines[OF assms(2) reach_keyed[OF assms(1)] _ _ assms(3)]) auto
  then have "quarantined ?K p (now + quarantineTTL (circuit_settings c)) (foldl circuit_step (fst (recordFailure c p now)) ops)"
    by (rule quarantined_steps[OF _ _ assms(4,5)]) auto
  then show ?thesis by (rule quarantined_isBlocked)
qed

section \<open>The gateway\<close>

text \<open>What the gateway reads of an account; \<open>None\<close> is a nil account or a nil proxy.\<close>

record proxied_account =
  acct_platform :: string
  acct_proxy :: "int option"

datatype stream_error = Canceled | DeadlineExceeded | StreamBroken

definition openAIProxyStreamCircuitProxyID :: "proxied_account option \<Rightarrow> int option" where
  "openAIProxyStreamCircuitProxyID account =
     (case account of None \<Rightarrow> None
      | Some a \<Rightarrow>
          if acct_platform a \<noteq> PlatformOpenAI then None
          else case acct_proxy a of None \<Rightarrow> None | Some p \<Rightarrow> if p \<le> 0 then None else Some p)"

definition recordOpenAIProxyStreamDisconnect ::
    "openAIProxyStreamCircuit \<Rightarrow> proxied_account option \<Rightarrow> stream_error option \<Rightarrow> gotime \<Rightarrow> openAIProxyStreamCircuit" where
  "recordOpenAIProxyStreamDisconnect c account streamErr now =
     (case openAIProxyStreamCircuitProxyID account of None \<Rightarrow> c
      | Some proxyID \<Rightarrow>
          if streamErr = None \<or> streamErr = Some Canceled \<or> streamErr = Some DeadlineExceeded then c
          else fst (recordFailure c proxyID now))"

definition clearOpenAIProxyStreamDisconnect :: "openAIProxyStreamCircuit \<Rightarrow> proxied_account option \<Rightarrow> openAIProxyStreamCircuit" where
  "clearOpenAIProxyStreamDisconnect c account =
     (case openAIProxyStreamCircuitProxyID account of None \<Rightarrow> c | Some proxyID \<Rightarrow> fst (recordSuccess c proxyID))"

definition isOpenAIProxyStreamQuarantined ::
    "openAIProxyStreamCircuit \<Rightarrow> bool \<Rightarrow> proxied_account option \<Rightarrow> gotime \<Rightarrow> openAIProxyStreamCircuit \<times> bool" where
  "isOpenAIProxyStreamQuarantined c bypassed account now =
     (case openAIProxyStreamCircuitProxyID account of None \<Rightarrow> (c, False)
      | Some proxyID \<Rightarrow> if bypassed then (c, False) else isBlocked c proxyID now)"

text \<open>The warning is limited by a compare-and-swap of the time of the seen one: \<open>seen\<close> is what was loaded,
  \<open>current\<close> what the swap finds.\<close>

definition logOpenAIProxyStreamQuarantineFailOpen :: "gotime \<Rightarrow> int \<Rightarrow> int \<Rightarrow> int \<times> bool" where
  "logOpenAIProxyStreamQuarantineFailOpen now seen current =
     (if wrap64 (now - seen) < openAIProxyStreamFailOpenLogInterval \<or> current \<noteq> seen then (current, False) else (now, True))"

text \<open>The gateway acts on the circuit by its operations only.\<close>

lemma gateway_steps:
  "\<exists>ops. recordOpenAIProxyStreamDisconnect c account e now = foldl circuit_step c ops \<and> op_proxy ` set ops \<subseteq> {p. p > 0}"
  "\<exists>ops. clearOpenAIProxyStreamDisconnect c account = foldl circuit_step c ops \<and> op_proxy ` set ops \<subseteq> {p. p > 0}"
  "\<exists>ops. fst (isOpenAIProxyStreamQuarantined c bypassed account now) = foldl circuit_step c ops \<and> op_proxy ` set ops \<subseteq> {p. p > 0}"
proof -
  have pos: "openAIProxyStreamCircuitProxyID account = Some p \<Longrightarrow> p > 0" for p
    by (auto simp: openAIProxyStreamCircuitProxyID_def split: option.splits if_splits)
  show "\<exists>ops. recordOpenAIProxyStreamDisconnect c account e now = foldl circuit_step c ops \<and> op_proxy ` set ops \<subseteq> {p. p > 0}"
  proof (cases "openAIProxyStreamCircuitProxyID account")
    case (Some p)
    then show ?thesis using pos
      by (cases "e = None \<or> e = Some Canceled \<or> e = Some DeadlineExceeded")
        (auto simp: recordOpenAIProxyStreamDisconnect_def intro: exI[of _ "[]"] exI[of _ "[Failure p now]"])
  qed (auto simp: recordOpenAIProxyStreamDisconnect_def intro: exI[of _ "[]"])
  show "\<exists>ops. clearOpenAIProxyStreamDisconnect c account = foldl circuit_step c ops \<and> op_proxy ` set ops \<subseteq> {p. p > 0}"
  proof (cases "openAIProxyStreamCircuitProxyID account")
    case (Some p)
    then show ?thesis using pos by (auto simp: clearOpenAIProxyStreamDisconnect_def intro: exI[of _ "[Success p]"])
  qed (auto simp: clearOpenAIProxyStreamDisconnect_def intro: exI[of _ "[]"])
  show "\<exists>ops. fst (isOpenAIProxyStreamQuarantined c bypassed account now) = foldl circuit_step c ops \<and> op_proxy ` set ops \<subseteq> {p. p > 0}"
  proof (cases "openAIProxyStreamCircuitProxyID account")
    case (Some p)
    then show ?thesis using pos
      by (cases bypassed) (auto simp: isOpenAIProxyStreamQuarantined_def intro: exI[of _ "[]"] exI[of _ "[Check p now]"])
  qed (auto simp: isOpenAIProxyStreamQuarantined_def intro: exI[of _ "[]"])
qed

section \<open>At concrete inputs\<close>

abbreviation default_circuit :: openAIProxyStreamCircuit where
  "default_circuit \<equiv> newOpenAIProxyStreamCircuit (resolveOpenAIProxyStreamCircuitSettings None)"

lemma circuit_run: "circuit_reach s h c \<Longrightarrow> circuit_reach s (h @ ops) (foldl circuit_step c ops)"
proof (induction ops arbitrary: h c)
  case (Cons op ops)
  then show ?case using Cons.IH[OF circuit_reach.step[OF Cons.prems, of op]] by simp
qed simp

lemma circuit_run_start: "circuit_reach s ops (foldl circuit_step (newOpenAIProxyStreamCircuit s) ops)"
  using circuit_run[OF circuit_reach.start[of s], of ops] by simp

theorem circuit_stays_bounded_witness:
  "int (length (circuit_entries (foldl circuit_step
     (newOpenAIProxyStreamCircuit ((resolveOpenAIProxyStreamCircuitSettings None)\<lparr>maxEntries := 2\<rparr>))
     [Failure 1 5, Failure 2 6, Failure 3 7, Failure 4 8]))) \<le>
   maxEntries (circuit_settings (newOpenAIProxyStreamCircuit ((resolveOpenAIProxyStreamCircuitSettings None)\<lparr>maxEntries := 2\<rparr>)))"
  by (rule circuit_stays_bounded[OF circuit_run_start])

theorem quarantine_needs_separate_failures_witness:
  "\<exists>ts. int (length ts) = failureThreshold (circuit_settings (foldl circuit_step default_circuit [Failure 7 0])) \<and>
     last ts = 3000000000 \<and> set ts \<subseteq> {t. Failure 7 t \<in> set ([Failure 7 0] @ [Failure 7 3000000000])} \<and>
     sorted_wrt (\<lambda>t u. t + collapseInterval (circuit_settings (foldl circuit_step default_circuit [Failure 7 0])) \<le> u) ts \<and>
     3000000000 - hd ts \<le> failureWindow (circuit_settings (foldl circuit_step default_circuit [Failure 7 0]))"
proof (rule quarantine_needs_separate_failures[OF circuit_run_start])
  show "steady_clock ([Failure 7 0] @ [Failure 7 3000000000])" by (simp add: steady_clock_def max_duration_def op_times_def List.map_filter_def)
  show "fst (snd (recordFailure (foldl circuit_step default_circuit [Failure 7 0]) 7 3000000000))" by code_simp
qed

theorem quarantine_lasts_exactly_witness:
  "snd (isBlocked (foldl circuit_step (fst (recordFailure (foldl circuit_step default_circuit [Failure 7 0]) 7 3000000000))
      [Failure 7 4000000000, Failure 8 5000000000, Check 7 6000000000, Success 8]) 7 603000000000) \<longleftrightarrow>
   603000000000 < 3000000000 + quarantineTTL (circuit_settings (foldl circuit_step default_circuit [Failure 7 0]))"
proof (rule quarantine_lasts_exactly[OF circuit_run_start])
  show "fst (snd (recordFailure (foldl circuit_step default_circuit [Failure 7 0]) 7 3000000000))" by code_simp
  show "int (card (insert 7 (fst ` set (circuit_entries (foldl circuit_step default_circuit [Failure 7 0])) \<union>
      op_proxy ` set [Failure 7 4000000000, Failure 8 5000000000, Check 7 6000000000, Success 8])))
    \<le> maxEntries (circuit_settings (foldl circuit_step default_circuit [Failure 7 0]))" by code_simp
  show "Success 7 \<notin> set [Failure 7 4000000000, Failure 8 5000000000, Check 7 6000000000, Success 8]" by simp
  show "\<forall>t \<in> set (op_times [Failure 7 4000000000, Failure 8 5000000000, Check 7 6000000000, Success 8]).
      t < 3000000000 + quarantineTTL (circuit_settings (foldl circuit_step default_circuit [Failure 7 0]))" by code_simp
qed

text \<open>Streams read the clock before they take the lock. With a threshold of three, two streams of one incident
  whose reports arrive out of order count twice: the second is not before the window, but it is before the last
  failure, where the collapse does not look.\<close>

lemma out_of_order_burst_counts_twice:
  "snd (isBlocked (foldl circuit_step (newOpenAIProxyStreamCircuit ((resolveOpenAIProxyStreamCircuitSettings None)\<lparr>failureThreshold := 3\<rparr>))
     [Failure 7 1000000000, Failure 7 20000000001, Failure 7 20000000000]) 7 20000000002) \<and>
   \<not> snd (isBlocked (foldl circuit_step (newOpenAIProxyStreamCircuit ((resolveOpenAIProxyStreamCircuitSettings None)\<lparr>failureThreshold := 3\<rparr>))
     [Failure 7 1000000000, Failure 7 20000000000, Failure 7 20000000001]) 7 20000000002)"
  by code_simp

end
