(* ===== verification/SubscriptionWindows.thy ===== *)
theory SubscriptionWindows
  imports GroupPolicy
begin

text \<open>
  The usage windows of a subscription, \<open>service/user_subscription.go\<close>: the daily window follows the calendar
  days of the configured time zone, the weekly and monthly windows step in whole periods from an anchor and
  stop before the expiry. The calendar is an argument: \<open>StartOfDay\<close> of \<open>pkg/timezone\<close>, the
  \<open>startOfDay\<close> that keeps the zone of the value, and \<open>AddDate(0, 0, n)\<close>; the laws that a zone without a
  change of offset has are the locale \<open>calendar\<close>, and a zone of fixed offset satisfies them. Amounts are exact
  numbers.
\<close>

section \<open>The calendar\<close>

record calendar_fns =
  StartOfDay :: "gotime \<Rightarrow> gotime"
  startOfDay :: "gotime \<Rightarrow> gotime"
  AddDays :: "gotime \<Rightarrow> int \<Rightarrow> gotime"

locale calendar =
  fixes cal :: calendar_fns
  assumes day_start_le: "StartOfDay cal t \<le> t"
    and day_start_idem: "StartOfDay cal (StartOfDay cal t) = StartOfDay cal t"
    and day_start_mono: "t \<le> u \<Longrightarrow> StartOfDay cal t \<le> StartOfDay cal u"
    and add_days_mono: "m \<le> n \<Longrightarrow> AddDays cal t m \<le> AddDays cal t n"
    and add_days_pos: "0 < n \<Longrightarrow> t < AddDays cal t n"
begin

lemma day_advances_iff: "StartOfDay cal t < StartOfDay cal u \<longleftrightarrow> t < StartOfDay cal u"
  using day_start_le[of t] day_start_mono[of "StartOfDay cal u" t] day_start_idem[of u]
  by (metis linorder_not_less order.strict_trans1)

lemma same_day: "StartOfDay cal (StartOfDay cal u) = StartOfDay cal u"
  by (rule day_start_idem)

end

text \<open>A zone whose offset from UTC does not change, like the default zone today.\<close>

definition fixed_zone :: "duration \<Rightarrow> calendar_fns" where
  "fixed_zone offset =
     \<lparr>StartOfDay = (\<lambda>t. t - (t + offset) mod (24 * Hour)),
      startOfDay = (\<lambda>t. t - (t + offset) mod (24 * Hour)),
      AddDays = (\<lambda>t n. t + n * (24 * Hour))\<rparr>"

lemma fixed_zone_mono:
  assumes "t \<le> (u :: int)" "0 < d"
  shows "t - (t + z) mod d \<le> u - (u + z) mod d"
proof -
  have "(t + z) div d \<le> (u + z) div d" using assms by (simp add: zdiv_mono1)
  then have "d * ((t + z) div d) \<le> d * ((u + z) div d)" using assms(2) by simp
  then show ?thesis using minus_mod_eq_mult_div[of "t + z" d] minus_mod_eq_mult_div[of "u + z" d] by linarith
qed

interpretation fixed: calendar "fixed_zone offset"
proof unfold_locales
  let ?d = "24 * Hour"
  have d: "?d > 0" by (simp add: Hour_def)
  fix t u n m :: int
  show "StartOfDay (fixed_zone offset) t \<le> t" using pos_mod_sign[OF d, of "t + offset"] by (simp add: fixed_zone_def)
  show "StartOfDay (fixed_zone offset) (StartOfDay (fixed_zone offset) t) = StartOfDay (fixed_zone offset) t"
  proof -
    have "(t - (t + offset) mod ?d + offset) mod ?d = (t + offset - (t + offset) mod ?d) mod ?d" by (simp add: algebra_simps)
    then show ?thesis by (simp add: fixed_zone_def)
  qed
  show "t \<le> u \<Longrightarrow> StartOfDay (fixed_zone offset) t \<le> StartOfDay (fixed_zone offset) u"
    using fixed_zone_mono[OF _ d, of t u offset] by (simp add: fixed_zone_def)
  show "m \<le> n \<Longrightarrow> AddDays (fixed_zone offset) t m \<le> AddDays (fixed_zone offset) t n"
    by (simp add: fixed_zone_def Hour_def)
  show "0 < n \<Longrightarrow> t < AddDays (fixed_zone offset) t n" by (simp add: fixed_zone_def Hour_def)
qed

section \<open>The subscription\<close>

definition SubscriptionStatusActive :: string where "SubscriptionStatusActive = ''active''"
definition SubscriptionStatusExpired :: string where "SubscriptionStatusExpired = ''expired''"
definition SubscriptionStatusSuspended :: string where "SubscriptionStatusSuspended = ''suspended''"

lemmas subscription_status_defs [go_def] =
  SubscriptionStatusActive_def SubscriptionStatusExpired_def SubscriptionStatusSuspended_def

text \<open>\<open>None\<close> stands for a nil pointer and for a zero \<open>StartsAt\<close> or \<open>ExpiresAt\<close>. The relations and the
  times of assignment, creation and last update are left out.\<close>

record UserSubscription =
  SubID :: int
  UserID :: int
  GroupID :: int
  StartsAt :: "gotime option"
  ExpiresAt :: gotime
  SubStatus :: string
  DailyWindowStart :: "gotime option"
  WeeklyWindowStart :: "gotime option"
  MonthlyWindowStart :: "gotime option"
  DailyUsageUSD :: rat
  WeeklyUsageUSD :: rat
  MonthlyUsageUSD :: rat
  AssignedBy :: "int option"
  Notes :: string
  DeletedAt :: "gotime option"

definition subscriptionDayDuration :: duration where "subscriptionDayDuration = 24 * Hour"
definition week :: duration where "week = 7 * 24 * Hour"
definition month :: duration where "month = 30 * 24 * Hour"

lemmas period_defs = subscriptionDayDuration_def week_def month_def

definition sub_IsActive :: "UserSubscription \<Rightarrow> gotime \<Rightarrow> bool" where
  "sub_IsActive s now \<longleftrightarrow> SubStatus s = SubscriptionStatusActive \<and> now < ExpiresAt s"

definition sub_IsExpired :: "UserSubscription \<Rightarrow> gotime \<Rightarrow> bool" where
  "sub_IsExpired s now \<longleftrightarrow> now > ExpiresAt s"

definition daysRemainingAt :: "UserSubscription \<Rightarrow> gotime \<Rightarrow> int" where
  "daysRemainingAt s now =
     (let remaining = time_sub (ExpiresAt s) now
      in if remaining \<le> 0 then 0
         else remaining sdiv subscriptionDayDuration + (if remaining smod subscriptionDayDuration \<noteq> 0 then 1 else 0))"

definition IsWindowActivated :: "UserSubscription \<Rightarrow> bool" where
  "IsWindowActivated s \<longleftrightarrow> DailyWindowStart s \<noteq> None \<or> WeeklyWindowStart s \<noteq> None \<or> MonthlyWindowStart s \<noteq> None"

text \<open>A stored expiry is never the zero time.\<close>

definition HasOneTimeDailyQuota :: "calendar_fns \<Rightarrow> UserSubscription \<Rightarrow> bool" where
  "HasOneTimeDailyQuota cal s =
     (case StartsAt s of None \<Rightarrow> False | Some starts \<Rightarrow> \<not> ExpiresAt s > AddDays cal starts 1)"

definition automaticDailyWindowStartAt :: "calendar_fns \<Rightarrow> UserSubscription \<Rightarrow> gotime \<Rightarrow> gotime option" where
  "automaticDailyWindowStartAt cal s now =
     (case DailyWindowStart s of None \<Rightarrow> None
      | Some start \<Rightarrow>
          if HasOneTimeDailyQuota cal s then None
          else let today = StartOfDay cal now
               in if \<not> today > StartOfDay cal start then None else Some today)"

definition windowResetAnchor :: "calendar_fns \<Rightarrow> UserSubscription \<Rightarrow> gotime \<Rightarrow> gotime" where
  "windowResetAnchor cal s previous =
     (case StartsAt s of None \<Rightarrow> previous
      | Some starts \<Rightarrow>
          let legacyAnchor = startOfDay cal starts
          in if legacyAnchor < starts \<and> previous = legacyAnchor then starts else previous)"

definition automaticWindowStartAt ::
    "calendar_fns \<Rightarrow> UserSubscription \<Rightarrow> gotime option \<Rightarrow> duration \<Rightarrow> gotime \<Rightarrow> gotime option" where
  "automaticWindowStartAt cal s previous period now =
     (case previous of None \<Rightarrow> None
      | Some previous \<Rightarrow>
          let anchor = windowResetAnchor cal s previous;
              next = anchor + period
          in if now < next \<or> \<not> next < ExpiresAt s then None
             else let periods = time_sub now anchor sdiv period;
                      lastPeriodBeforeExpiry = wrap64 (time_sub (ExpiresAt s) anchor - 1) sdiv period;
                      periods = (if periods > lastPeriodBeforeExpiry then lastPeriodBeforeExpiry else periods)
                  in Some (anchor + wrap64 (periods * period)))"

definition NeedsDailyResetAt :: "calendar_fns \<Rightarrow> UserSubscription \<Rightarrow> gotime \<Rightarrow> bool" where
  "NeedsDailyResetAt cal s now \<longleftrightarrow> automaticDailyWindowStartAt cal s now \<noteq> None"

definition NeedsWeeklyResetAt :: "UserSubscription \<Rightarrow> gotime \<Rightarrow> bool" where
  "NeedsWeeklyResetAt s now = (case WeeklyWindowStart s of None \<Rightarrow> False | Some start \<Rightarrow> \<not> now < start + week)"

definition NeedsMonthlyResetAt :: "UserSubscription \<Rightarrow> gotime \<Rightarrow> bool" where
  "NeedsMonthlyResetAt s now = (case MonthlyWindowStart s of None \<Rightarrow> False | Some start \<Rightarrow> \<not> now < start + month)"

definition canAutomaticallyResetDailyAt :: "calendar_fns \<Rightarrow> UserSubscription \<Rightarrow> gotime \<Rightarrow> bool" where
  "canAutomaticallyResetDailyAt cal s now \<longleftrightarrow> automaticDailyWindowStartAt cal s now \<noteq> None"

definition canAutomaticallyResetWeeklyAt :: "calendar_fns \<Rightarrow> UserSubscription \<Rightarrow> gotime \<Rightarrow> bool" where
  "canAutomaticallyResetWeeklyAt cal s now \<longleftrightarrow> automaticWindowStartAt cal s (WeeklyWindowStart s) week now \<noteq> None"

definition canAutomaticallyResetMonthlyAt :: "calendar_fns \<Rightarrow> UserSubscription \<Rightarrow> gotime \<Rightarrow> bool" where
  "canAutomaticallyResetMonthlyAt cal s now \<longleftrightarrow> automaticWindowStartAt cal s (MonthlyWindowStart s) month now \<noteq> None"

definition DailyResetTime :: "calendar_fns \<Rightarrow> UserSubscription \<Rightarrow> gotime option" where
  "DailyResetTime cal s =
     (case DailyWindowStart s of None \<Rightarrow> None
      | Some start \<Rightarrow> if HasOneTimeDailyQuota cal s then Some (ExpiresAt s)
                      else Some (AddDays cal (StartOfDay cal start) 1))"

definition WeeklyResetTime :: "calendar_fns \<Rightarrow> UserSubscription \<Rightarrow> gotime option" where
  "WeeklyResetTime cal s =
     (case WeeklyWindowStart s of None \<Rightarrow> None | Some start \<Rightarrow> Some (windowResetAnchor cal s start + week))"

definition MonthlyResetTime :: "calendar_fns \<Rightarrow> UserSubscription \<Rightarrow> gotime option" where
  "MonthlyResetTime cal s =
     (case MonthlyWindowStart s of None \<Rightarrow> None | Some start \<Rightarrow> Some (windowResetAnchor cal s start + month))"

section \<open>Limits\<close>

definition within_limit :: "bool \<Rightarrow> rat option \<Rightarrow> rat \<Rightarrow> bool" where
  "within_limit has limit usage = (if \<not> has then True else case limit of None \<Rightarrow> False | Some l \<Rightarrow> usage \<le> l)"

definition CheckDailyLimit :: "UserSubscription \<Rightarrow> Group \<Rightarrow> rat \<Rightarrow> bool" where
  "CheckDailyLimit s g additionalCost = within_limit (HasDailyLimit g) (DailyLimitUSD g) (DailyUsageUSD s + additionalCost)"

definition CheckWeeklyLimit :: "UserSubscription \<Rightarrow> Group \<Rightarrow> rat \<Rightarrow> bool" where
  "CheckWeeklyLimit s g additionalCost = within_limit (HasWeeklyLimit g) (WeeklyLimitUSD g) (WeeklyUsageUSD s + additionalCost)"

definition CheckMonthlyLimit :: "UserSubscription \<Rightarrow> Group \<Rightarrow> rat \<Rightarrow> bool" where
  "CheckMonthlyLimit s g additionalCost = within_limit (HasMonthlyLimit g) (MonthlyLimitUSD g) (MonthlyUsageUSD s + additionalCost)"

definition CheckAllLimits :: "UserSubscription \<Rightarrow> Group \<Rightarrow> rat \<Rightarrow> bool \<times> bool \<times> bool" where
  "CheckAllLimits s g additionalCost =
     (CheckDailyLimit s g additionalCost, CheckWeeklyLimit s g additionalCost, CheckMonthlyLimit s g additionalCost)"

section \<open>How windows advance\<close>

lemma period_facts: "week > 0" "month > 0" "subscriptionDayDuration > 0"
  by (simp_all add: period_defs Hour_def)

lemma div_bounds:
  assumes "0 < (d :: int)"
  shows "n div d * d \<le> n" "n < (n div d + 1) * d"
proof -
  have "n div d * d + n mod d = n" "0 \<le> n mod d" "n mod d < d" using assms by simp_all
  moreover have "(n div d + 1) * d = n div d * d + d" by (simp add: distrib_right)
  ultimately show "n div d * d \<le> n" "n < (n div d + 1) * d" by linarith+
qed

lemma automaticWindowStartAt_iff:
  assumes range: "in_int64 (now - windowResetAnchor cal s p)" "in_int64 (ExpiresAt s - windowResetAnchor cal s p)"
    and period: "period > 0"
  shows "automaticWindowStartAt cal s (Some p) period now = Some w \<longleftrightarrow>
    (\<exists>k \<ge> 1. w = windowResetAnchor cal s p + k * period) \<and> w \<le> now \<and> w < ExpiresAt s \<and>
    (now < w + period \<or> ExpiresAt s \<le> w + period)"
proof -
  define a where "a = windowResetAnchor cal s p"
  show ?thesis
  proof (cases "now < a + period \<or> \<not> a + period < ExpiresAt s")
    case True
    have "\<not> ((\<exists>k \<ge> 1. w = a + k * period) \<and> w \<le> now \<and> w < ExpiresAt s)"
    proof
      assume "(\<exists>k \<ge> 1. w = a + k * period) \<and> w \<le> now \<and> w < ExpiresAt s"
      then obtain k where k: "k \<ge> 1" "w = a + k * period" "w \<le> now" "w < ExpiresAt s" by blast
      have "1 * period \<le> k * period" using k(1) period by (intro mult_right_mono) simp_all
      then show False using True k by linarith
    qed
    then show ?thesis using True by (auto simp: automaticWindowStartAt_def Let_def simp flip: a_def)
  next
    case False
    let ?n = "now - a" let ?e = "ExpiresAt s - a - 1"
    have pos: "0 < ?n" "0 < ?e" using False period by linarith+
    have n: "time_sub now a = ?n" using range(1) time_sub_exact by (simp add: a_def)
    have e: "wrap64 (time_sub (ExpiresAt s) a - 1) = ?e"
      using range(2) time_sub_exact[of "ExpiresAt s" a] pos(2) by (subst wrap64_exact) (auto simp: a_def in_int64_def)
    define k where "k = min (?n div period) (?e div period)"
    have divs: "?n sdiv period = ?n div period" "?e sdiv period = ?e div period"
      using pos period by (simp_all add: sdiv_nonneg)
    have ks: "k * period \<le> ?n" "k * period \<le> ?e" "k \<ge> 1" "?n < (k + 1) * period \<or> ?e < (k + 1) * period"
    proof -
      note nd = div_bounds[OF period, of ?n]
      note ed = div_bounds[OF period, of ?e]
      have mono: "x \<le> y \<Longrightarrow> x * period \<le> y * period" for x y using period by (simp add: mult_right_mono)
      show "k * period \<le> ?n" using nd(1) mono[of k "?n div period"] by (simp add: k_def)
      show "k * period \<le> ?e" using ed(1) mono[of k "?e div period"] by (simp add: k_def)
      have "period \<le> ?n" "period \<le> ?e" using False by linarith+
      then have "1 \<le> ?n div period" "1 \<le> ?e div period" using zdiv_mono1[of period ?n period] zdiv_mono1[of period ?e period] period by simp_all
      then show "k \<ge> 1" by (simp add: k_def)
      show "?n < (k + 1) * period \<or> ?e < (k + 1) * period" using nd(2) ed(2) by (auto simp: k_def min_def)
    qed
    have "wrap64 (k * period) = k * period"
    proof (rule wrap64_exact)
      have "0 \<le> k * period" using ks(3) period by simp
      moreover have "in_int64 ?n" using range(1) by (simp add: a_def)
      ultimately show "in_int64 (k * period)" using ks(1) unfolding in_int64_def by linarith
    qed
    then have res: "automaticWindowStartAt cal s (Some p) period now = Some (a + k * period)"
      using False n e divs by (auto simp: automaticWindowStartAt_def Let_def k_def min_def simp flip: a_def)
    have max: "j = k" if j: "j \<ge> 1" "a + j * period \<le> now" "a + j * period < ExpiresAt s"
      "now < a + j * period + period \<or> ExpiresAt s \<le> a + j * period + period" for j
    proof (rule ccontr)
      assume "j \<noteq> k"
      then consider "j + 1 \<le> k" | "k + 1 \<le> j" by linarith
      then show False
      proof cases
        case 1
        then have "(j + 1) * period \<le> k * period" using period by (intro mult_right_mono) simp_all
        then show False using j(4) ks(1,2) by (auto simp: algebra_simps)
      next
        case 2
        then have "(k + 1) * period \<le> j * period" using period by (intro mult_right_mono) simp_all
        then show False using j(2,3) ks(4) by (auto simp: algebra_simps)
      qed
    qed
    show ?thesis
    proof
      assume "automaticWindowStartAt cal s (Some p) period now = Some w"
      then have w: "w = a + k * period" using res by simp
      have "w \<le> now" "w < ExpiresAt s" "now < w + period \<or> ExpiresAt s \<le> w + period"
        using ks(1,2,4) by (auto simp: w algebra_simps)
      then show "(\<exists>k \<ge> 1. w = windowResetAnchor cal s p + k * period) \<and> w \<le> now \<and> w < ExpiresAt s \<and>
        (now < w + period \<or> ExpiresAt s \<le> w + period)" using w ks(3) a_def by blast
    next
      assume "(\<exists>k \<ge> 1. w = windowResetAnchor cal s p + k * period) \<and> w \<le> now \<and> w < ExpiresAt s \<and>
        (now < w + period \<or> ExpiresAt s \<le> w + period)"
      then obtain j where "j \<ge> 1" "w = a + j * period" "w \<le> now" "w < ExpiresAt s"
        "now < w + period \<or> ExpiresAt s \<le> w + period" by (auto simp: a_def)
      then show "automaticWindowStartAt cal s (Some p) period now = Some w" using max[of j] res by simp
    qed
  qed
qed

text \<open>The times that the code subtracts are within the 292 years a duration can express.\<close>

definition in_range :: "calendar_fns \<Rightarrow> UserSubscription \<Rightarrow> gotime option \<Rightarrow> gotime \<Rightarrow> bool" where
  "in_range cal s previous now \<longleftrightarrow>
     (case previous of None \<Rightarrow> True
      | Some p \<Rightarrow> in_int64 (now - windowResetAnchor cal s p) \<and> in_int64 (ExpiresAt s - windowResetAnchor cal s p))"

definition sane_time :: "gotime \<Rightarrow> bool" where
  "sane_time t \<longleftrightarrow> 0 \<le> t \<and> t < 2 ^ 62"

lemma sane_time_diff: "sane_time t \<Longrightarrow> sane_time u \<Longrightarrow> in_int64 (t - u)"
  by (simp add: sane_time_def in_int64_def)

definition sane_times :: "UserSubscription \<Rightarrow> bool" where
  "sane_times s \<longleftrightarrow> sane_time (ExpiresAt s) \<and> pred_option sane_time (StartsAt s) \<and>
     pred_option sane_time (DailyWindowStart s) \<and> pred_option sane_time (WeeklyWindowStart s) \<and>
     pred_option sane_time (MonthlyWindowStart s)"

lemma anchor_cases: "windowResetAnchor cal s p = p \<or> StartsAt s = Some (windowResetAnchor cal s p)"
  by (auto simp: windowResetAnchor_def Let_def split: option.split)

lemma anchor_not_before: "p \<le> windowResetAnchor cal s p"
  by (auto simp: windowResetAnchor_def Let_def split: option.split)

lemma sane_in_range: "sane_times s \<Longrightarrow> sane_time now \<Longrightarrow> pred_option sane_time p \<Longrightarrow> in_range cal s p now"
proof (cases p)
  case (Some x)
  assume *: "sane_times s" "sane_time now" "pred_option sane_time p"
  have "sane_time (windowResetAnchor cal s x)"
    using anchor_cases[of cal s x] * Some by (auto simp: sane_times_def)
  then show ?thesis using * Some by (simp add: in_range_def sane_time_diff sane_times_def)
qed (simp add: in_range_def)

lemma window_after_advance:
  assumes w: "automaticWindowStartAt cal s (Some p) period now = Some w" and period: "period > 0"
    and range: "in_range cal s (Some p) now"
  shows "p < w" "w \<le> now" "w < ExpiresAt s" "automaticWindowStartAt cal s (Some w) period now = None"
proof -
  let ?a = "windowResetAnchor cal s p"
  have r: "in_int64 (now - ?a)" "in_int64 (ExpiresAt s - ?a)" using range by (simp_all add: in_range_def)
  obtain k where k: "k \<ge> 1" "w = ?a + k * period" and le: "w \<le> now" "w < ExpiresAt s" "now < w + period \<or> ExpiresAt s \<le> w + period"
    using w automaticWindowStartAt_iff[OF r period] by blast
  have "1 * period \<le> k * period" using k(1) period by (intro mult_right_mono) simp_all
  then show "p < w" using k(2) period anchor_not_before[of p cal s] by linarith
  show "w \<le> now" "w < ExpiresAt s" by (fact le)+
  show "automaticWindowStartAt cal s (Some w) period now = None"
    using le(3) anchor_not_before[of w cal s] by (auto simp: automaticWindowStartAt_def Let_def)
qed

lemma no_advance_from_now:
  assumes "period > 0"
  shows "automaticWindowStartAt cal s (Some now) period now = None"
  using assms anchor_not_before[of now cal s] by (auto simp: automaticWindowStartAt_def Let_def)

text \<open>What advances a window reads only the term of the subscription.\<close>

definition same_term :: "UserSubscription \<Rightarrow> UserSubscription \<Rightarrow> bool" where
  "same_term s s' \<longleftrightarrow> StartsAt s' = StartsAt s \<and> ExpiresAt s' = ExpiresAt s"

lemma same_term_refl [simp]: "same_term s s"
  by (simp add: same_term_def)

lemma automaticWindowStartAt_cong:
  assumes "same_term s s'"
  shows "automaticWindowStartAt cal s' p period now = automaticWindowStartAt cal s p period now"
proof -
  have "windowResetAnchor cal s' = windowResetAnchor cal s" "ExpiresAt s' = ExpiresAt s"
    using assms by (simp_all add: same_term_def windowResetAnchor_def fun_eq_iff)
  then show ?thesis by (simp only: automaticWindowStartAt_def)
qed

lemma automaticDailyWindowStartAt_cong:
  assumes "same_term s s'" "DailyWindowStart s' = DailyWindowStart s"
  shows "automaticDailyWindowStartAt cal s' now = automaticDailyWindowStartAt cal s now"
proof -
  have "HasOneTimeDailyQuota cal s' = HasOneTimeDailyQuota cal s"
    using assms(1) by (cases "StartsAt s") (simp_all add: same_term_def HasOneTimeDailyQuota_def)
  then show ?thesis using assms(2) by (simp only: automaticDailyWindowStartAt_def)
qed

context calendar begin

lemma daily_after_advance:
  assumes "automaticDailyWindowStartAt cal s now = Some w" "same_term s s'" "DailyWindowStart s' = Some w"
  shows "automaticDailyWindowStartAt cal s' now = None"
  using assms day_start_idem[of now]
  by (auto simp: automaticDailyWindowStartAt_def Let_def same_term_def HasOneTimeDailyQuota_def
      split: option.splits if_splits)

lemma no_daily_advance_from_today:
  assumes "DailyWindowStart s' = Some (StartOfDay cal now)"
  shows "automaticDailyWindowStartAt cal s' now = None"
  using assms day_start_idem[of now] by (simp add: automaticDailyWindowStartAt_def Let_def)

lemma daily_window_grows:
  assumes "automaticDailyWindowStartAt cal s now = Some w" "DailyWindowStart s = Some p"
  shows "p < w" "w \<le> now"
proof -
  have "w = StartOfDay cal now" "StartOfDay cal p < StartOfDay cal now"
    using assms by (auto simp: automaticDailyWindowStartAt_def Let_def split: if_splits)
  then show "p < w" "w \<le> now" using day_advances_iff[of p now] day_start_le[of now] by simp_all
qed

end

text \<open>C37. The weekly and monthly windows advance exactly to the last boundary, counted in whole periods from
  their anchor, that is not in the future and lies before the expiry: never by a part of a period, and never
  to a boundary at or after the expiry, so that an incomplete last period grants no new quota.\<close>

theorem window_advances_to_last_boundary:
  assumes "in_range cal s (Some p) now" "period > 0"
  shows "automaticWindowStartAt cal s (Some p) period now = Some w \<longleftrightarrow>
    (\<exists>k \<ge> 1. w = windowResetAnchor cal s p + k * period) \<and> w \<le> now \<and> w < ExpiresAt s \<and>
    (now < w + period \<or> ExpiresAt s \<le> w + period)"
  by (rule automaticWindowStartAt_iff) (use assms in \<open>simp_all add: in_range_def\<close>)

definition demo_subscription :: UserSubscription where
  "demo_subscription =
     \<lparr>SubID = 1, UserID = 7, GroupID = 3, StartsAt = Some 0, ExpiresAt = 2 * week + 1, SubStatus = ''active'',
      DailyWindowStart = Some 0, WeeklyWindowStart = Some 0, MonthlyWindowStart = Some 0, DailyUsageUSD = 2,
      WeeklyUsageUSD = 9, MonthlyUsageUSD = 9, AssignedBy = None, Notes = [], DeletedAt = None\<rparr>"

lemma demo_anchor: "windowResetAnchor (fixed_zone 0) (demo_subscription\<lparr>ExpiresAt := e\<rparr>) 0 = 0"
  by (simp add: windowResetAnchor_def fixed_zone_def demo_subscription_def)

theorem window_advances_to_last_boundary_witness:
  "automaticWindowStartAt (fixed_zone 0) (demo_subscription\<lparr>ExpiresAt := 2 * week + 1\<rparr>) (Some 0) week (5 * week) = Some (2 * week) \<and>
   automaticWindowStartAt (fixed_zone 0) (demo_subscription\<lparr>ExpiresAt := 2 * week\<rparr>) (Some 0) week (5 * week) = Some week"
proof
  have range: "in_range (fixed_zone 0) (demo_subscription\<lparr>ExpiresAt := 2 * week + 1\<rparr>) (Some 0) (5 * week)"
    "in_range (fixed_zone 0) (demo_subscription\<lparr>ExpiresAt := 2 * week\<rparr>) (Some 0) (5 * week)"
    unfolding in_range_def option.case demo_anchor by (simp_all add: in_int64_def week_def Hour_def)
  show "automaticWindowStartAt (fixed_zone 0) (demo_subscription\<lparr>ExpiresAt := 2 * week + 1\<rparr>) (Some 0) week (5 * week) = Some (2 * week)"
    unfolding window_advances_to_last_boundary[OF range(1) period_facts(1)] demo_anchor
    using period_facts(1) by (intro conjI exI[of _ 2]) simp_all
  show "automaticWindowStartAt (fixed_zone 0) (demo_subscription\<lparr>ExpiresAt := 2 * week\<rparr>) (Some 0) week (5 * week) = Some week"
    unfolding window_advances_to_last_boundary[OF range(2) period_facts(1)] demo_anchor
    using period_facts(1) by (intro conjI exI[of _ 1]) simp_all
qed

end
