(* ===== verification/SubscriptionStore.thy ===== *)
theory SubscriptionStore
  imports SubscriptionWindows
begin

text \<open>
  Subscriptions as rows of a table: the repository \<open>repository/user_subscription_repo.go\<close> with soft deletion
  (queries see the rows that are not deleted, updates by id see all rows) and the partial unique index on
  user and group. Which calls of the database fail is an argument. Caches are left out: what they can do is to hand
  out old snapshots.
\<close>

section \<open>Errors and calls\<close>

datatype subscription_error = ErrSubscriptionNotFound | ErrSubscriptionExpired | ErrSubscriptionSuspended
  | ErrSubscriptionAlreadyExists | ErrSubscriptionAssignConflict string | ErrSubscriptionNotRevoked
  | ErrSubscriptionRestoreConflict | ErrGroupNotSubscriptionType | ErrInvalidInput | ErrDailyLimitExceeded
  | ErrWeeklyLimitExceeded | ErrMonthlyLimitExceeded | ErrAdjustWouldExpire | ErrCannotShortenExpired
  | ErrSubscriptionNilInput | ErrGroupNotFound | ErrDatabase

datatype repo_call = CallCreate | CallGetByID | CallReread | CallGetForUpdate | CallGetIncludeDeleted | CallGetByUserGroup
  | CallExists | CallUpdate | CallExtendExpiry | CallUpdateStatus | CallUpdateNotes | CallActivate | CallResetDaily
  | CallResetWeekly | CallResetMonthly | CallResetUsage | CallIncrement | CallDelete | CallRestore | CallGroup
  | CallBegin | CallCommit

type_synonym failures = "repo_call \<Rightarrow> bool"

section \<open>The table\<close>

record sub_table =
  sub_rows :: "UserSubscription list"
  next_sub_id :: int

definition live :: "UserSubscription \<Rightarrow> bool" where
  "live r \<longleftrightarrow> DeletedAt r = None"

definition update_rows :: "(UserSubscription \<Rightarrow> bool) \<Rightarrow> (UserSubscription \<Rightarrow> UserSubscription) \<Rightarrow> sub_table \<Rightarrow> sub_table" where
  "update_rows P f t = t\<lparr>sub_rows := map (\<lambda>r. if P r then f r else r) (sub_rows t)\<rparr>"

definition affected :: "(UserSubscription \<Rightarrow> bool) \<Rightarrow> sub_table \<Rightarrow> nat" where
  "affected P t = length (filter P (sub_rows t))"

text \<open>\<open>Only\<close>: exactly one row.\<close>

fun only :: "UserSubscription list \<Rightarrow> subscription_error + UserSubscription" where
  "only [] = Inl ErrSubscriptionNotFound"
| "only [r] = Inr r"
| "only _ = Inl ErrDatabase"

section \<open>The repository\<close>

definition sub_Create :: "failures \<Rightarrow> gotime \<Rightarrow> UserSubscription \<Rightarrow> sub_table \<Rightarrow> (subscription_error + UserSubscription) \<times> sub_table" where
  "sub_Create fails now sub t =
     (if fails CallCreate then (Inl ErrDatabase, t)
      else if list_ex (\<lambda>r. live r \<and> UserID r = UserID sub \<and> GroupID r = GroupID sub) (sub_rows t)
      then (Inl ErrSubscriptionAlreadyExists, t)
      else let r = sub\<lparr>SubID := next_sub_id t,
                       StartsAt := (case StartsAt sub of None \<Rightarrow> Some now | Some s \<Rightarrow> Some s),
                       SubStatus := (if SubStatus sub = [] then SubscriptionStatusActive else SubStatus sub),
                       DeletedAt := None\<rparr>
           in (Inr r, t\<lparr>sub_rows := sub_rows t @ [r], next_sub_id := next_sub_id t + 1\<rparr>))"

definition sub_GetByID :: "failures \<Rightarrow> int \<Rightarrow> sub_table \<Rightarrow> subscription_error + UserSubscription" where
  "sub_GetByID fails i t =
     (if fails CallGetByID then Inl ErrDatabase else only (filter (\<lambda>r. live r \<and> SubID r = i) (sub_rows t)))"

definition sub_GetByIDForUpdate :: "failures \<Rightarrow> int \<Rightarrow> sub_table \<Rightarrow> subscription_error + UserSubscription" where
  "sub_GetByIDForUpdate fails i t =
     (if fails CallGetForUpdate then Inl ErrDatabase else only (filter (\<lambda>r. live r \<and> SubID r = i) (sub_rows t)))"

definition sub_GetByIDIncludeDeleted :: "failures \<Rightarrow> int \<Rightarrow> sub_table \<Rightarrow> subscription_error + UserSubscription" where
  "sub_GetByIDIncludeDeleted fails i t =
     (if fails CallGetIncludeDeleted then Inl ErrDatabase else only (filter (\<lambda>r. SubID r = i) (sub_rows t)))"

definition sub_GetByUserIDAndGroupID :: "failures \<Rightarrow> int \<Rightarrow> int \<Rightarrow> sub_table \<Rightarrow> subscription_error + UserSubscription" where
  "sub_GetByUserIDAndGroupID fails u g t =
     (if fails CallGetByUserGroup then Inl ErrDatabase
      else only (filter (\<lambda>r. live r \<and> UserID r = u \<and> GroupID r = g) (sub_rows t)))"

definition sub_Exists :: "failures \<Rightarrow> int \<Rightarrow> int \<Rightarrow> sub_table \<Rightarrow> subscription_error + bool" where
  "sub_Exists fails u g t =
     (if fails CallExists then Inl ErrDatabase
      else Inr (list_ex (\<lambda>r. live r \<and> UserID r = u \<and> GroupID r = g) (sub_rows t)))"

text \<open>An update by id: the row may be soft-deleted.\<close>

definition update_one :: "bool \<Rightarrow> int \<Rightarrow> (UserSubscription \<Rightarrow> UserSubscription) \<Rightarrow> sub_table \<Rightarrow> subscription_error option \<times> sub_table" where
  "update_one db_fails i f t =
     (if db_fails then (Some ErrDatabase, t)
      else if affected (\<lambda>r. SubID r = i) t = 0 then (Some ErrSubscriptionNotFound, t)
      else (None, update_rows (\<lambda>r. SubID r = i) f t))"

text \<open>A nil window start leaves the column as it is.\<close>

definition set_nillable :: "'a option \<Rightarrow> 'a option \<Rightarrow> 'a option" where
  "set_nillable new old = (case new of None \<Rightarrow> old | Some x \<Rightarrow> Some x)"

definition written_row :: "UserSubscription \<Rightarrow> UserSubscription \<Rightarrow> UserSubscription" where
  "written_row sub r =
     r\<lparr>UserID := UserID sub, GroupID := GroupID sub, StartsAt := StartsAt sub, ExpiresAt := ExpiresAt sub,
       SubStatus := SubStatus sub,
       DailyWindowStart := set_nillable (DailyWindowStart sub) (DailyWindowStart r),
       WeeklyWindowStart := set_nillable (WeeklyWindowStart sub) (WeeklyWindowStart r),
       MonthlyWindowStart := set_nillable (MonthlyWindowStart sub) (MonthlyWindowStart r),
       DailyUsageUSD := DailyUsageUSD sub, WeeklyUsageUSD := WeeklyUsageUSD sub,
       MonthlyUsageUSD := MonthlyUsageUSD sub,
       AssignedBy := set_nillable (AssignedBy sub) (AssignedBy r), Notes := Notes sub\<rparr>"

text \<open>The unique index rejects a change of the user or group of a live row to those of another one.\<close>

definition sub_Update :: "failures \<Rightarrow> UserSubscription \<Rightarrow> sub_table \<Rightarrow> subscription_error option \<times> sub_table" where
  "sub_Update fails sub t =
     (if \<not> fails CallUpdate \<and> list_ex (\<lambda>r. live r \<and> SubID r = SubID sub) (sub_rows t) \<and>
         list_ex (\<lambda>r. live r \<and> SubID r \<noteq> SubID sub \<and> UserID r = UserID sub \<and> GroupID r = GroupID sub) (sub_rows t)
      then (Some ErrSubscriptionAlreadyExists, t)
      else update_one (fails CallUpdate) (SubID sub) (written_row sub) t)"

definition sub_ExtendExpiry :: "failures \<Rightarrow> int \<Rightarrow> gotime \<Rightarrow> sub_table \<Rightarrow> subscription_error option \<times> sub_table" where
  "sub_ExtendExpiry fails i newExpiresAt t = update_one (fails CallExtendExpiry) i (\<lambda>r. r\<lparr>ExpiresAt := newExpiresAt\<rparr>) t"

definition sub_UpdateStatus :: "failures \<Rightarrow> int \<Rightarrow> string \<Rightarrow> sub_table \<Rightarrow> subscription_error option \<times> sub_table" where
  "sub_UpdateStatus fails i status t = update_one (fails CallUpdateStatus) i (\<lambda>r. r\<lparr>SubStatus := status\<rparr>) t"

definition sub_UpdateNotes :: "failures \<Rightarrow> int \<Rightarrow> string \<Rightarrow> sub_table \<Rightarrow> subscription_error option \<times> sub_table" where
  "sub_UpdateNotes fails i notes t = update_one (fails CallUpdateNotes) i (\<lambda>r. r\<lparr>Notes := notes\<rparr>) t"

text \<open>A conditional update that affects no row is no error as long as the subscription exists.\<close>

definition conditional_update ::
    "bool \<Rightarrow> int \<Rightarrow> (UserSubscription \<Rightarrow> bool) \<Rightarrow> (UserSubscription \<Rightarrow> UserSubscription) \<Rightarrow> sub_table \<Rightarrow> subscription_error option \<times> sub_table" where
  "conditional_update db_fails i P f t =
     (if db_fails then (Some ErrDatabase, t)
      else let n = affected (\<lambda>r. SubID r = i \<and> P r) t; t' = update_rows (\<lambda>r. SubID r = i \<and> P r) f t
           in if n > 0 then (None, t')
              else if list_ex (\<lambda>r. live r \<and> SubID r = i) (sub_rows t') then (None, t')
              else (Some ErrSubscriptionNotFound, t'))"

definition sub_ActivateWindows :: "failures \<Rightarrow> int \<Rightarrow> gotime \<Rightarrow> gotime \<Rightarrow> sub_table \<Rightarrow> subscription_error option \<times> sub_table" where
  "sub_ActivateWindows fails i dailyStart periodicStart t =
     conditional_update (fails CallActivate) i
       (\<lambda>r. DailyWindowStart r = None \<and> WeeklyWindowStart r = None \<and> MonthlyWindowStart r = None)
       (\<lambda>r. r\<lparr>DailyWindowStart := Some dailyStart, WeeklyWindowStart := Some periodicStart,
              MonthlyWindowStart := Some periodicStart\<rparr>) t"

definition sub_ResetDailyUsage :: "failures \<Rightarrow> int \<Rightarrow> gotime option \<Rightarrow> gotime \<Rightarrow> sub_table \<Rightarrow> subscription_error option \<times> sub_table" where
  "sub_ResetDailyUsage fails i expectedWindowStart newWindowStart t =
     conditional_update (fails CallResetDaily) i (\<lambda>r. DailyWindowStart r = expectedWindowStart)
       (\<lambda>r. r\<lparr>DailyUsageUSD := 0, DailyWindowStart := Some newWindowStart\<rparr>) t"

definition sub_ResetWeeklyUsage :: "failures \<Rightarrow> int \<Rightarrow> gotime option \<Rightarrow> gotime \<Rightarrow> sub_table \<Rightarrow> subscription_error option \<times> sub_table" where
  "sub_ResetWeeklyUsage fails i expectedWindowStart newWindowStart t =
     conditional_update (fails CallResetWeekly) i (\<lambda>r. WeeklyWindowStart r = expectedWindowStart)
       (\<lambda>r. r\<lparr>WeeklyUsageUSD := 0, WeeklyWindowStart := Some newWindowStart\<rparr>) t"

definition sub_ResetMonthlyUsage :: "failures \<Rightarrow> int \<Rightarrow> gotime option \<Rightarrow> gotime \<Rightarrow> sub_table \<Rightarrow> subscription_error option \<times> sub_table" where
  "sub_ResetMonthlyUsage fails i expectedWindowStart newWindowStart t =
     conditional_update (fails CallResetMonthly) i (\<lambda>r. MonthlyWindowStart r = expectedWindowStart)
       (\<lambda>r. r\<lparr>MonthlyUsageUSD := 0, MonthlyWindowStart := Some newWindowStart\<rparr>) t"

definition sub_ResetUsageWindows ::
    "failures \<Rightarrow> int \<Rightarrow> bool \<Rightarrow> bool \<Rightarrow> bool \<Rightarrow> gotime \<Rightarrow> gotime \<Rightarrow> sub_table \<Rightarrow> subscription_error option \<times> sub_table" where
  "sub_ResetUsageWindows fails i resetDaily resetWeekly resetMonthly dailyStart periodicStart t =
     update_one (fails CallResetUsage) i
       (\<lambda>r. let r = (if resetDaily then r\<lparr>DailyUsageUSD := 0, DailyWindowStart := Some dailyStart\<rparr> else r);
                r = (if resetWeekly then r\<lparr>WeeklyUsageUSD := 0, WeeklyWindowStart := Some periodicStart\<rparr> else r)
            in if resetMonthly then r\<lparr>MonthlyUsageUSD := 0, MonthlyWindowStart := Some periodicStart\<rparr> else r) t"

text \<open>\<open>group_live\<close>: the groups that are not deleted.\<close>

definition sub_IncrementUsage :: "failures \<Rightarrow> (int \<Rightarrow> bool) \<Rightarrow> int \<Rightarrow> rat \<Rightarrow> sub_table \<Rightarrow> subscription_error option \<times> sub_table" where
  "sub_IncrementUsage fails group_live i costUSD t =
     (let P = (\<lambda>r. SubID r = i \<and> live r \<and> group_live (GroupID r))
      in if fails CallIncrement then (Some ErrDatabase, t)
         else if affected P t > 0 then
           (None, update_rows P (\<lambda>r. r\<lparr>DailyUsageUSD := DailyUsageUSD r + costUSD, WeeklyUsageUSD := WeeklyUsageUSD r + costUSD,
              MonthlyUsageUSD := MonthlyUsageUSD r + costUSD\<rparr>) t)
         else (Some ErrSubscriptionNotFound, t))"

definition sub_BatchUpdateExpiredStatus :: "gotime \<Rightarrow> sub_table \<Rightarrow> nat \<times> sub_table" where
  "sub_BatchUpdateExpiredStatus now t =
     (let P = (\<lambda>r. SubStatus r = SubscriptionStatusActive \<and> ExpiresAt r \<le> now)
      in (affected P t, update_rows P (\<lambda>r. r\<lparr>SubStatus := SubscriptionStatusExpired\<rparr>) t))"

definition sub_Delete :: "failures \<Rightarrow> gotime \<Rightarrow> int \<Rightarrow> sub_table \<Rightarrow> subscription_error option \<times> sub_table" where
  "sub_Delete fails now i t =
     (if fails CallDelete then (Some ErrDatabase, t)
      else (None, update_rows (\<lambda>r. SubID r = i \<and> live r) (\<lambda>r. r\<lparr>DeletedAt := Some now\<rparr>) t))"

text \<open>Restoring a row runs into the unique index when another row of user and group is live.\<close>

definition sub_Restore :: "failures \<Rightarrow> int \<Rightarrow> string \<Rightarrow> sub_table \<Rightarrow> (subscription_error + UserSubscription) \<times> sub_table" where
  "sub_Restore fails i restoredStatus t =
     (if fails CallRestore then (Inl ErrDatabase, t)
      else case filter (\<lambda>r. SubID r = i) (sub_rows t) of
             [] \<Rightarrow> (Inl ErrSubscriptionNotFound, t)
           | r # _ \<Rightarrow>
               if list_ex (\<lambda>x. live x \<and> SubID x \<noteq> i \<and> UserID x = UserID r \<and> GroupID x = GroupID r) (sub_rows t)
               then (Inl ErrSubscriptionRestoreConflict, t)
               else let t' = update_rows (\<lambda>r. SubID r = i) (\<lambda>r. r\<lparr>SubStatus := restoredStatus, DeletedAt := None\<rparr>) t
                    in (sub_GetByID fails i t', t'))"

section \<open>Rows and updates\<close>

definition row_of :: "int \<Rightarrow> sub_table \<Rightarrow> UserSubscription option" where
  "row_of i t = find (\<lambda>r. SubID r = i) (sub_rows t)"

definition distinct_ids :: "sub_table \<Rightarrow> bool" where
  "distinct_ids t \<longleftrightarrow> distinct (map SubID (sub_rows t))"

lemma row_of_SomeD: "row_of i t = Some r \<Longrightarrow> r \<in> set (sub_rows t) \<and> SubID r = i"
  by (auto simp: row_of_def find_Some_iff)

lemma row_of_unique:
  assumes "distinct_ids t" "row_of i t = Some r" "x \<in> set (sub_rows t)" "SubID x = i"
  shows "x = r"
  using assms row_of_SomeD[of i t r] by (auto simp: distinct_ids_def distinct_map dest: inj_onD)

lemma find_map_id:
  assumes "\<And>r. SubID (g r) = SubID r"
  shows "find (\<lambda>r. SubID r = i) (map g rs) = map_option g (find (\<lambda>r. SubID r = i) rs)"
  by (induction rs) (simp_all add: assms)

lemma row_of_update_rows:
  assumes "\<And>r. SubID (f r) = SubID r"
  shows "row_of i (update_rows P f t) = map_option (\<lambda>r. if P r then f r else r) (row_of i t)"
  unfolding row_of_def update_rows_def by (simp add: find_map_id assms)

lemma distinct_ids_update_rows:
  assumes "\<And>r. SubID (f r) = SubID r"
  shows "distinct_ids (update_rows P f t) = distinct_ids t"
proof -
  have "map SubID (sub_rows (update_rows P f t)) = map SubID (sub_rows t)" by (simp add: update_rows_def assms)
  then show ?thesis by (simp add: distinct_ids_def)
qed

lemma affected_pos: "0 < affected P t \<longleftrightarrow> (\<exists>r \<in> set (sub_rows t). P r)"
  by (auto simp: affected_def filter_empty_conv)

lemma update_rows_none: "affected P t = 0 \<Longrightarrow> update_rows P f t = t"
proof -
  assume "affected P t = 0"
  then have "\<forall>r \<in> set (sub_rows t). \<not> P r" using affected_pos[of P t] by simp
  then have "map (\<lambda>r. if P r then f r else r) (sub_rows t) = sub_rows t" by (simp add: map_idI)
  then show ?thesis by (simp add: update_rows_def)
qed

lemma update_one_table: "snd (update_one b i f t) = (if b then t else update_rows (\<lambda>r. SubID r = i) f t)"
  by (simp add: update_one_def update_rows_none)

lemma update_one_ok: "update_one b i f t = (None, t') \<Longrightarrow> t' = update_rows (\<lambda>r. SubID r = i) f t"
  by (auto simp: update_one_def split: if_splits)

lemma conditional_update_table:
  "snd (conditional_update b i P f t) = (if b then t else update_rows (\<lambda>r. SubID r = i \<and> P r) f t)"
  by (simp add: conditional_update_def Let_def)

lemma conditional_update_ok:
  "conditional_update b i P f t = (None, t') \<Longrightarrow> t' = update_rows (\<lambda>r. SubID r = i \<and> P r) f t"
  by (auto simp: conditional_update_def Let_def split: if_splits)

lemma filter_id:
  assumes "distinct_ids t"
  shows "filter (\<lambda>r. SubID r = i) (sub_rows t) = (case row_of i t of None \<Rightarrow> [] | Some r \<Rightarrow> [r])"
proof -
  have "distinct (map SubID rs) \<Longrightarrow>
    filter (\<lambda>r. SubID r = i) rs = (case find (\<lambda>r. SubID r = i) rs of None \<Rightarrow> [] | Some r \<Rightarrow> [r])" for rs
  proof (induction rs)
    case (Cons a rs)
    show ?case
    proof (cases "SubID a = i")
      case True
      then have "\<forall>r \<in> set rs. SubID r \<noteq> i" using Cons.prems by (auto simp: image_iff)
      then have "filter (\<lambda>r. SubID r = i) rs = []" by (simp add: filter_empty_conv)
      then show ?thesis using True by simp
    qed (use Cons in simp)
  qed simp
  then show ?thesis using assms by (simp add: distinct_ids_def row_of_def)
qed

lemma GetByID_eq:
  assumes "distinct_ids t"
  shows "sub_GetByID fails i t =
    (if fails CallGetByID then Inl ErrDatabase
     else case row_of i t of None \<Rightarrow> Inl ErrSubscriptionNotFound
          | Some r \<Rightarrow> if live r then Inr r else Inl ErrSubscriptionNotFound)"
proof -
  have "filter (\<lambda>r. live r \<and> SubID r = i) (sub_rows t) = filter live (case row_of i t of None \<Rightarrow> [] | Some r \<Rightarrow> [r])"
    unfolding filter_id[OF assms, symmetric] filter_filter by (rule filter_cong) auto
  then show ?thesis by (simp add: sub_GetByID_def split: option.split)
qed

lemma GetByID_iff:
  assumes "distinct_ids t"
  shows "sub_GetByID fails i t = Inr x \<longleftrightarrow> \<not> fails CallGetByID \<and> row_of i t = Some x \<and> live x"
  unfolding GetByID_eq[OF assms] by (auto split: option.split)

text \<open>A table for the examples.\<close>

definition demo_table :: sub_table where
  "demo_table = \<lparr>sub_rows = [demo_subscription], next_sub_id = 2\<rparr>"

lemma demo_sane: "sane_times demo_subscription" "sane_time (week + 5)"
  by (simp_all add: demo_subscription_def sane_times_def sane_time_def week_def Hour_def)

lemma demo_row: "distinct_ids demo_table" "row_of 1 demo_table = Some demo_subscription" "SubID demo_subscription = 1"
  by (simp_all add: demo_table_def distinct_ids_def row_of_def demo_subscription_def)

end
