(* ===== verification/SubscriptionService.thy ===== *)
theory SubscriptionService
  imports SubscriptionStore
begin

text \<open>
  The operations of \<open>service/subscription_service.go\<close> on the table of subscriptions: assignment, renewal,
  adjustment, revocation, window maintenance and the checks before a request, with the use the middleware
  makes of them (\<open>server/middleware/api_key_auth.go\<close>). A transaction is one step that leaves the table as it
  was when it fails. Caches are left out: what they can do is to hand out old snapshots. Each reading of the
  clock is an argument; the groups are a function.
\<close>

section \<open>Terms\<close>

definition MaxExpiresAt :: gotime where "MaxExpiresAt = 4102444799 * Second"
definition MaxValidityDays :: int where "MaxValidityDays = 36500"

record AssignSubscriptionInput =
  InUserID :: int
  InGroupID :: int
  InValidityDays :: int
  InAssignedBy :: int
  InNotes :: string

definition normalizeAssignValidityDays :: "int \<Rightarrow> int" where
  "normalizeAssignValidityDays days =
     (let days = (if days \<le> 0 then 30 else days) in if days > MaxValidityDays then MaxValidityDays else days)"

definition cap_expiry :: "gotime \<Rightarrow> gotime" where
  "cap_expiry e = (if e > MaxExpiresAt then MaxExpiresAt else e)"

definition appendSubscriptionNotes :: "string \<Rightarrow> string \<Rightarrow> string" where
  "appendSubscriptionNotes existingNotes newNotes =
     (if newNotes = [] then existingNotes
      else if existingNotes = [] then newNotes
      else existingNotes @ [CHR 0x0A] @ newNotes)"

definition renewedSubscriptionTerm ::
    "calendar_fns \<Rightarrow> UserSubscription \<Rightarrow> string \<Rightarrow> gotime \<Rightarrow> gotime \<Rightarrow> UserSubscription" where
  "renewedSubscriptionTerm cal existingSub notes startsAt expiresAt =
     existingSub\<lparr>StartsAt := Some startsAt, ExpiresAt := expiresAt, SubStatus := SubscriptionStatusActive,
       DailyWindowStart := Some (StartOfDay cal startsAt), WeeklyWindowStart := Some startsAt,
       MonthlyWindowStart := Some startsAt, DailyUsageUSD := 0, WeeklyUsageUSD := 0, MonthlyUsageUSD := 0,
       Notes := appendSubscriptionNotes (Notes existingSub) notes\<rparr>"

text \<open>\<open>joins\<close>: the context carries an outer transaction, or there is no client.\<close>

definition withSubscriptionUpdateTx ::
    "failures \<Rightarrow> bool \<Rightarrow> (sub_table \<Rightarrow> subscription_error option \<times> sub_table) \<Rightarrow> sub_table \<Rightarrow> subscription_error option \<times> sub_table" where
  "withSubscriptionUpdateTx fails joins body t =
     (if joins then body t
      else if fails CallBegin then (Some ErrDatabase, t)
      else case body t of
             (Some e, _) \<Rightarrow> (Some e, t)
           | (None, t') \<Rightarrow> if fails CallCommit then (Some ErrDatabase, t) else (None, t'))"

definition then_do :: "subscription_error option \<times> sub_table \<Rightarrow> (sub_table \<Rightarrow> subscription_error option \<times> sub_table) \<Rightarrow> subscription_error option \<times> sub_table" where
  "then_do r k = (case r of (Some e, t) \<Rightarrow> (Some e, t) | (None, t) \<Rightarrow> k t)"

definition update_existing_body ::
    "failures \<Rightarrow> calendar_fns \<Rightarrow> gotime \<Rightarrow> int \<Rightarrow> int \<Rightarrow> string \<Rightarrow> bool \<Rightarrow> sub_table \<Rightarrow> subscription_error option \<times> sub_table" where
  "update_existing_body fails cal now subscriptionID validityDays notes assignmentSemantics t =
     (case sub_GetByIDForUpdate fails subscriptionID t of
        Inl e \<Rightarrow> (Some e, t)
      | Inr existingSub \<Rightarrow>
          if assignmentSemantics \<and> SubStatus existingSub = SubscriptionStatusSuspended then (None, t)
          else
            let isExpired = (if assignmentSemantics
                             then SubStatus existingSub = SubscriptionStatusExpired \<or>
                                  SubStatus existingSub \<noteq> SubscriptionStatusSuspended \<and> \<not> ExpiresAt existingSub > now
                             else \<not> ExpiresAt existingSub > now);
                newExpiresAt = cap_expiry (if isExpired then AddDays cal now validityDays
                                           else AddDays cal (ExpiresAt existingSub) validityDays);
                notes = (if assignmentSemantics \<and> TrimSpace (Notes existingSub) = TrimSpace notes then [] else notes)
            in if isExpired
               then sub_Update fails (renewedSubscriptionTerm cal existingSub notes now newExpiresAt) t
               else then_do (sub_ExtendExpiry fails (SubID existingSub) newExpiresAt t) (\<lambda>t.
                    then_do (if SubStatus existingSub \<noteq> SubscriptionStatusActive
                             then sub_UpdateStatus fails (SubID existingSub) SubscriptionStatusActive t else (None, t)) (\<lambda>t.
                    if notes \<noteq> []
                    then sub_UpdateNotes fails (SubID existingSub) (appendSubscriptionNotes (Notes existingSub) notes) t
                    else (None, t))))"

definition updateExistingSubscriptionTerm ::
    "failures \<Rightarrow> bool \<Rightarrow> calendar_fns \<Rightarrow> gotime \<Rightarrow> int \<Rightarrow> int \<Rightarrow> string \<Rightarrow> bool \<Rightarrow> sub_table \<Rightarrow> subscription_error option \<times> sub_table" where
  "updateExistingSubscriptionTerm fails joins cal now subscriptionID validityDays notes assignmentSemantics =
     withSubscriptionUpdateTx fails joins (update_existing_body fails cal now subscriptionID validityDays notes assignmentSemantics)"

definition createSubscription ::
    "failures \<Rightarrow> calendar_fns \<Rightarrow> gotime \<Rightarrow> AssignSubscriptionInput \<Rightarrow> sub_table \<Rightarrow> (subscription_error + UserSubscription) \<times> sub_table" where
  "createSubscription fails cal now input t =
     (let sub = \<lparr>SubID = 0, UserID = InUserID input, GroupID = InGroupID input, StartsAt = Some now,
                 ExpiresAt = cap_expiry (AddDays cal now (normalizeAssignValidityDays (InValidityDays input))),
                 SubStatus = SubscriptionStatusActive,
                 DailyWindowStart = None, WeeklyWindowStart = None, MonthlyWindowStart = None,
                 DailyUsageUSD = 0, WeeklyUsageUSD = 0, MonthlyUsageUSD = 0,
                 AssignedBy = (if InAssignedBy input > 0 then Some (InAssignedBy input) else None),
                 Notes = InNotes input, DeletedAt = None\<rparr>
      in case sub_Create fails now sub t of
           (Inl e, t) \<Rightarrow> (Inl e, t)
         | (Inr sub, t) \<Rightarrow> (sub_GetByID fails (SubID sub) t, t))"

type_synonym groups = "int \<Rightarrow> Group option"

definition subscription_group :: "failures \<Rightarrow> groups \<Rightarrow> int \<Rightarrow> subscription_error option" where
  "subscription_group fails groups i =
     (if fails CallGroup then Some ErrDatabase
      else case groups i of None \<Rightarrow> Some ErrGroupNotFound
           | Some g \<Rightarrow> if \<not> IsSubscriptionType g then Some ErrGroupNotSubscriptionType else None)"

definition assignOrExtendSubscription ::
    "failures \<Rightarrow> bool \<Rightarrow> calendar_fns \<Rightarrow> groups \<Rightarrow> gotime \<Rightarrow> AssignSubscriptionInput \<Rightarrow> sub_table \<Rightarrow> (subscription_error + UserSubscription \<times> bool) \<times> sub_table" where
  "assignOrExtendSubscription fails joins cal groups now input t =
     (case subscription_group fails groups (InGroupID input) of
        Some e \<Rightarrow> (Inl e, t)
      | None \<Rightarrow>
          case sub_GetByUserIDAndGroupID fails (InUserID input) (InGroupID input) t of
            Inr existingSub \<Rightarrow>
              (case updateExistingSubscriptionTerm fails joins cal now (SubID existingSub)
                      (normalizeAssignValidityDays (InValidityDays input)) (InNotes input) False t of
                 (Some e, t) \<Rightarrow> (Inl e, t)
               | (None, t) \<Rightarrow>
                   (case sub_GetByID fails (SubID existingSub) t of Inl e \<Rightarrow> Inl e | Inr sub \<Rightarrow> Inr (sub, True), t))
          | Inl _ \<Rightarrow>
              (case createSubscription fails cal now input t of
                 (Inl e, t) \<Rightarrow> (Inl e, t)
               | (Inr sub, t) \<Rightarrow> (Inr (sub, False), t)))"

definition detectAssignSemanticConflict :: "calendar_fns \<Rightarrow> UserSubscription \<Rightarrow> AssignSubscriptionInput \<Rightarrow> string option" where
  "detectAssignSemanticConflict cal existing input =
     (let normalizedDays = normalizeAssignValidityDays (InValidityDays input);
          mismatch = (case StartsAt existing of None \<Rightarrow> False
                      | Some starts \<Rightarrow> ExpiresAt existing \<noteq> cap_expiry (AddDays cal starts normalizedDays))
      in if mismatch then Some ''validity_days_mismatch''
         else if TrimSpace (Notes existing) \<noteq> TrimSpace (InNotes input) then Some ''notes_mismatch''
         else None)"

text \<open>\<open>now\<close> is the clock of the check, \<open>now'\<close> that of the renewal inside the transaction.\<close>

definition assignSubscriptionWithReuse ::
    "failures \<Rightarrow> bool \<Rightarrow> calendar_fns \<Rightarrow> groups \<Rightarrow> gotime \<Rightarrow> gotime \<Rightarrow> AssignSubscriptionInput \<Rightarrow> sub_table \<Rightarrow> (subscription_error + UserSubscription \<times> bool) \<times> sub_table" where
  "assignSubscriptionWithReuse fails joins cal groups now now' input t =
     (case subscription_group fails groups (InGroupID input) of
        Some e \<Rightarrow> (Inl e, t)
      | None \<Rightarrow>
          case sub_Exists fails (InUserID input) (InGroupID input) t of
            Inl e \<Rightarrow> (Inl e, t)
          | Inr True \<Rightarrow>
              (case sub_GetByUserIDAndGroupID fails (InUserID input) (InGroupID input) t of
                 Inl e \<Rightarrow> (Inl e, t)
               | Inr sub \<Rightarrow>
                   if SubStatus sub = SubscriptionStatusExpired \<or>
                      SubStatus sub \<noteq> SubscriptionStatusSuspended \<and> \<not> ExpiresAt sub > now
                   then (case updateExistingSubscriptionTerm fails joins cal now' (SubID sub)
                                (normalizeAssignValidityDays (InValidityDays input)) (InNotes input) True t of
                           (Some e, t) \<Rightarrow> (Inl e, t)
                         | (None, t) \<Rightarrow>
                             (case sub_GetByID fails (SubID sub) t of Inl e \<Rightarrow> Inl e | Inr sub \<Rightarrow> Inr (sub, True), t))
                   else case detectAssignSemanticConflict cal sub input of
                          Some conflictReason \<Rightarrow> (Inl (ErrSubscriptionAssignConflict conflictReason), t)
                        | None \<Rightarrow> (Inr (sub, True), t))
          | Inr False \<Rightarrow>
              (case createSubscription fails cal now' input t of
                 (Inl e, t) \<Rightarrow> (Inl e, t)
               | (Inr sub, t) \<Rightarrow> (Inr (sub, False), t)))"

section \<open>Revocation and adjustment\<close>

text \<open>The errors of the invalidation of the caches, which come after the change, are left out.\<close>

definition RevokeSubscription :: "failures \<Rightarrow> gotime \<Rightarrow> int \<Rightarrow> sub_table \<Rightarrow> subscription_error option \<times> sub_table" where
  "RevokeSubscription fails now subscriptionID t =
     (case sub_GetByID fails subscriptionID t of
        Inl e \<Rightarrow> (Some e, t)
      | Inr _ \<Rightarrow> sub_Delete fails now subscriptionID t)"

definition RestoreSubscription :: "failures \<Rightarrow> gotime \<Rightarrow> int \<Rightarrow> sub_table \<Rightarrow> (subscription_error + UserSubscription) \<times> sub_table" where
  "RestoreSubscription fails now subscriptionID t =
     (case sub_GetByIDIncludeDeleted fails subscriptionID t of
        Inl e \<Rightarrow> (Inl e, t)
      | Inr sub \<Rightarrow>
          if DeletedAt sub = None then (Inl ErrSubscriptionNotRevoked, t)
          else case sub_Exists fails (UserID sub) (GroupID sub) t of
                 Inl e \<Rightarrow> (Inl e, t)
               | Inr True \<Rightarrow> (Inl ErrSubscriptionRestoreConflict, t)
               | Inr False \<Rightarrow>
                   sub_Restore fails subscriptionID
                     (if SubStatus sub = SubscriptionStatusActive \<and> \<not> ExpiresAt sub > now
                      then SubscriptionStatusExpired else SubStatus sub) t)"

definition extend_body ::
    "failures \<Rightarrow> calendar_fns \<Rightarrow> gotime \<Rightarrow> int \<Rightarrow> int \<Rightarrow> sub_table \<Rightarrow> subscription_error option \<times> sub_table" where
  "extend_body fails cal now subscriptionID days t =
     (case sub_GetByIDForUpdate fails subscriptionID t of
        Inl _ \<Rightarrow> (Some ErrSubscriptionNotFound, t)
      | Inr sub \<Rightarrow>
          let days = (if days > MaxValidityDays then MaxValidityDays else days);
              days = (if days < - MaxValidityDays then - MaxValidityDays else days);
              isExpired = (\<not> ExpiresAt sub > now)
          in if isExpired \<and> days < 0 then (Some ErrCannotShortenExpired, t)
             else let newExpiresAt = cap_expiry (if isExpired then AddDays cal now days else AddDays cal (ExpiresAt sub) days)
                  in if \<not> newExpiresAt > now then (Some ErrAdjustWouldExpire, t)
                     else then_do (sub_ExtendExpiry fails subscriptionID newExpiresAt t) (\<lambda>t.
                          if SubStatus sub = SubscriptionStatusExpired
                          then sub_UpdateStatus fails subscriptionID SubscriptionStatusActive t else (None, t)))"

definition ExtendSubscription ::
    "failures \<Rightarrow> bool \<Rightarrow> calendar_fns \<Rightarrow> gotime \<Rightarrow> int \<Rightarrow> int \<Rightarrow> sub_table \<Rightarrow> (subscription_error + UserSubscription) \<times> sub_table" where
  "ExtendSubscription fails joins cal now subscriptionID days t =
     (case withSubscriptionUpdateTx fails joins (extend_body fails cal now subscriptionID days) t of
        (Some e, t) \<Rightarrow> (Inl e, t)
      | (None, t) \<Rightarrow> (sub_GetByID fails subscriptionID t, t))"

section \<open>Window maintenance\<close>

definition CheckAndActivateWindow ::
    "failures \<Rightarrow> calendar_fns \<Rightarrow> gotime \<Rightarrow> UserSubscription \<Rightarrow> sub_table \<Rightarrow> subscription_error option \<times> sub_table" where
  "CheckAndActivateWindow fails cal now sub t =
     (if IsWindowActivated sub then (None, t) else sub_ActivateWindows fails (SubID sub) (StartOfDay cal now) now t)"

text \<open>The row is read back after the reset; that call can fail on its own (\<open>CallReread\<close>).\<close>

definition AdminResetQuota ::
    "failures \<Rightarrow> calendar_fns \<Rightarrow> gotime \<Rightarrow> int \<Rightarrow> bool \<Rightarrow> bool \<Rightarrow> bool \<Rightarrow> sub_table \<Rightarrow> (subscription_error + UserSubscription) \<times> sub_table" where
  "AdminResetQuota fails cal now subscriptionID resetDaily resetWeekly resetMonthly t =
     (if \<not> resetDaily \<and> \<not> resetWeekly \<and> \<not> resetMonthly then (Inl ErrInvalidInput, t)
      else case sub_GetByID fails subscriptionID t of
             Inl e \<Rightarrow> (Inl e, t)
           | Inr sub \<Rightarrow>
               (case sub_ResetUsageWindows fails (SubID sub) resetDaily resetWeekly resetMonthly (StartOfDay cal now) now t of
                  (Some e, t) \<Rightarrow> (Inl e, t)
                | (None, t) \<Rightarrow> (sub_GetByID (fails(CallGetByID := fails CallReread)) subscriptionID t, t)))"

text \<open>The three blocks of \<open>CheckAndResetWindows\<close>; each also updates the subscription in memory.\<close>

type_synonym maintenance = "subscription_error option \<times> UserSubscription \<times> sub_table"

definition reset_daily_if_due :: "failures \<Rightarrow> calendar_fns \<Rightarrow> gotime \<Rightarrow> UserSubscription \<Rightarrow> sub_table \<Rightarrow> maintenance" where
  "reset_daily_if_due fails cal now sub t =
     (case automaticDailyWindowStartAt cal sub now of
        None \<Rightarrow> (None, sub, t)
      | Some windowStart \<Rightarrow>
          (case sub_ResetDailyUsage fails (SubID sub) (DailyWindowStart sub) windowStart t of
             (Some e, t) \<Rightarrow> (Some e, sub, t)
           | (None, t) \<Rightarrow> (None, sub\<lparr>DailyWindowStart := Some windowStart, DailyUsageUSD := 0\<rparr>, t)))"

definition reset_weekly_if_due :: "failures \<Rightarrow> calendar_fns \<Rightarrow> gotime \<Rightarrow> UserSubscription \<Rightarrow> sub_table \<Rightarrow> maintenance" where
  "reset_weekly_if_due fails cal now sub t =
     (case automaticWindowStartAt cal sub (WeeklyWindowStart sub) week now of
        None \<Rightarrow> (None, sub, t)
      | Some windowStart \<Rightarrow>
          (case sub_ResetWeeklyUsage fails (SubID sub) (WeeklyWindowStart sub) windowStart t of
             (Some e, t) \<Rightarrow> (Some e, sub, t)
           | (None, t) \<Rightarrow> (None, sub\<lparr>WeeklyWindowStart := Some windowStart, WeeklyUsageUSD := 0\<rparr>, t)))"

definition reset_monthly_if_due :: "failures \<Rightarrow> calendar_fns \<Rightarrow> gotime \<Rightarrow> UserSubscription \<Rightarrow> sub_table \<Rightarrow> maintenance" where
  "reset_monthly_if_due fails cal now sub t =
     (case automaticWindowStartAt cal sub (MonthlyWindowStart sub) month now of
        None \<Rightarrow> (None, sub, t)
      | Some windowStart \<Rightarrow>
          (case sub_ResetMonthlyUsage fails (SubID sub) (MonthlyWindowStart sub) windowStart t of
             (Some e, t) \<Rightarrow> (Some e, sub, t)
           | (None, t) \<Rightarrow> (None, sub\<lparr>MonthlyWindowStart := Some windowStart, MonthlyUsageUSD := 0\<rparr>, t)))"

definition CheckAndResetWindows :: "failures \<Rightarrow> calendar_fns \<Rightarrow> gotime \<Rightarrow> UserSubscription \<Rightarrow> sub_table \<Rightarrow> maintenance" where
  "CheckAndResetWindows fails cal now sub t =
     (case reset_daily_if_due fails cal now sub t of
        (Some e, sub, t) \<Rightarrow> (Some e, sub, t)
      | (None, sub, t) \<Rightarrow>
          (case reset_weekly_if_due fails cal now sub t of
             (Some e, sub, t) \<Rightarrow> (Some e, sub, t)
           | (None, sub, t) \<Rightarrow> reset_monthly_if_due fails cal now sub t))"

text \<open>\<open>now\<close> and \<open>now'\<close>: the clock at the activation and at the resets.\<close>

definition EnsureWindowMaintenance ::
    "failures \<Rightarrow> calendar_fns \<Rightarrow> gotime \<Rightarrow> gotime \<Rightarrow> UserSubscription \<Rightarrow> sub_table \<Rightarrow> (subscription_error + UserSubscription) \<times> sub_table" where
  "EnsureWindowMaintenance fails cal now now' sub t =
     (case CheckAndActivateWindow fails cal now sub t of
        (Some e, t) \<Rightarrow> (Inl e, t)
      | (None, t) \<Rightarrow>
          (case CheckAndResetWindows fails cal now' sub t of
             (Some e, _, t) \<Rightarrow> (Inl e, t)
           | (None, sub, t) \<Rightarrow> (sub_GetByID fails (SubID sub) t, t)))"

text \<open>The variant in the background logs the errors.\<close>

definition doWindowMaintenance :: "failures \<Rightarrow> calendar_fns \<Rightarrow> gotime \<Rightarrow> gotime \<Rightarrow> UserSubscription \<Rightarrow> sub_table \<Rightarrow> sub_table" where
  "doWindowMaintenance fails cal now now' sub t =
     (let t = snd (CheckAndActivateWindow fails cal now sub t)
      in snd (snd (CheckAndResetWindows fails cal now' sub t)))"

section \<open>Checks\<close>

definition CheckUsageLimits :: "UserSubscription \<Rightarrow> Group \<Rightarrow> rat \<Rightarrow> subscription_error option" where
  "CheckUsageLimits sub g additionalCost =
     (if \<not> CheckDailyLimit sub g additionalCost then Some ErrDailyLimitExceeded
      else if \<not> CheckWeeklyLimit sub g additionalCost then Some ErrWeeklyLimitExceeded
      else if \<not> CheckMonthlyLimit sub g additionalCost then Some ErrMonthlyLimitExceeded
      else None)"

definition corrected_usage :: "calendar_fns \<Rightarrow> gotime \<Rightarrow> UserSubscription \<Rightarrow> UserSubscription" where
  "corrected_usage cal now sub =
     (let sub = (if canAutomaticallyResetDailyAt cal sub now then sub\<lparr>DailyUsageUSD := 0\<rparr> else sub);
          sub = (if canAutomaticallyResetWeeklyAt cal sub now then sub\<lparr>WeeklyUsageUSD := 0\<rparr> else sub)
      in if canAutomaticallyResetMonthlyAt cal sub now then sub\<lparr>MonthlyUsageUSD := 0\<rparr> else sub)"

definition needs_maintenance :: "calendar_fns \<Rightarrow> gotime \<Rightarrow> UserSubscription \<Rightarrow> bool" where
  "needs_maintenance cal now sub \<longleftrightarrow>
     canAutomaticallyResetDailyAt cal sub now \<or> canAutomaticallyResetWeeklyAt cal sub now \<or>
     canAutomaticallyResetMonthlyAt cal sub now \<or> \<not> IsWindowActivated sub"

text \<open>The subscription in memory after the call, whether the windows need maintenance, and the verdict.\<close>

definition ValidateAndCheckLimits ::
    "calendar_fns \<Rightarrow> gotime \<Rightarrow> UserSubscription \<Rightarrow> Group \<Rightarrow> UserSubscription \<times> bool \<times> subscription_error option" where
  "ValidateAndCheckLimits cal now sub g =
     (if SubStatus sub = SubscriptionStatusExpired then (sub, False, Some ErrSubscriptionExpired)
      else if SubStatus sub = SubscriptionStatusSuspended then (sub, False, Some ErrSubscriptionSuspended)
      else if \<not> ExpiresAt sub > now then (sub, False, Some ErrSubscriptionExpired)
      else (corrected_usage cal now sub, needs_maintenance cal now sub, CheckUsageLimits (corrected_usage cal now sub) g 0))"

definition ValidateSubscription :: "failures \<Rightarrow> gotime \<Rightarrow> UserSubscription \<Rightarrow> sub_table \<Rightarrow> subscription_error option \<times> sub_table" where
  "ValidateSubscription fails now sub t =
     (if SubStatus sub = SubscriptionStatusExpired then (Some ErrSubscriptionExpired, t)
      else if SubStatus sub = SubscriptionStatusSuspended then (Some ErrSubscriptionSuspended, t)
      else if sub_IsExpired sub now
      then (Some ErrSubscriptionExpired, snd (sub_UpdateStatus fails (SubID sub) SubscriptionStatusExpired t))
      else (None, t))"

text \<open>The check of the middleware. \<open>clock\<close> gives its four readings: validation, activation, resets, and the
  second validation.\<close>

definition check_subscription ::
    "failures \<Rightarrow> calendar_fns \<Rightarrow> (nat \<Rightarrow> gotime) \<Rightarrow> UserSubscription \<Rightarrow> Group \<Rightarrow> sub_table \<Rightarrow> (subscription_error + UserSubscription) \<times> sub_table" where
  "check_subscription fails cal clock subscription g t =
     (case ValidateAndCheckLimits cal (clock 0) subscription g of
        (subscription, False, None) \<Rightarrow> (Inr subscription, t)
      | (subscription, False, Some e) \<Rightarrow> (Inl e, t)
      | (subscription, True, _) \<Rightarrow>
          (case EnsureWindowMaintenance fails cal (clock 1) (clock 2) subscription t of
             (Inl e, t) \<Rightarrow> (Inl e, t)
           | (Inr refreshed, t) \<Rightarrow>
               (case ValidateAndCheckLimits cal (clock 3) refreshed g of
                  (refreshed, _, None) \<Rightarrow> (Inr refreshed, t)
                | (refreshed, _, Some e) \<Rightarrow> (Inl e, t))))"

text \<open>What the listings show: windows that have ended are blanked, overdue subscriptions shown as expired.\<close>

definition normalize_windows_of :: "calendar_fns \<Rightarrow> gotime \<Rightarrow> UserSubscription \<Rightarrow> UserSubscription" where
  "normalize_windows_of cal now sub =
     (let sub = (if canAutomaticallyResetDailyAt cal sub now then sub\<lparr>DailyWindowStart := None, DailyUsageUSD := 0\<rparr> else sub);
          sub = (if canAutomaticallyResetWeeklyAt cal sub now then sub\<lparr>WeeklyWindowStart := None, WeeklyUsageUSD := 0\<rparr> else sub)
      in if canAutomaticallyResetMonthlyAt cal sub now then sub\<lparr>MonthlyWindowStart := None, MonthlyUsageUSD := 0\<rparr> else sub)"

definition normalizeExpiredWindowsAt :: "calendar_fns \<Rightarrow> gotime \<Rightarrow> UserSubscription list \<Rightarrow> UserSubscription list" where
  "normalizeExpiredWindowsAt cal now subs = map (normalize_windows_of cal now) subs"

definition normalizeSubscriptionStatus :: "gotime \<Rightarrow> UserSubscription list \<Rightarrow> UserSubscription list" where
  "normalizeSubscriptionStatus now subs =
     map (\<lambda>sub. if SubStatus sub = SubscriptionStatusActive \<and> \<not> ExpiresAt sub > now
                then sub\<lparr>SubStatus := SubscriptionStatusExpired\<rparr> else sub) subs"

end
