(* ===== verification/SubscriptionCharges.thy ===== *)
theory SubscriptionCharges
  imports SubscriptionService
begin

text \<open>
  Charges and window resets that interleave: what \<open>IncrementUsage\<close>, the activation and the conditional resets of
  \<open>repository/user_subscription_repo.go\<close> guarantee together when concurrent requests, background maintenance and
  administrators issue them, with resets computed by \<open>service/subscription_service.go\<close> from old snapshots.
\<close>

section \<open>Charges and windows\<close>

text \<open>
  The statements that concurrent requests, background maintenance and administrators issue. A reset is computed
  from a snapshot \<open>s\<close> of any age, by the code's own blocks; nothing is assumed about it but sane times.
\<close>

datatype sub_event =
    Charge failures int rat
  | Activate failures gotime UserSubscription
  | ResetDaily failures gotime UserSubscription
  | ResetWeekly failures gotime UserSubscription
  | ResetMonthly failures gotime UserSubscription
  | AdminReset failures gotime int bool bool bool
  | Adjust failures bool gotime int int
  | Revoke failures gotime int
  | MarkExpired gotime

fun sub_step :: "calendar_fns \<Rightarrow> (int \<Rightarrow> bool) \<Rightarrow> sub_event \<Rightarrow> sub_table \<Rightarrow> sub_table" where
  "sub_step cal group_live (Charge fails i c) t = snd (sub_IncrementUsage fails group_live i c t)"
| "sub_step cal group_live (Activate fails now s) t = snd (CheckAndActivateWindow fails cal now s t)"
| "sub_step cal group_live (ResetDaily fails now s) t = snd (snd (reset_daily_if_due fails cal now s t))"
| "sub_step cal group_live (ResetWeekly fails now s) t = snd (snd (reset_weekly_if_due fails cal now s t))"
| "sub_step cal group_live (ResetMonthly fails now s) t = snd (snd (reset_monthly_if_due fails cal now s t))"
| "sub_step cal group_live (AdminReset fails now i d w m) t = snd (AdminResetQuota fails cal now i d w m t)"
| "sub_step cal group_live (Adjust fails joins now i days) t = snd (ExtendSubscription fails joins cal now i days t)"
| "sub_step cal group_live (Revoke fails now i) t = snd (RevokeSubscription fails now i t)"
| "sub_step cal group_live (MarkExpired now) t = snd (sub_BatchUpdateExpiredStatus now t)"

fun sane_event :: "sub_event \<Rightarrow> bool" where
  "sane_event (ResetDaily _ now s) = (sane_time now \<and> sane_times s)"
| "sane_event (ResetWeekly _ now s) = (sane_time now \<and> sane_times s)"
| "sane_event (ResetMonthly _ now s) = (sane_time now \<and> sane_times s)"
| "sane_event _ = True"

text \<open>
  The books an observer keeps: what was acknowledged as charged since each window last restarted. An administrator's reset
  counts when it was carried out, also when reading the row back failed.
\<close>

fun acknowledged :: "(int \<Rightarrow> bool) \<Rightarrow> int \<Rightarrow> sub_event \<Rightarrow> sub_table \<Rightarrow> rat" where
  "acknowledged group_live i (Charge fails j c) t =
     (if j = i \<and> fst (sub_IncrementUsage fails group_live j c t) = None then c else 0)"
| "acknowledged group_live i _ t = 0"

fun admin_resets :: "calendar_fns \<Rightarrow> int \<Rightarrow> sub_event \<Rightarrow> sub_table \<Rightarrow> bool \<times> bool \<times> bool" where
  "admin_resets cal i (AdminReset fails now j d w m) t =
     (if j = i \<and> \<not> isl (fst (AdminResetQuota (fails(CallReread := False)) cal now j d w m t)) then (d, w, m) else (False, False, False))"
| "admin_resets cal i _ t = (False, False, False)"

definition restarted :: "gotime option \<Rightarrow> gotime option \<Rightarrow> bool" where
  "restarted start start' \<longleftrightarrow> start \<noteq> None \<and> start' \<noteq> start"

definition booked :: "bool \<Rightarrow> gotime option \<Rightarrow> gotime option \<Rightarrow> rat \<Rightarrow> rat \<Rightarrow> rat" where
  "booked admin start start' charge balance = (if admin \<or> restarted start start' then 0 else balance + charge)"

definition book ::
    "calendar_fns \<Rightarrow> (int \<Rightarrow> bool) \<Rightarrow> int \<Rightarrow> sub_event \<Rightarrow> sub_table \<Rightarrow> rat \<times> rat \<times> rat \<Rightarrow> rat \<times> rat \<times> rat" where
  "book cal group_live i e t books =
     (case (row_of i t, row_of i (sub_step cal group_live e t), admin_resets cal i e t, books) of
        (Some r, Some r', (ad, aw, am), (d, w, m)) \<Rightarrow>
          let c = acknowledged group_live i e t
          in (booked ad (DailyWindowStart r) (DailyWindowStart r') c d,
              booked aw (WeeklyWindowStart r) (WeeklyWindowStart r') c w,
              booked am (MonthlyWindowStart r) (MonthlyWindowStart r') c m)
      | _ \<Rightarrow> books)"

fun sub_run ::
    "calendar_fns \<Rightarrow> (int \<Rightarrow> bool) \<Rightarrow> int \<Rightarrow> sub_event list \<Rightarrow> sub_table \<times> rat \<times> rat \<times> rat \<Rightarrow> sub_table \<times> rat \<times> rat \<times> rat" where
  "sub_run cal group_live i [] s = s"
| "sub_run cal group_live i (e # es) (t, books) =
     sub_run cal group_live i es (sub_step cal group_live e t, book cal group_live i e t books)"

definition usages :: "UserSubscription \<Rightarrow> rat \<times> rat \<times> rat" where
  "usages r = (DailyUsageUSD r, WeeklyUsageUSD r, MonthlyUsageUSD r)"

definition same_windows :: "UserSubscription \<Rightarrow> UserSubscription \<Rightarrow> bool" where
  "same_windows r r' \<longleftrightarrow> usages r' = usages r \<and> DailyWindowStart r' = DailyWindowStart r \<and>
     WeeklyWindowStart r' = WeeklyWindowStart r \<and> MonthlyWindowStart r' = MonthlyWindowStart r"

definition keeps_windows :: "sub_table \<Rightarrow> sub_table \<Rightarrow> bool" where
  "keeps_windows t t' \<longleftrightarrow> (distinct_ids t \<longrightarrow> distinct_ids t') \<and> (\<forall>i. rel_option same_windows (row_of i t) (row_of i t'))"

lemma keeps_windows_refl [simp]: "keeps_windows t t"
  by (simp add: keeps_windows_def same_windows_def option.rel_refl)

lemma same_windows_trans: "same_windows r s \<Longrightarrow> same_windows s u \<Longrightarrow> same_windows r u"
  by (simp add: same_windows_def)

lemma keeps_windows_trans:
  assumes "keeps_windows t u" "keeps_windows u v"
  shows "keeps_windows t v"
proof -
  have "rel_option same_windows (row_of i t) (row_of i v)" for i
    using assms[unfolded keeps_windows_def, THEN conjunct2, THEN spec, of i]
    by (auto simp: option_rel_Some2 option_rel_Some1 intro: same_windows_trans elim!: option.rel_cases)
  then show ?thesis using assms by (simp add: keeps_windows_def)
qed

lemma keeps_windows_update_rows:
  assumes "\<And>r. SubID (f r) = SubID r" "\<And>r. same_windows r (f r)"
  shows "keeps_windows t (update_rows P f t)"
proof -
  have "rel_option same_windows (row_of i t) (row_of i (update_rows P f t))" for i
    by (cases "row_of i t") (simp_all add: row_of_update_rows assms same_windows_def[of r r for r])
  then show ?thesis by (simp add: keeps_windows_def distinct_ids_update_rows assms(1))
qed


lemma keeps_windows_update_one:
  assumes "\<And>r. SubID (f r) = SubID r" "\<And>r. same_windows r (f r)"
  shows "keeps_windows t (snd (update_one b i f t))"
  by (simp add: update_one_table keeps_windows_update_rows assms)

lemma keeps_windows_then_do:
  assumes "keeps_windows t (snd r)" "\<And>u. keeps_windows u (snd (k u))"
  shows "keeps_windows t (snd (then_do r k))"
  using assms keeps_windows_trans by (cases r) (auto simp: then_do_def split: option.split)

lemma keeps_windows_tx:
  assumes "\<And>u. keeps_windows u (snd (body u))"
  shows "keeps_windows t (snd (withSubscriptionUpdateTx fails joins body t))"
  using assms[of t] by (auto simp: withSubscriptionUpdateTx_def split: prod.split option.split)

lemma keeps_windows_ExtendExpiry: "keeps_windows t (snd (sub_ExtendExpiry fails i e t))"
  unfolding sub_ExtendExpiry_def by (rule keeps_windows_update_one) (simp_all add: same_windows_def usages_def)

lemma keeps_windows_UpdateStatus: "keeps_windows t (snd (sub_UpdateStatus fails i st t))"
  unfolding sub_UpdateStatus_def by (rule keeps_windows_update_one) (simp_all add: same_windows_def usages_def)

lemma keeps_windows_extend_body: "keeps_windows t (snd (extend_body fails cal now i days t))"
  by (auto simp: extend_body_def Let_def keeps_windows_ExtendExpiry keeps_windows_UpdateStatus
      intro!: keeps_windows_then_do split: sum.split)

lemma keeps_windows_ExtendSubscription: "keeps_windows t (snd (ExtendSubscription fails joins cal now i days t))"
  using keeps_windows_tx[of "extend_body fails cal now i days" t fails joins, OF keeps_windows_extend_body]
  by (auto simp: ExtendSubscription_def split: prod.split option.split)

lemma keeps_windows_Revoke: "keeps_windows t (snd (RevokeSubscription fails now i t))"
  by (auto simp: RevokeSubscription_def sub_Delete_def same_windows_def usages_def intro!: keeps_windows_update_rows split: sum.split)

lemma keeps_windows_BatchUpdate: "keeps_windows t (snd (sub_BatchUpdateExpiredStatus now t))"
  by (auto simp: sub_BatchUpdateExpiredStatus_def Let_def same_windows_def usages_def intro!: keeps_windows_update_rows)

lemmas keeps_windows_ops = keeps_windows_ExtendSubscription keeps_windows_Revoke keeps_windows_BatchUpdate

lemma book_eq:
  assumes "row_of i t = Some r" "row_of i (sub_step cal group_live e t) = Some r'"
    "admin_resets cal i e t = (ad, aw, am)" "acknowledged group_live i e t = c"
    "DailyUsageUSD r' = booked ad (DailyWindowStart r) (DailyWindowStart r') c (DailyUsageUSD r)"
    "WeeklyUsageUSD r' = booked aw (WeeklyWindowStart r) (WeeklyWindowStart r') c (WeeklyUsageUSD r)"
    "MonthlyUsageUSD r' = booked am (MonthlyWindowStart r) (MonthlyWindowStart r') c (MonthlyUsageUSD r)"
  shows "book cal group_live i e t (usages r) = usages r'"
  using assms by (simp add: book_def usages_def)

definition balanced :: "calendar_fns \<Rightarrow> (int \<Rightarrow> bool) \<Rightarrow> int \<Rightarrow> sub_event \<Rightarrow> sub_table \<Rightarrow> bool" where
  "balanced cal group_live i e t \<longleftrightarrow>
     (\<forall>r. row_of i t = Some r \<longrightarrow>
       (\<exists>r'. row_of i (sub_step cal group_live e t) = Some r' \<and> book cal group_live i e t (usages r) = usages r')) \<and>
     distinct_ids (sub_step cal group_live e t)"

lemma booked_same [simp]: "booked False st st 0 u = u"
  by (simp add: booked_def restarted_def)

lemma balanced_keeps:
  assumes "keeps_windows t (sub_step cal group_live e t)" "distinct_ids t"
    "admin_resets cal i e t = (False, False, False)" "acknowledged group_live i e t = 0"
  shows "balanced cal group_live i e t"
  unfolding balanced_def
proof (intro conjI allI impI)
  show "distinct_ids (sub_step cal group_live e t)" using assms(1,2) by (simp add: keeps_windows_def)
  fix r assume r: "row_of i t = Some r"
  have "rel_option same_windows (Some r) (row_of i (sub_step cal group_live e t))"
    using assms(1) r by (metis keeps_windows_def)
  then obtain r' where r': "row_of i (sub_step cal group_live e t) = Some r'" "same_windows r r'"
    by (auto simp: option_rel_Some1)
  have "book cal group_live i e t (usages r) = usages r'"
    by (rule book_eq[OF r r'(1) assms(3,4)]) (use r'(2) in \<open>simp_all add: same_windows_def usages_def\<close>)
  then show "\<exists>r'. row_of i (sub_step cal group_live e t) = Some r' \<and> book cal group_live i e t (usages r) = usages r'"
    using r'(1) by blast
qed

text \<open>A step that updates rows: only the rows it changes have to be looked at.\<close>

lemma balanced_update:
  assumes step: "sub_step cal group_live e t = update_rows P f t" and "distinct_ids t"
    and ids: "\<And>r. SubID (f r) = SubID r"
    and books: "\<And>r. row_of i t = Some r \<Longrightarrow> book cal group_live i e t (usages r) = usages (if P r then f r else r)"
  shows "balanced cal group_live i e t"
  unfolding balanced_def step using assms(2)
  by (auto simp: distinct_ids_update_rows row_of_update_rows ids books)

text \<open>A step that is neither a charge nor an administrator's reset.\<close>

definition row_booked :: "UserSubscription \<Rightarrow> UserSubscription \<Rightarrow> bool" where
  "row_booked r r' \<longleftrightarrow>
     DailyUsageUSD r' = booked False (DailyWindowStart r) (DailyWindowStart r') 0 (DailyUsageUSD r) \<and>
     WeeklyUsageUSD r' = booked False (WeeklyWindowStart r) (WeeklyWindowStart r') 0 (WeeklyUsageUSD r) \<and>
     MonthlyUsageUSD r' = booked False (MonthlyWindowStart r) (MonthlyWindowStart r') 0 (MonthlyUsageUSD r)"

lemma balanced_window_update:
  assumes step: "sub_step cal group_live e t = update_rows P f t" and "distinct_ids t"
    and ids: "\<And>r. SubID (f r) = SubID r"
    and e: "admin_resets cal i e t = (False, False, False)" "acknowledged group_live i e t = 0"
    and f: "\<And>r. P r \<Longrightarrow> row_booked r (f r)"
  shows "balanced cal group_live i e t"
proof (rule balanced_update[OF step assms(2) ids])
  fix r assume r: "row_of i t = Some r"
  have r': "row_of i (sub_step cal group_live e t) = Some (if P r then f r else r)"
    unfolding step using r by (simp add: row_of_update_rows ids)
  have "row_booked r (if P r then f r else r)" using f by (simp add: row_booked_def)
  then show "book cal group_live i e t (usages r) = usages (if P r then f r else r)"
    using book_eq[OF r r' e] by (simp only: row_booked_def)
qed

lemma charge_balanced:
  assumes "distinct_ids t"
  shows "balanced cal group_live i (Charge fails j c) t"
proof -
  let ?P = "\<lambda>r. SubID r = j \<and> live r \<and> group_live (GroupID r)"
  let ?f = "\<lambda>r. r\<lparr>DailyUsageUSD := DailyUsageUSD r + c, WeeklyUsageUSD := WeeklyUsageUSD r + c,
    MonthlyUsageUSD := MonthlyUsageUSD r + c\<rparr>"
  show ?thesis
  proof (cases "fails CallIncrement")
    case True
    then show ?thesis using assms by (intro balanced_keeps) (simp_all add: sub_IncrementUsage_def Let_def)
  next
    case False
    have step: "sub_step cal group_live (Charge fails j c) t = update_rows ?P ?f t"
      using False update_rows_none[of ?P t ?f] by (simp add: sub_IncrementUsage_def Let_def)
    show ?thesis
    proof (rule balanced_update[OF step assms])
      fix r assume r: "row_of i t = Some r"
      have aff: "0 < affected ?P t \<longleftrightarrow> ?P r" if "j = i"
        using row_of_unique[OF assms r] row_of_SomeD[OF r] that by (auto simp: affected_pos)
      have ack: "acknowledged group_live i (Charge fails j c) t = (if ?P r then c else 0)"
      proof (cases "j = i")
        case True
        then show ?thesis using False aff[OF True] by (simp add: sub_IncrementUsage_def Let_def)
      next
        case False
        then show ?thesis using row_of_SomeD[OF r] by auto
      qed
      have r': "row_of i (sub_step cal group_live (Charge fails j c) t) = Some (if ?P r then ?f r else r)"
        unfolding step using r by (simp add: row_of_update_rows)
      show "book cal group_live i (Charge fails j c) t (usages r) = usages (if ?P r then ?f r else r)"
        by (rule book_eq[OF r r' admin_resets.simps(2) ack]) (simp_all add: booked_def restarted_def)
    qed simp
  qed
qed

lemma activate_balanced:
  assumes "distinct_ids t"
  shows "balanced cal group_live i (Activate fails now s) t"
proof (cases "IsWindowActivated s \<or> fails CallActivate")
  case True
  then show ?thesis using assms
    by (intro balanced_keeps) (auto simp: CheckAndActivateWindow_def sub_ActivateWindows_def conditional_update_table)
next
  case False
  then have "sub_step cal group_live (Activate fails now s) t =
    update_rows (\<lambda>r. SubID r = SubID s \<and> DailyWindowStart r = None \<and> WeeklyWindowStart r = None \<and> MonthlyWindowStart r = None)
      (\<lambda>r. r\<lparr>DailyWindowStart := Some (StartOfDay cal now), WeeklyWindowStart := Some now, MonthlyWindowStart := Some now\<rparr>) t"
    by (simp add: CheckAndActivateWindow_def sub_ActivateWindows_def conditional_update_table)
  then show ?thesis
    by (rule balanced_window_update[OF _ assms]) (simp_all add: row_booked_def booked_def restarted_def)
qed

lemma due_or_not:
  assumes "distinct_ids t" "sub_step cal group_live e t = t"
    "admin_resets cal i e t = (False, False, False)" "acknowledged group_live i e t = 0"
  shows "balanced cal group_live i e t"
  using assms by (intro balanced_keeps) simp_all

lemma maintenance_table:
  "snd (snd (case r of (Some e, t) \<Rightarrow> (Some e, s, t) | (None, t) \<Rightarrow> (None, s', t))) = snd r"
  by (simp split: prod.split option.split)

lemma daily_balanced:
  assumes "calendar cal" "distinct_ids t"
  shows "balanced cal group_live i (ResetDaily fails now s) t"
proof (cases "automaticDailyWindowStartAt cal s now")
  case None
  then show ?thesis using assms(2) by (intro due_or_not) (simp_all add: reset_daily_if_due_def)
next
  case (Some w)
  then obtain p where p: "DailyWindowStart s = Some p" by (auto simp: automaticDailyWindowStartAt_def split: option.splits)
  have grows: "p < w" by (rule calendar.daily_window_grows(1)[OF assms(1) Some p])
  have "sub_step cal group_live (ResetDaily fails now s) t = (if fails CallResetDaily then t else
     update_rows (\<lambda>r. SubID r = SubID s \<and> DailyWindowStart r = Some p) (\<lambda>r. r\<lparr>DailyUsageUSD := 0, DailyWindowStart := Some w\<rparr>) t)"
    using Some by (simp add: reset_daily_if_due_def maintenance_table p sub_ResetDailyUsage_def conditional_update_table)
  then have step: "sub_step cal group_live (ResetDaily fails now s) t =
     update_rows (\<lambda>r. \<not> fails CallResetDaily \<and> SubID r = SubID s \<and> DailyWindowStart r = Some p)
       (\<lambda>r. r\<lparr>DailyUsageUSD := 0, DailyWindowStart := Some w\<rparr>) t"
    by (simp add: update_rows_none affected_def)
  show ?thesis
    by (rule balanced_window_update[OF step assms(2)]) (use grows in \<open>auto simp: row_booked_def booked_def restarted_def\<close>)
qed

lemma weekly_balanced:
  assumes "sane_time now" "sane_times s" "distinct_ids t"
  shows "balanced cal group_live i (ResetWeekly fails now s) t"
proof (cases "automaticWindowStartAt cal s (WeeklyWindowStart s) week now")
  case None
  then show ?thesis using assms(3) by (intro due_or_not) (simp_all add: reset_weekly_if_due_def)
next
  case (Some w)
  then obtain p where p: "WeeklyWindowStart s = Some p" by (auto simp: automaticWindowStartAt_def split: option.splits)
  have grows: "p < w"
    by (rule window_after_advance(1)[OF Some[unfolded p] period_facts(1)])
      (use assms p in \<open>simp add: sane_in_range sane_times_def\<close>)
  have "sub_step cal group_live (ResetWeekly fails now s) t = (if fails CallResetWeekly then t else
     update_rows (\<lambda>r. SubID r = SubID s \<and> WeeklyWindowStart r = Some p) (\<lambda>r. r\<lparr>WeeklyUsageUSD := 0, WeeklyWindowStart := Some w\<rparr>) t)"
    using Some by (simp add: reset_weekly_if_due_def maintenance_table p sub_ResetWeeklyUsage_def conditional_update_table)
  then have step: "sub_step cal group_live (ResetWeekly fails now s) t =
     update_rows (\<lambda>r. \<not> fails CallResetWeekly \<and> SubID r = SubID s \<and> WeeklyWindowStart r = Some p)
       (\<lambda>r. r\<lparr>WeeklyUsageUSD := 0, WeeklyWindowStart := Some w\<rparr>) t"
    by (simp add: update_rows_none affected_def)
  show ?thesis
    by (rule balanced_window_update[OF step assms(3)]) (use grows in \<open>auto simp: row_booked_def booked_def restarted_def\<close>)
qed

lemma monthly_balanced:
  assumes "sane_time now" "sane_times s" "distinct_ids t"
  shows "balanced cal group_live i (ResetMonthly fails now s) t"
proof (cases "automaticWindowStartAt cal s (MonthlyWindowStart s) month now")
  case None
  then show ?thesis using assms(3) by (intro due_or_not) (simp_all add: reset_monthly_if_due_def)
next
  case (Some w)
  then obtain p where p: "MonthlyWindowStart s = Some p" by (auto simp: automaticWindowStartAt_def split: option.splits)
  have grows: "p < w"
    by (rule window_after_advance(1)[OF Some[unfolded p] period_facts(2)])
      (use assms p in \<open>simp add: sane_in_range sane_times_def\<close>)
  have "sub_step cal group_live (ResetMonthly fails now s) t = (if fails CallResetMonthly then t else
     update_rows (\<lambda>r. SubID r = SubID s \<and> MonthlyWindowStart r = Some p) (\<lambda>r. r\<lparr>MonthlyUsageUSD := 0, MonthlyWindowStart := Some w\<rparr>) t)"
    using Some by (simp add: reset_monthly_if_due_def maintenance_table p sub_ResetMonthlyUsage_def conditional_update_table)
  then have step: "sub_step cal group_live (ResetMonthly fails now s) t =
     update_rows (\<lambda>r. \<not> fails CallResetMonthly \<and> SubID r = SubID s \<and> MonthlyWindowStart r = Some p)
       (\<lambda>r. r\<lparr>MonthlyUsageUSD := 0, MonthlyWindowStart := Some w\<rparr>) t"
    by (simp add: update_rows_none affected_def)
  show ?thesis
    by (rule balanced_window_update[OF step assms(3)]) (use grows in \<open>auto simp: row_booked_def booked_def restarted_def\<close>)
qed

lemma admin_balanced:
  assumes "distinct_ids t"
  shows "balanced cal group_live i (AdminReset fails now j d w m) t"
proof -
  let ?P = "\<lambda>r. SubID r = j"
  define f :: "UserSubscription \<Rightarrow> UserSubscription" where "f = (\<lambda>r. let r = (if d then r\<lparr>DailyUsageUSD := 0, DailyWindowStart := Some (StartOfDay cal now)\<rparr> else r);
                r = (if w then r\<lparr>WeeklyUsageUSD := 0, WeeklyWindowStart := Some now\<rparr> else r)
            in if m then r\<lparr>MonthlyUsageUSD := 0, MonthlyWindowStart := Some now\<rparr> else r)"
  have ids: "SubID (f r) = SubID r" and lives: "live (f r) = live r" for r by (simp_all add: f_def Let_def live_def)
  have upd: "sub_ResetUsageWindows fails j d w m (StartOfDay cal now) now t = update_one (fails CallResetUsage) j f t"
    by (simp add: sub_ResetUsageWindows_def f_def)
  let ?F = "fails(CallReread := False)"
  have same: "sub_GetByID ?F j t = sub_GetByID fails j t" "?F CallResetUsage = fails CallResetUsage"
    by (simp_all add: sub_GetByID_def)
  have upd': "sub_ResetUsageWindows ?F j d w m (StartOfDay cal now) now t = update_one (fails CallResetUsage) j f t"
    by (simp add: sub_ResetUsageWindows_def f_def)
  consider (unchanged) "snd (AdminResetQuota fails cal now j d w m t) = t" "isl (fst (AdminResetQuota ?F cal now j d w m t))"
    | (changed) "snd (AdminResetQuota fails cal now j d w m t) = update_rows ?P f t" "\<not> isl (fst (AdminResetQuota ?F cal now j d w m t))"
  proof (cases "(d \<or> w \<or> m) \<and> \<not> fails CallResetUsage \<and> \<not> isl (sub_GetByID fails j t)")
    case True
    then obtain x where x: "sub_GetByID fails j t = Inr x" by (cases "sub_GetByID fails j t") simp_all
    then have row: "row_of j t = Some x" "live x" "\<not> fails CallGetByID" using GetByID_iff[OF assms] by simp_all
    have id: "SubID x = j" "affected ?P t \<noteq> 0" using row_of_SomeD[OF row(1)] affected_pos[of ?P t] by auto
    have r: "update_one (fails CallResetUsage) j f t = (None, update_rows ?P f t)"
      using True id(2) by (simp add: update_one_def)
    have "sub_GetByID (?F(CallGetByID := False)) j (update_rows ?P f t) = Inr (f x)"
      using GetByID_iff[of "update_rows ?P f t"] assms row id lives
      by (simp add: distinct_ids_update_rows ids row_of_update_rows)
    then show ?thesis using that(2) True x id(1) r upd upd' same(1) by (auto simp: AdminResetQuota_def)
  next
    case False
    have "snd (AdminResetQuota fails cal now j d w m t) = t \<and> isl (fst (AdminResetQuota ?F cal now j d w m t))"
    proof (cases "sub_GetByID fails j t")
      case (Inr x)
      then have "SubID x = j" using GetByID_iff[OF assms] row_of_SomeD by blast
      then show ?thesis using False Inr upd upd' same(1) by (auto simp: AdminResetQuota_def update_one_def)
    qed (simp add: AdminResetQuota_def same(1))
    then show ?thesis using that(1) by blast
  qed
  then show ?thesis
  proof cases
    case unchanged
    then show ?thesis using assms by (intro balanced_keeps) simp_all
  next
    case changed
    have step: "sub_step cal group_live (AdminReset fails now j d w m) t = update_rows ?P f t" using changed(1) by simp
    show ?thesis
    proof (rule balanced_update[OF step assms ids])
      fix r assume r: "row_of i t = Some r"
      have r': "row_of i (sub_step cal group_live (AdminReset fails now j d w m) t) = Some (if ?P r then f r else r)"
        unfolding step using r by (simp add: row_of_update_rows ids)
      have adm: "admin_resets cal i (AdminReset fails now j d w m) t = (if ?P r then (d, w, m) else (False, False, False))"
        using changed(2) row_of_SomeD[OF r] by auto
      show "book cal group_live i (AdminReset fails now j d w m) t (usages r) = usages (if ?P r then f r else r)"
      proof (cases "?P r")
        case True
        show ?thesis
          by (rule book_eq[OF r r' adm[unfolded if_P[OF True]] acknowledged.simps(6)])
            (use True in \<open>simp_all add: f_def Let_def booked_def restarted_def\<close>)
      next
        case False
        show ?thesis
          by (rule book_eq[OF r r' adm[unfolded if_not_P[OF False]] acknowledged.simps(6)]) (use False in simp_all)
      qed
    qed
  qed
qed

lemma every_step_balanced:
  assumes "calendar cal" "sane_event e" "distinct_ids t"
  shows "balanced cal group_live i e t"
proof (cases e)
  case (Adjust fails joins now j days)
  then show ?thesis using assms(3) by (intro balanced_keeps) (simp_all add: keeps_windows_ops)
next
  case (Revoke fails now j)
  then show ?thesis using assms(3) by (intro balanced_keeps) (simp_all add: keeps_windows_ops)
next
  case (MarkExpired now)
  then show ?thesis using assms(3) by (intro balanced_keeps) (simp_all add: keeps_windows_ops)
qed (use assms in \<open>simp_all add: charge_balanced activate_balanced daily_balanced weekly_balanced monthly_balanced admin_balanced\<close>)

lemma run_balanced:
  assumes "calendar cal"
  shows "list_all sane_event es \<Longrightarrow> distinct_ids t \<Longrightarrow> row_of i t = Some r \<Longrightarrow>
    \<exists>r'. row_of i (fst (sub_run cal group_live i es (t, usages r))) = Some r' \<and>
         snd (sub_run cal group_live i es (t, usages r)) = usages r'"
proof (induction es arbitrary: t r)
  case (Cons e es)
  have "balanced cal group_live i e t" using Cons.prems by (intro every_step_balanced[OF assms]) simp_all
  then obtain r' where r': "row_of i (sub_step cal group_live e t) = Some r'"
    "book cal group_live i e t (usages r) = usages r'" and ids: "distinct_ids (sub_step cal group_live e t)"
    using Cons.prems(3) unfolding balanced_def by blast
  show ?case using Cons.IH[OF _ ids r'(1)] Cons.prems(1) by (simp add: r'(2))
qed simp

text \<open>C34. No charge is lost or counted twice: however charges, activations, resets computed from snapshots of any
  age, administrators' resets, adjustments and revocations of any subscriptions interleave, and whichever calls
  fail, the stored daily, weekly and monthly usage of a subscription is what was acknowledged as charged since
  the window last restarted. In particular a request that lost the race to advance a window does not wipe out
  what was charged after the winner.\<close>

theorem no_charge_is_lost:
  assumes "calendar cal" "list_all sane_event es" "distinct_ids t" "row_of i t = Some r"
  shows "Some (snd (sub_run cal group_live i es (t, usages r))) =
    map_option usages (row_of i (fst (sub_run cal group_live i es (t, usages r))))"
  using run_balanced[OF assms, of group_live] by auto

text \<open>Two requests reset the same week; the charge between the resets stays.\<close>

definition demo_race :: "sub_event list" where
  "demo_race =
     [Charge (\<lambda>_. False) 1 1, ResetWeekly (\<lambda>_. False) (week + 5) demo_subscription, Charge (\<lambda>_. False) 1 3,
      ResetWeekly (\<lambda>_. False) (week + 6) demo_subscription, Charge (\<lambda>c. c = CallIncrement) 1 100]"

theorem no_charge_is_lost_witness:
  "map_option usages (row_of 1 (fst (sub_run (fixed_zone 0) (\<lambda>_. True) 1 demo_race (demo_table, usages demo_subscription)))) =
   Some (6, 3, 13)"
proof -
  have sane: "list_all sane_event demo_race"
    using demo_sane by (simp add: demo_race_def sane_time_def week_def Hour_def)
  have books: "snd (sub_run (fixed_zone 0) (\<lambda>_. True) 1 demo_race (demo_table, usages demo_subscription)) = (6, 3, 13)"
    by code_simp
  have "Some (6, 3, 13) =
    map_option usages (row_of 1 (fst (sub_run (fixed_zone 0) (\<lambda>_. True) 1 demo_race (demo_table, usages demo_subscription))))"
    by (rule no_charge_is_lost[OF fixed.calendar_axioms sane demo_row(1,2), of 0 "\<lambda>_. True", unfolded books])
  then show ?thesis by (rule sym)
qed

end
