(* ===== verification/SubscriptionCheck.thy ===== *)
theory SubscriptionCheck
  imports SubscriptionService
begin

text \<open>
  The check before a request: validation in memory, synchronous maintenance of the windows, validation of the
  row read back (\<open>ValidateAndCheckLimits\<close> and \<open>EnsureWindowMaintenance\<close> as the middleware combines them).
\<close>

section \<open>Maintenance brings the windows up to date\<close>










lemma corrected_current: "\<not> needs_maintenance cal now r \<Longrightarrow> corrected_usage cal now r = r"
  by (simp add: needs_maintenance_def corrected_usage_def)








lemma validated:
  assumes "ValidateAndCheckLimits cal now s g = (x, n, None)"
  shows "x = corrected_usage cal now s \<and> n = needs_maintenance cal now s \<and> SubStatus s \<noteq> SubscriptionStatusSuspended \<and>
    now < ExpiresAt s \<and> CheckUsageLimits (corrected_usage cal now s) g 0 = None"
  using assms by (auto simp: ValidateAndCheckLimits_def split: if_splits)


section \<open>What the check admits\<close>

definition subscription_serves :: "calendar_fns \<Rightarrow> gotime \<Rightarrow> Group \<Rightarrow> UserSubscription \<Rightarrow> bool" where
  "subscription_serves cal now g r \<longleftrightarrow>
     SubStatus r \<notin> {SubscriptionStatusExpired, SubscriptionStatusSuspended} \<and> now < ExpiresAt r \<and>
     CheckAllLimits r g 0 = (True, True, True) \<and>
     \<not> needs_maintenance cal now r"

lemma serves_iff:
  "subscription_serves cal now g r \<longleftrightarrow>
   ValidateAndCheckLimits cal now r g = (r, False, None) \<and> \<not> needs_maintenance cal now r"
proof (cases "needs_maintenance cal now r")
  case False
  then show ?thesis
    by (auto simp: subscription_serves_def ValidateAndCheckLimits_def CheckUsageLimits_def CheckAllLimits_def corrected_current)
qed (simp add: subscription_serves_def)











end
