(* ===== verification/SubscriptionAssign.thy ===== *)
theory SubscriptionAssign
  imports SubscriptionService
begin

text \<open>
  Assignments of subscriptions (\<open>AssignSubscription\<close> and its parts): a repeated assignment returns what the first
  one did and changes nothing; a table never holds two live subscriptions of one user in one group.
\<close>

section \<open>The table under the unique index\<close>

definition well_formed :: "sub_table \<Rightarrow> bool" where
  "well_formed t \<longleftrightarrow> distinct_ids t \<and> (\<forall>r \<in> set (sub_rows t). SubID r < next_sub_id t) \<and>
     distinct (map (\<lambda>r. (UserID r, GroupID r)) (filter live (sub_rows t)))"

definition live_of :: "int \<Rightarrow> int \<Rightarrow> sub_table \<Rightarrow> UserSubscription list" where
  "live_of u g t = filter (\<lambda>r. live r \<and> UserID r = u \<and> GroupID r = g) (sub_rows t)"

lemma live_of_single:
  assumes "well_formed t"
  obtains "live_of u g t = []" | r where "live_of u g t = [r]"
proof -
  have "live_of u g t = filter (\<lambda>r. UserID r = u \<and> GroupID r = g) (filter live (sub_rows t))"
    unfolding live_of_def filter_filter ..
  then have d: "distinct (map (\<lambda>r. (UserID r, GroupID r)) (live_of u g t))"
    using assms by (simp only: well_formed_def distinct_map_filter)
  have eq: "x \<in> set (live_of u g t) \<Longrightarrow> UserID x = u \<and> GroupID x = g" for x by (simp add: live_of_def)
  show ?thesis
  proof (cases "live_of u g t")
    case (Cons a xs)
    have "xs = []"
    proof (rule ccontr)
      assume "xs \<noteq> []"
      then obtain b ys where "xs = b # ys" by (cases xs) simp_all
      then show False using d eq[of a] eq[of b] Cons by simp
    qed
    then show ?thesis using that(2) Cons by simp
  qed (rule that(1))
qed

lemma Exists_eq: "sub_Exists fails u g t = (if fails CallExists then Inl ErrDatabase else Inr (live_of u g t \<noteq> []))"
  by (auto simp: sub_Exists_def live_of_def filter_empty_conv list_ex_iff)

lemma GetByUser_eq:
  "sub_GetByUserIDAndGroupID fails u g t = (if fails CallGetByUserGroup then Inl ErrDatabase else only (live_of u g t))"
  by (simp add: sub_GetByUserIDAndGroupID_def live_of_def)

lemma live_of_in: "live_of u g t = [r] \<Longrightarrow> r \<in> set (sub_rows t) \<and> live r \<and> UserID r = u \<and> GroupID r = g"
proof -
  assume "live_of u g t = [r]"
  then have "r \<in> set (live_of u g t)" by simp
  then show ?thesis by (simp add: live_of_def)
qed

lemma live_of_row:
  assumes "well_formed t" "live_of u g t = [r]"
  shows "row_of (SubID r) t = Some r"
proof -
  have r: "r \<in> set (sub_rows t)" using live_of_in[OF assms(2)] by simp
  then have "row_of (SubID r) t \<noteq> None" by (auto simp: row_of_def find_None_iff)
  then obtain x where x: "row_of (SubID r) t = Some x" by blast
  have "distinct_ids t" using assms(1) by (simp add: well_formed_def)
  then show ?thesis using row_of_unique[OF _ x r] x by simp
qed

section \<open>What an assignment leaves behind\<close>

text \<open>The subscription \<open>sub\<close> is the live one of its user and group, and repeats of the request find no conflict but that of the notes.\<close>

definition settled :: "calendar_fns \<Rightarrow> AssignSubscriptionInput \<Rightarrow> sub_table \<Rightarrow> UserSubscription \<Rightarrow> bool" where
  "settled cal input t sub \<longleftrightarrow>
     live_of (InUserID input) (InGroupID input) t = [sub] \<and> SubStatus sub \<noteq> SubscriptionStatusExpired \<and>
     detectAssignSemanticConflict cal sub input =
       (if TrimSpace (Notes sub) = TrimSpace (InNotes input) then None else Some ''notes_mismatch'')"

lemma assign_settled_again:
  assumes "settled cal input t sub" "subscription_group (\<lambda>_. False) groups (InGroupID input) = None"
    "SubStatus sub = SubscriptionStatusSuspended \<or> now < ExpiresAt sub"
  shows "assignSubscriptionWithReuse (\<lambda>_. False) joins cal groups now now' input t =
    (if TrimSpace (Notes sub) = TrimSpace (InNotes input) then Inr (sub, True)
     else Inl (ErrSubscriptionAssignConflict ''notes_mismatch''), t)"
  using assms by (auto simp: assignSubscriptionWithReuse_def settled_def Exists_eq GetByUser_eq)

lemma created_settled:
  assumes "well_formed t" "live_of (InUserID input) (InGroupID input) t = []"
    "createSubscription fails cal now input t = (Inr sub, t')"
  shows "settled cal input t' sub"
proof -
  define r where "r = \<lparr>SubID = next_sub_id t, UserID = InUserID input, GroupID = InGroupID input, StartsAt = Some now,
     ExpiresAt = cap_expiry (AddDays cal now (normalizeAssignValidityDays (InValidityDays input))),
     SubStatus = SubscriptionStatusActive, DailyWindowStart = None, WeeklyWindowStart = None, MonthlyWindowStart = None,
     DailyUsageUSD = 0, WeeklyUsageUSD = 0, MonthlyUsageUSD = 0,
     AssignedBy = (if InAssignedBy input > 0 then Some (InAssignedBy input) else None), Notes = InNotes input, DeletedAt = None\<rparr>"
  have none: "\<not> list_ex (\<lambda>r. live r \<and> UserID r = InUserID input \<and> GroupID r = InGroupID input) (sub_rows t)"
    using assms(2) by (auto simp: live_of_def filter_empty_conv list_ex_iff)
  have st: "SubscriptionStatusActive \<noteq> []" by (simp add: SubscriptionStatusActive_def)
  have t': "t' = t\<lparr>sub_rows := sub_rows t @ [r], next_sub_id := next_sub_id t + 1\<rparr>"
    and get: "sub_GetByID fails (SubID r) t' = Inr sub"
    using assms(3) none st by (auto simp: createSubscription_def sub_Create_def Let_def r_def split: if_splits)
  have "filter (\<lambda>x. live x \<and> SubID x = SubID r) (sub_rows t) = []"
    using assms(1) by (auto simp: well_formed_def filter_empty_conv r_def)
  then have "filter (\<lambda>x. live x \<and> SubID x = SubID r) (sub_rows t') = [r]"
    by (simp add: t') (simp add: r_def live_def)
  then have sub: "sub = r" using get by (auto simp: sub_GetByID_def split: if_splits)
  have "live_of (InUserID input) (InGroupID input) t' = [r]"
    using assms(2) by (simp add: t' live_of_def) (simp add: r_def live_def)
  moreover have "detectAssignSemanticConflict cal r input = None"
    by (simp add: detectAssignSemanticConflict_def Let_def r_def)
  ultimately show ?thesis by (simp add: settled_def sub) (simp add: r_def subscription_status_defs)
qed

lemma updated_row:
  assumes "updateExistingSubscriptionTerm fails joins cal now i days notes True t = (None, t')"
    "distinct_ids t" "row_of i t = Some r" "live r"
    "SubStatus r = SubscriptionStatusExpired \<or> SubStatus r \<noteq> SubscriptionStatusSuspended \<and> \<not> ExpiresAt r > now"
  shows "\<exists>n. t' = update_rows (\<lambda>x. SubID x = i)
    (written_row (renewedSubscriptionTerm cal r n now (cap_expiry (AddDays cal now days)))) t"
proof -
  have b: "update_existing_body fails cal now i days notes True t = (None, t')"
    using assms(1) by (auto simp: updateExistingSubscriptionTerm_def withSubscriptionUpdateTx_def split: if_splits prod.splits option.splits)
  have f: "filter (\<lambda>x. live x \<and> SubID x = i) (sub_rows t) = [r]"
  proof -
    have "filter (\<lambda>x. live x \<and> SubID x = i) (sub_rows t) = filter live (case row_of i t of None \<Rightarrow> [] | Some r \<Rightarrow> [r])"
      unfolding filter_id[OF assms(2), symmetric] filter_filter by (rule filter_cong) auto
    then show ?thesis using assms(3,4) by simp
  qed
  have i: "SubID r = i" using row_of_SomeD[OF assms(3)] by simp
  have ne: "SubscriptionStatusExpired \<noteq> SubscriptionStatusSuspended" by (simp add: subscription_status_defs)
  define n where "n = (if TrimSpace (Notes r) = TrimSpace notes then [] else notes)"
  have "sub_Update fails (renewedSubscriptionTerm cal r n now (cap_expiry (AddDays cal now days))) t = (None, t')"
    using b assms(5) ne by (auto simp: update_existing_body_def sub_GetByIDForUpdate_def f n_def Let_def split: if_splits)
  then have "t' = update_rows (\<lambda>x. SubID x = SubID r) (written_row (renewedSubscriptionTerm cal r n now (cap_expiry (AddDays cal now days)))) t"
    by (auto simp: sub_Update_def renewedSubscriptionTerm_def dest: update_one_ok split: if_splits)
  then show ?thesis unfolding i by blast
qed

lemma live_of_update_rows:
  assumes "\<And>r. r \<in> set (sub_rows t) \<Longrightarrow> P r \<Longrightarrow> live (f r) = live r \<and> UserID (f r) = UserID r \<and> GroupID (f r) = GroupID r"
  shows "live_of u g (update_rows P f t) = map (\<lambda>r. if P r then f r else r) (live_of u g t)"
proof -
  let ?h = "\<lambda>r. if P r then f r else r"
  have "filter (\<lambda>r. live (?h r) \<and> UserID (?h r) = u \<and> GroupID (?h r) = g) (sub_rows t) =
    filter (\<lambda>r. live r \<and> UserID r = u \<and> GroupID r = g) (sub_rows t)"
    by (rule filter_cong) (use assms in auto)
  then show ?thesis by (simp add: live_of_def update_rows_def filter_map comp_def)
qed

lemma renewed_settled:
  assumes wf: "well_formed t" and r: "live_of (InUserID input) (InGroupID input) t = [r]"
    and due: "SubStatus r = SubscriptionStatusExpired \<or> SubStatus r \<noteq> SubscriptionStatusSuspended \<and> \<not> ExpiresAt r > now"
    and upd: "updateExistingSubscriptionTerm fails joins cal now (SubID r) (normalizeAssignValidityDays (InValidityDays input))
      (InNotes input) True t = (None, t')"
    and get: "sub_GetByID fails' (SubID r) t' = Inr sub"
  shows "settled cal input t' sub"
proof -
  have ids: "distinct_ids t" using wf by (simp add: well_formed_def)
  have row: "row_of (SubID r) t = Some r" by (rule live_of_row[OF wf r])
  note rin = live_of_in[OF r]
  obtain n where t': "t' = update_rows (\<lambda>x. SubID x = SubID r)
    (written_row (renewedSubscriptionTerm cal r n now (cap_expiry (AddDays cal now (normalizeAssignValidityDays (InValidityDays input)))))) t"
    using updated_row[OF upd ids row _ due] rin by blast
  define f where "f = written_row (renewedSubscriptionTerm cal r n now (cap_expiry (AddDays cal now (normalizeAssignValidityDays (InValidityDays input)))))"
  have f_id: "SubID (f x) = SubID x" for x by (simp add: f_def written_row_def)
  have tf: "t' = update_rows (\<lambda>x. SubID x = SubID r) f t" by (simp add: t' f_def)
  have sub: "sub = f r"
    using get GetByID_iff[of t'] row by (simp add: tf distinct_ids_update_rows row_of_update_rows f_id ids)
  have "live_of (InUserID input) (InGroupID input) t' = [f r]"
  proof -
    have "live (f x) = live x \<and> UserID (f x) = UserID x \<and> GroupID (f x) = GroupID x"
      if "x \<in> set (sub_rows t)" "SubID x = SubID r" for x
      using row_of_unique[OF ids row that] by (simp add: f_def written_row_def renewedSubscriptionTerm_def live_def)
    then show ?thesis unfolding tf using r by (subst live_of_update_rows) simp_all
  qed
  moreover have "StartsAt (f r) = Some now" "SubStatus (f r) = SubscriptionStatusActive"
    "ExpiresAt (f r) = cap_expiry (AddDays cal now (normalizeAssignValidityDays (InValidityDays input)))"
    by (simp_all add: f_def written_row_def renewedSubscriptionTerm_def)
  ultimately show ?thesis
    by (simp add: settled_def sub detectAssignSemanticConflict_def Let_def subscription_status_defs)
qed

lemma assign_settles:
  assumes wf: "well_formed t" and clock: "now \<le> now'"
    and a: "assignSubscriptionWithReuse fails joins cal groups now now' input t = (Inr (sub, reused), t')"
  shows "settled cal input t' sub"
proof -
  have g: "subscription_group fails groups (InGroupID input) = None" "\<not> fails CallExists"
    using a by (auto simp: assignSubscriptionWithReuse_def sub_Exists_def split: option.splits if_splits)
  consider (none) "live_of (InUserID input) (InGroupID input) t = []"
    | (one) r where "live_of (InUserID input) (InGroupID input) t = [r]"
    using live_of_single[OF wf] by blast
  then show ?thesis
  proof cases
    case none
    then have "createSubscription fails cal now' input t = (Inr sub, t')"
      using a g by (auto simp: assignSubscriptionWithReuse_def Exists_eq split: prod.splits sum.splits)
    then show ?thesis by (rule created_settled[OF wf none])
  next
    case one
    have q: "\<not> fails CallGetByUserGroup"
      using a g one by (auto simp: assignSubscriptionWithReuse_def Exists_eq GetByUser_eq split: if_splits)
    show ?thesis
    proof (cases "SubStatus r = SubscriptionStatusExpired \<or> SubStatus r \<noteq> SubscriptionStatusSuspended \<and> \<not> ExpiresAt r > now")
      case True
      then have due: "SubStatus r = SubscriptionStatusExpired \<or> SubStatus r \<noteq> SubscriptionStatusSuspended \<and> \<not> ExpiresAt r > now'"
        using clock by auto
      have "updateExistingSubscriptionTerm fails joins cal now' (SubID r) (normalizeAssignValidityDays (InValidityDays input))
          (InNotes input) True t = (None, t') \<and> sub_GetByID fails (SubID r) t' = Inr sub"
        using a g q one True
        by (simp add: assignSubscriptionWithReuse_def Exists_eq GetByUser_eq split: prod.splits option.splits sum.splits)
      then show ?thesis using renewed_settled[OF wf one due] by blast
    next
      case False
      then have "sub = r" "t' = t" "detectAssignSemanticConflict cal r input = None"
        using a g q one by (auto simp: assignSubscriptionWithReuse_def Exists_eq GetByUser_eq split: option.splits)
      then show ?thesis using False one by (auto simp: settled_def detectAssignSemanticConflict_def Let_def split: if_splits)
    qed
  qed
qed

lemma assign_group:
  assumes "assignSubscriptionWithReuse fails joins cal groups now now' input t = (Inr x, t')"
  shows "subscription_group (\<lambda>_. False) groups (InGroupID input) = None"
  using assms by (auto simp: assignSubscriptionWithReuse_def subscription_group_def split: option.splits if_splits)

text \<open>C36. Repeating an assignment while the subscription lasts changes nothing: when a request to assign a subscription has succeeded - by creating it, renewing
  an expired one or finding it - the same request sent again before the subscription expires (or while it is suspended) leaves the table as it is.
  It returns the same subscription and says that it was reused when the notes of the subscription are those of the request, as they are unless a renewal appended
  them to others; otherwise it is refused for the notes and nothing else.\<close>

theorem assignment_is_idempotent:
  assumes "well_formed t" "now \<le> now'"
    and "assignSubscriptionWithReuse fails joins cal groups now now' input t = (Inr (sub, reused), t')"
    and "SubStatus sub = SubscriptionStatusSuspended \<or> later < ExpiresAt sub"
  shows "assignSubscriptionWithReuse (\<lambda>_. False) joins cal groups later later' input t' =
    (if TrimSpace (Notes sub) = TrimSpace (InNotes input) then Inr (sub, True)
     else Inl (ErrSubscriptionAssignConflict ''notes_mismatch''), t')"
  by (rule assign_settled_again[OF assign_settles[OF assms(1-3)] assign_group[OF assms(3)] assms(4)])

definition demo_input :: AssignSubscriptionInput where
  "demo_input = \<lparr>InUserID = 8, InGroupID = 3, InValidityDays = 10, InAssignedBy = 1, InNotes = ''trial''\<rparr>"

definition subscription_groups :: groups where
  "subscription_groups i = (if i = 3 then Some (demo_group\<lparr>SubscriptionType := SubscriptionTypeSubscription\<rparr>) else None)"

definition demo_created :: UserSubscription where
  "demo_created = demo_subscription\<lparr>SubID := 2, UserID := 8, StartsAt := Some 5, ExpiresAt := 5 + 240 * Hour, DailyWindowStart := None,
     WeeklyWindowStart := None, MonthlyWindowStart := None, DailyUsageUSD := 0, WeeklyUsageUSD := 0, MonthlyUsageUSD := 0,
     AssignedBy := Some 1, Notes := ''trial''\<rparr>"

lemma demo_first_assignment:
  "assignSubscriptionWithReuse (\<lambda>_. False) False (fixed_zone 0) subscription_groups 5 5 demo_input demo_table =
    (Inr (demo_created, False), \<lparr>sub_rows = [demo_subscription, demo_created], next_sub_id = 3\<rparr>)"
  by code_simp

theorem assignment_is_idempotent_witness:
  "assignSubscriptionWithReuse (\<lambda>_. False) False (fixed_zone 0) subscription_groups (9 * Hour) (9 * Hour) demo_input
     \<lparr>sub_rows = [demo_subscription, demo_created], next_sub_id = 3\<rparr> =
    (Inr (demo_created, True), \<lparr>sub_rows = [demo_subscription, demo_created], next_sub_id = 3\<rparr>)"
proof -
  have "well_formed demo_table" by (simp add: well_formed_def distinct_ids_def demo_table_def demo_subscription_def)
  moreover have "SubStatus demo_created = SubscriptionStatusSuspended \<or> 9 * Hour < ExpiresAt demo_created"
    by (simp add: demo_created_def Hour_def)
  ultimately show ?thesis
    using assignment_is_idempotent[OF _ order_refl demo_first_assignment, of "9 * Hour" "9 * Hour"]
    by (simp add: demo_created_def demo_input_def)
qed

text \<open>After a renewal that appends other notes the repeated request is refused.\<close>

lemma repeat_after_renewal_conflicts:
  "let old = demo_subscription\<lparr>UserID := 8, Notes := ''first''\<rparr>;
       (r, t) = assignSubscriptionWithReuse (\<lambda>_. False) False (fixed_zone 0) subscription_groups (3 * week) (3 * week) demo_input
                  \<lparr>sub_rows = [old], next_sub_id = 2\<rparr>;
       (r', _) = assignSubscriptionWithReuse (\<lambda>_. False) False (fixed_zone 0) subscription_groups (3 * week + 1) (3 * week + 1) demo_input t
   in \<not> isl r \<and> r' = Inl (ErrSubscriptionAssignConflict ''notes_mismatch'')"
  by code_simp

end
