(* ===== verification/SlotRedis.thy ===== *)
theory SlotRedis
  imports GoPrelude "HOL-Library.AList" "HOL-Library.Product_Lexorder" "HOL-Library.List_Lexorder" "HOL-Library.Char_ord"
begin

text \<open>
  The Redis commands that the concurrency slots use (\<open>repository/concurrency_cache.go\<close>): sorted sets of request
  identifiers scored by seconds, and counters. A key may have an expiry; a key whose expiry is not in the future
  is absent, and a sorted set that loses its last member is removed. \<open>rnow\<close> is the clock of the server in
  milliseconds, \<open>TIME\<close> gives its seconds.
\<close>

type_synonym zset = "(string \<times> int) list \<times> int option"
type_synonym counter = "int \<times> int option"

record slot_db =
  zsets :: "string \<Rightarrow> zset option"
  counters :: "string \<Rightarrow> counter option"

definition alive :: "int \<Rightarrow> int option \<Rightarrow> bool" where
  "alive rnow expiry \<longleftrightarrow> (case expiry of None \<Rightarrow> True | Some e \<Rightarrow> rnow < e)"

definition TIME :: "int \<Rightarrow> int" where
  "TIME rnow = rnow div 1000"

section \<open>Sorted sets\<close>

definition zmembers :: "int \<Rightarrow> slot_db \<Rightarrow> string \<Rightarrow> (string \<times> int) list" where
  "zmembers rnow db k = (case zsets db k of None \<Rightarrow> [] | Some (ms, e) \<Rightarrow> if alive rnow e then ms else [])"

definition zexpiry :: "int \<Rightarrow> slot_db \<Rightarrow> string \<Rightarrow> int option" where
  "zexpiry rnow db k = (case zsets db k of None \<Rightarrow> None | Some (ms, e) \<Rightarrow> if alive rnow e then e else None)"

definition zput :: "string \<Rightarrow> (string \<times> int) list \<Rightarrow> int option \<Rightarrow> slot_db \<Rightarrow> slot_db" where
  "zput k ms e db = db\<lparr>zsets := (zsets db)(k := if ms = [] then None else Some (ms, e))\<rparr>"

definition ZREMRANGEBYSCORE :: "int \<Rightarrow> string \<Rightarrow> int \<Rightarrow> slot_db \<Rightarrow> slot_db" where
  "ZREMRANGEBYSCORE rnow k score db =
     zput k (filter (\<lambda>p. score < snd p) (zmembers rnow db k)) (zexpiry rnow db k) db"

definition ZREM :: "int \<Rightarrow> string \<Rightarrow> string list \<Rightarrow> slot_db \<Rightarrow> slot_db" where
  "ZREM rnow k xs db = zput k (filter (\<lambda>p. fst p \<notin> set xs) (zmembers rnow db k)) (zexpiry rnow db k) db"

definition ZSCORE :: "int \<Rightarrow> string \<Rightarrow> string \<Rightarrow> slot_db \<Rightarrow> int option" where
  "ZSCORE rnow k member db = map_of (zmembers rnow db k) member"

definition ZCARD :: "int \<Rightarrow> string \<Rightarrow> slot_db \<Rightarrow> int" where
  "ZCARD rnow k db = int (length (zmembers rnow db k))"

definition ZADD :: "int \<Rightarrow> string \<Rightarrow> int \<Rightarrow> string \<Rightarrow> slot_db \<Rightarrow> slot_db" where
  "ZADD rnow k score member db = zput k (AList.update member score (zmembers rnow db k)) (zexpiry rnow db k) db"

text \<open>\<open>ttl\<close> in seconds; the key may be missing.\<close>

definition ZEXPIRE :: "int \<Rightarrow> string \<Rightarrow> int \<Rightarrow> slot_db \<Rightarrow> slot_db" where
  "ZEXPIRE rnow k ttl db = zput k (zmembers rnow db k) (Some (rnow + ttl * 1000)) db"

definition ZDEL :: "string \<Rightarrow> slot_db \<Rightarrow> slot_db" where
  "ZDEL k db = db\<lparr>zsets := (zsets db)(k := None)\<rparr>"

text \<open>The members in the order of their scores, equal scores in the order of their bytes.\<close>

definition ZRANGE :: "int \<Rightarrow> string \<Rightarrow> slot_db \<Rightarrow> string list" where
  "ZRANGE rnow k db = map fst (sort_key (\<lambda>p. (snd p, fst p)) (zmembers rnow db k))"

definition ZRANGEBYSCORE :: "int \<Rightarrow> string \<Rightarrow> int \<Rightarrow> nat \<Rightarrow> slot_db \<Rightarrow> string list" where
  "ZRANGEBYSCORE rnow k score count db =
     take count (map fst (filter (\<lambda>p. snd p \<le> score) (sort_key (\<lambda>p. (snd p, fst p)) (zmembers rnow db k))))"

section \<open>Counters\<close>

definition GET :: "int \<Rightarrow> string \<Rightarrow> slot_db \<Rightarrow> int option" where
  "GET rnow k db = (case counters db k of None \<Rightarrow> None | Some (n, e) \<Rightarrow> if alive rnow e then Some n else None)"

definition cexpiry :: "int \<Rightarrow> slot_db \<Rightarrow> string \<Rightarrow> int option" where
  "cexpiry rnow db k = (case counters db k of None \<Rightarrow> None | Some (n, e) \<Rightarrow> if alive rnow e then e else None)"

definition SET :: "string \<Rightarrow> int \<Rightarrow> int option \<Rightarrow> slot_db \<Rightarrow> slot_db" where
  "SET k n e db = db\<lparr>counters := (counters db)(k := Some (n, e))\<rparr>"

definition INCRBY :: "int \<Rightarrow> string \<Rightarrow> int \<Rightarrow> slot_db \<Rightarrow> slot_db" where
  "INCRBY rnow k d db = SET k ((case GET rnow k db of None \<Rightarrow> 0 | Some n \<Rightarrow> n) + d) (cexpiry rnow db k) db"

definition CEXPIRE :: "int \<Rightarrow> string \<Rightarrow> int \<Rightarrow> slot_db \<Rightarrow> slot_db" where
  "CEXPIRE rnow k ttl db = (case GET rnow k db of None \<Rightarrow> db | Some n \<Rightarrow> SET k n (Some (rnow + ttl * 1000)) db)"

definition CDEL :: "string \<Rightarrow> slot_db \<Rightarrow> slot_db" where
  "CDEL k db = db\<lparr>counters := (counters db)(k := None)\<rparr>"

section \<open>What the commands leave\<close>

lemma slot_zput_sel [simp]:
  "zsets (zput k ms e db) = (zsets db)(k := if ms = [] then None else Some (ms, e))" "counters (zput k ms e db) = counters db"
  by (simp_all add: zput_def)

lemma zmembers_zput [simp]:
  "zmembers rnow (zput k ms e db) k' = (if k' = k then if alive rnow e then ms else [] else zmembers rnow db k')"
  by (simp add: zmembers_def)

lemma zexpiry_zput [simp]:
  "zexpiry rnow (zput k ms e db) k' = (if k' = k then if ms \<noteq> [] \<and> alive rnow e then e else None else zexpiry rnow db k')"
  by (simp add: zexpiry_def)

lemma alive_zexpiry [simp]: "alive rnow (zexpiry rnow db k)"
  by (simp add: zexpiry_def alive_def split: option.split prod.split)

lemma alive_Some [simp]: "alive rnow (Some e) \<longleftrightarrow> rnow < e"
  by (simp add: alive_def)

lemma alive_None [simp]: "alive rnow None"
  by (simp add: alive_def)

lemma zmembers_ZREMRANGEBYSCORE [simp]:
  "zmembers rnow (ZREMRANGEBYSCORE rnow k score db) k' =
    (if k' = k then filter (\<lambda>p. score < snd p) (zmembers rnow db k) else zmembers rnow db k')"
  by (simp add: ZREMRANGEBYSCORE_def)

lemma zmembers_ZREM [simp]:
  "zmembers rnow (ZREM rnow k xs db) k' =
    (if k' = k then filter (\<lambda>p. fst p \<notin> set xs) (zmembers rnow db k) else zmembers rnow db k')"
  by (simp add: ZREM_def)

lemma zmembers_ZADD [simp]:
  "zmembers rnow (ZADD rnow k score m db) k' =
    (if k' = k then AList.update m score (zmembers rnow db k) else zmembers rnow db k')"
  by (simp add: ZADD_def)

lemma zmembers_ZEXPIRE [simp]: "0 < ttl \<Longrightarrow> zmembers rnow (ZEXPIRE rnow k ttl db) k' = zmembers rnow db k'"
  by (simp add: ZEXPIRE_def)

lemma zmembers_ZDEL [simp]: "zmembers rnow (ZDEL k db) k' = (if k' = k then [] else zmembers rnow db k')"
  by (simp add: ZDEL_def zmembers_def)

lemma zmembers_counters [simp]:
  "zmembers rnow (SET k n e db) k' = zmembers rnow db k'" "zmembers rnow (CDEL k db) k' = zmembers rnow db k'"
  "zmembers rnow (INCRBY rnow' k d db) k' = zmembers rnow db k'" "zmembers rnow (CEXPIRE rnow' k ttl db) k' = zmembers rnow db k'"
  by (simp_all add: SET_def CDEL_def INCRBY_def CEXPIRE_def zmembers_def split: option.split)

lemma counters_zset_commands [simp]:
  "counters (ZREMRANGEBYSCORE rnow k score db) = counters db" "counters (ZREM rnow k xs db) = counters db"
  "counters (ZADD rnow k score' m db) = counters db" "counters (ZEXPIRE rnow k ttl db) = counters db"
  "counters (ZDEL k db) = counters db"
  by (simp_all add: ZREMRANGEBYSCORE_def ZREM_def ZADD_def ZEXPIRE_def ZDEL_def)

end
