(* ===== verification/ConcurrencyCache.thy ===== *)
theory ConcurrencyCache
  imports SlotRedis
begin

text \<open>
  The concurrency slots of accounts and users, \<open>repository/concurrency_cache.go\<close>: one sorted set of request
  identifiers per account or user, scored by the second in which a slot was taken, a second one for the leases of
  live sessions, counters of waiting requests, and an index of the accounts and users with load. A Lua script is
  one function of the database; a method is the sequence of its calls at one reading of the clock. Which calls
  fail is an argument; a failure of the index is logged and ignored by the code.
\<close>

section \<open>Keys\<close>

definition accountSlotKeyPrefix :: string where "accountSlotKeyPrefix = ''concurrency:account:''"
definition userSlotKeyPrefix :: string where "userSlotKeyPrefix = ''concurrency:user:''"
definition apiKeySlotKeyPrefix :: string where "apiKeySlotKeyPrefix = ''concurrency:api_key:''"
definition liveAccountSlotKeyPrefix :: string where "liveAccountSlotKeyPrefix = ''concurrency:live:account:''"
definition liveUserSlotKeyPrefix :: string where "liveUserSlotKeyPrefix = ''concurrency:live:user:''"
definition liveAPIKeySlotKeyPrefix :: string where "liveAPIKeySlotKeyPrefix = ''concurrency:live:api_key:''"
definition openAIWSIngressLeaseKeyPrefix :: string where
  "openAIWSIngressLeaseKeyPrefix = ''concurrency:openai_ws_ingress:api_key:''"
definition waitQueueKeyPrefix :: string where "waitQueueKeyPrefix = ''concurrency:wait:''"
definition accountWaitKeyPrefix :: string where "accountWaitKeyPrefix = ''wait:account:''"
definition accountActiveIndexKey :: string where "accountActiveIndexKey = ''concurrency:account:active_index''"
definition userActiveIndexKey :: string where "userActiveIndexKey = ''concurrency:user:active_index''"
definition legacyWaitSweepMarkerKey :: string where
  "legacyWaitSweepMarkerKey = ''concurrency:startup:legacy_wait_sweep:v1''"

definition openAIWSIngressLeaseTTLSeconds :: int where "openAIWSIngressLeaseTTLSeconds = 60"
definition liveLeaseTTLSeconds :: int where "liveLeaseTTLSeconds = 60"
definition defaultSlotTTLMinutes :: int where "defaultSlotTTLMinutes = 15"
definition activeIndexCleanupBatchSize :: nat where "activeIndexCleanupBatchSize = 1000"

lemmas slot_prefix_defs = accountSlotKeyPrefix_def userSlotKeyPrefix_def apiKeySlotKeyPrefix_def
  liveAccountSlotKeyPrefix_def liveUserSlotKeyPrefix_def liveAPIKeySlotKeyPrefix_def
  openAIWSIngressLeaseKeyPrefix_def accountActiveIndexKey_def userActiveIndexKey_def

definition accountSlotKey :: "int \<Rightarrow> string" where "accountSlotKey i = accountSlotKeyPrefix @ Itoa i"
definition userSlotKey :: "int \<Rightarrow> string" where "userSlotKey i = userSlotKeyPrefix @ Itoa i"
definition apiKeySlotKey :: "int \<Rightarrow> string" where "apiKeySlotKey i = apiKeySlotKeyPrefix @ Itoa i"
definition liveAccountSlotKey :: "int \<Rightarrow> string" where "liveAccountSlotKey i = liveAccountSlotKeyPrefix @ Itoa i"
definition liveUserSlotKey :: "int \<Rightarrow> string" where "liveUserSlotKey i = liveUserSlotKeyPrefix @ Itoa i"
definition liveAPIKeySlotKey :: "int \<Rightarrow> string" where "liveAPIKeySlotKey i = liveAPIKeySlotKeyPrefix @ Itoa i"
definition openAIWSIngressLeaseKey :: "int \<Rightarrow> string" where
  "openAIWSIngressLeaseKey i = openAIWSIngressLeaseKeyPrefix @ Itoa i"
definition waitQueueKey :: "int \<Rightarrow> string" where "waitQueueKey i = waitQueueKeyPrefix @ Itoa i"
definition accountWaitKey :: "int \<Rightarrow> string" where "accountWaitKey i = accountWaitKeyPrefix @ Itoa i"

lemmas slot_key_defs = accountSlotKey_def userSlotKey_def apiKeySlotKey_def liveAccountSlotKey_def
  liveUserSlotKey_def liveAPIKeySlotKey_def openAIWSIngressLeaseKey_def

section \<open>The scripts\<close>

text \<open>The reply is the flag and the second of the server.\<close>

definition acquireScript :: "int \<Rightarrow> string \<Rightarrow> string \<Rightarrow> int \<Rightarrow> int \<Rightarrow> string \<Rightarrow> slot_db \<Rightarrow> slot_db \<times> int \<times> int" where
  "acquireScript rnow key liveKey maxConcurrency ttl requestID db =
     (let now = TIME rnow;
          db = ZREMRANGEBYSCORE rnow key (now - ttl) db;
          db = ZREMRANGEBYSCORE rnow liveKey (now - 60) db
      in if ZSCORE rnow key requestID db \<noteq> None
         then (ZEXPIRE rnow key ttl (ZADD rnow key now requestID db), 1, now)
         else if ZCARD rnow key db + ZCARD rnow liveKey db < maxConcurrency
         then (ZEXPIRE rnow key ttl (ZADD rnow key now requestID db), 1, now)
         else (db, 0, now))"

definition getCountScript :: "int \<Rightarrow> string \<Rightarrow> string \<Rightarrow> int \<Rightarrow> slot_db \<Rightarrow> slot_db \<times> int" where
  "getCountScript rnow key liveKey ttl db =
     (let now = TIME rnow;
          db = ZREMRANGEBYSCORE rnow key (now - ttl) db;
          db = ZREMRANGEBYSCORE rnow liveKey (now - 60) db
      in (db, ZCARD rnow key db + ZCARD rnow liveKey db))"

definition acquireLiveLeaseScript ::
    "int \<Rightarrow> string \<Rightarrow> string \<Rightarrow> string \<Rightarrow> string \<Rightarrow> string \<Rightarrow> int \<Rightarrow> int \<Rightarrow> int \<Rightarrow> string \<Rightarrow> int \<Rightarrow> slot_db \<Rightarrow> slot_db \<times> int" where
  "acquireLiveLeaseScript rnow accountRegular accountLive userRegular userLive apiLive accountMax userMax ttl leaseID replacing db =
     (let now = TIME rnow;
          liveExpireBefore = now - ttl;
          db = ZREMRANGEBYSCORE rnow accountLive liveExpireBefore db;
          db = ZREMRANGEBYSCORE rnow userLive liveExpireBefore db;
          db = ZREMRANGEBYSCORE rnow apiLive liveExpireBefore db
      in if ZSCORE rnow accountLive leaseID db \<noteq> None then (db, 1)
         else
           let accountCount = ZCARD rnow accountRegular db + ZCARD rnow accountLive db;
               userCount = ZCARD rnow userRegular db + ZCARD rnow userLive db;
               allowance = (if replacing = 1 then 1 else 0)
           in if accountMax > 0 \<and> accountCount \<ge> accountMax + allowance then (db, 0)
              else if userMax > 0 \<and> userCount \<ge> userMax + allowance then (db, 0)
              else let db = ZADD rnow accountLive now leaseID db;
                       db = ZADD rnow userLive now leaseID db;
                       db = ZADD rnow apiLive now leaseID db;
                       db = ZEXPIRE rnow accountLive ttl db;
                       db = ZEXPIRE rnow userLive ttl db;
                       db = ZEXPIRE rnow apiLive ttl db
                   in (db, 1))"

text \<open>The first loop of the script: purge and look, key by key; the keys after a missing one are not purged.\<close>

fun refresh_look :: "int \<Rightarrow> int \<Rightarrow> string \<Rightarrow> string list \<Rightarrow> slot_db \<Rightarrow> slot_db \<times> bool" where
  "refresh_look rnow expireBefore leaseID [] db = (db, True)"
| "refresh_look rnow expireBefore leaseID (key # keys) db =
     (let db = ZREMRANGEBYSCORE rnow key expireBefore db
      in if ZSCORE rnow key leaseID db = None then (db, False) else refresh_look rnow expireBefore leaseID keys db)"

definition refreshLiveLeaseScript :: "int \<Rightarrow> string list \<Rightarrow> int \<Rightarrow> string \<Rightarrow> slot_db \<Rightarrow> slot_db \<times> int" where
  "refreshLiveLeaseScript rnow keys ttl leaseID db =
     (let now = TIME rnow
      in case refresh_look rnow (now - ttl) leaseID keys db of
           (db, False) \<Rightarrow> (db, 0)
         | (db, True) \<Rightarrow> (fold (\<lambda>key db. ZEXPIRE rnow key ttl (ZADD rnow key now leaseID db)) keys db, 1))"

definition trackSlotScript :: "int \<Rightarrow> string \<Rightarrow> int \<Rightarrow> string \<Rightarrow> slot_db \<Rightarrow> slot_db" where
  "trackSlotScript rnow key ttl requestID db =
     (let now = TIME rnow; db = ZREMRANGEBYSCORE rnow key (now - ttl) db
      in ZEXPIRE rnow key ttl (ZADD rnow key now requestID db))"

definition acquireOpenAIWSIngressLeaseScript :: "int \<Rightarrow> string \<Rightarrow> int \<Rightarrow> int \<Rightarrow> string \<Rightarrow> slot_db \<Rightarrow> slot_db \<times> int" where
  "acquireOpenAIWSIngressLeaseScript rnow key maxConnections ttl leaseID db =
     (let now = TIME rnow; db = ZREMRANGEBYSCORE rnow key (now - ttl) db
      in if ZSCORE rnow key leaseID db \<noteq> None then (ZEXPIRE rnow key ttl (ZADD rnow key now leaseID db), 1)
         else if ZCARD rnow key db < maxConnections then (ZEXPIRE rnow key ttl (ZADD rnow key now leaseID db), 1)
         else (db, 0))"

definition refreshOpenAIWSIngressLeaseScript :: "int \<Rightarrow> string \<Rightarrow> int \<Rightarrow> string \<Rightarrow> slot_db \<Rightarrow> slot_db \<times> int" where
  "refreshOpenAIWSIngressLeaseScript rnow key ttl leaseID db =
     (let now = TIME rnow; db = ZREMRANGEBYSCORE rnow key (now - ttl) db
      in if ZSCORE rnow key leaseID db = None then (db, 0)
         else (ZEXPIRE rnow key ttl (ZADD rnow key now leaseID db), 1))"

definition incrementWaitScript :: "int \<Rightarrow> string \<Rightarrow> int \<Rightarrow> int \<Rightarrow> slot_db \<Rightarrow> slot_db \<times> int \<times> int" where
  "incrementWaitScript rnow key maxWait ttl db =
     (let current = (case GET rnow key db of None \<Rightarrow> 0 | Some n \<Rightarrow> n); now = TIME rnow
      in if current \<ge> maxWait then (db, 0, now)
         else (CEXPIRE rnow key ttl (INCRBY rnow key 1 db), 1, now))"

definition incrementAccountWaitScript :: "int \<Rightarrow> string \<Rightarrow> int \<Rightarrow> int \<Rightarrow> slot_db \<Rightarrow> slot_db \<times> int \<times> int" where
  "incrementAccountWaitScript rnow key maxWait ttl db =
     (let current = (case GET rnow key db of None \<Rightarrow> 0 | Some n \<Rightarrow> n); now = TIME rnow
      in if current \<ge> maxWait then (db, 0, now)
         else (CEXPIRE rnow key ttl (INCRBY rnow key 1 db), 1, now))"

definition decrementWaitScript :: "int \<Rightarrow> string \<Rightarrow> slot_db \<Rightarrow> slot_db" where
  "decrementWaitScript rnow key db =
     (case GET rnow key db of None \<Rightarrow> db | Some n \<Rightarrow> if n > 0 then INCRBY rnow key (- 1) db else db)"

definition cleanupExpiredSlotsScript :: "int \<Rightarrow> string \<Rightarrow> int \<Rightarrow> slot_db \<Rightarrow> slot_db" where
  "cleanupExpiredSlotsScript rnow key ttl db =
     (let now = TIME rnow; db = ZREMRANGEBYSCORE rnow key (now - ttl) db
      in if ZCARD rnow key db = 0 then ZDEL key db else ZEXPIRE rnow key ttl db)"

text \<open>The reply is the number of members removed and the number left.\<close>

definition startupCleanupSlotScript :: "int \<Rightarrow> string \<Rightarrow> string \<Rightarrow> int \<Rightarrow> slot_db \<Rightarrow> slot_db \<times> int \<times> int" where
  "startupCleanupSlotScript rnow key activePrefix slotTTL db =
     (let foreign = filter (\<lambda>m. take (length activePrefix) m \<noteq> activePrefix) (ZRANGE rnow key db);
          db = ZREM rnow key foreign db;
          remaining = ZCARD rnow key db
      in (if remaining = 0 then ZDEL key db else ZEXPIRE rnow key slotTTL db, int (length foreign), remaining))"

section \<open>The active index\<close>

record concurrencyCache =
  slotTTLSeconds :: int
  waitQueueTTLSeconds :: int

definition NewConcurrencyCache :: "int \<Rightarrow> int \<Rightarrow> concurrencyCache" where
  "NewConcurrencyCache slotTTLMinutes waitTTLSeconds =
     (let slotTTLMinutes = (if slotTTLMinutes \<le> 0 then defaultSlotTTLMinutes else slotTTLMinutes);
          waitTTLSeconds = (if waitTTLSeconds \<le> 0 then slotTTLMinutes * 60 else waitTTLSeconds)
      in \<lparr>slotTTLSeconds = slotTTLMinutes * 60, waitQueueTTLSeconds = waitTTLSeconds\<rparr>)"

datatype slot_call = CallScript | CallZRem | CallTime | CallLoad | CallIndexAdd | CallIndexRem | CallIndexRead | CallGet
  | CallSweep | CallDel

type_synonym slot_failures = "slot_call \<Rightarrow> bool"

definition touchActiveIndexAt :: "slot_failures \<Rightarrow> int \<Rightarrow> string \<Rightarrow> int \<Rightarrow> int \<Rightarrow> slot_db \<Rightarrow> slot_db" where
  "touchActiveIndexAt fails rnow indexKey i expireAt db =
     (if i \<le> 0 \<or> expireAt \<le> 0 \<or> fails CallIndexAdd then db else ZADD rnow indexKey expireAt (Itoa i) db)"

record activeIndexLoad =
  load_id :: int
  load_member :: string
  slotCount :: int
  waitCount :: int

definition activeIndexTTL :: "concurrencyCache \<Rightarrow> int \<Rightarrow> int \<Rightarrow> int" where
  "activeIndexTTL c slots waiting =
     (let ttlSeconds = (if slots > 0 then slotTTLSeconds c else 0)
      in if waiting > 0 \<and> waitQueueTTLSeconds c > ttlSeconds then waitQueueTTLSeconds c else ttlSeconds)"

definition readActiveLoadForKey ::
    "concurrencyCache \<Rightarrow> int \<Rightarrow> int \<Rightarrow> string \<Rightarrow> string \<Rightarrow> int \<Rightarrow> slot_db \<Rightarrow> slot_db \<times> activeIndexLoad" where
  "readActiveLoadForKey c rnow i slotKey waitKey now db =
     (let db = ZREMRANGEBYSCORE rnow slotKey (now - slotTTLSeconds c) db;
          waiting = (case GET rnow waitKey db of None \<Rightarrow> 0 | Some v \<Rightarrow> if v > 0 then v else 0)
      in (db, \<lparr>load_id = i, load_member = Itoa i, slotCount = ZCARD rnow slotKey db, waitCount = waiting\<rparr>))"

definition refreshActiveIndex ::
    "concurrencyCache \<Rightarrow> slot_failures \<Rightarrow> int \<Rightarrow> string \<Rightarrow> int \<Rightarrow> string \<Rightarrow> string \<Rightarrow> slot_db \<Rightarrow> slot_db" where
  "refreshActiveIndex c fails rnow indexKey i slotKey waitKey db =
     (if i \<le> 0 \<or> fails CallTime \<or> fails CallLoad then db
      else
        let now = TIME rnow; (db, load) = readActiveLoadForKey c rnow i slotKey waitKey now db
        in if slotCount load = 0 \<and> waitCount load \<le> 0
           then (if fails CallIndexRem then db else ZREM rnow indexKey [Itoa i] db)
           else let ttlSeconds = activeIndexTTL c (slotCount load) (waitCount load)
                in if ttlSeconds \<le> 0 then db
                   else touchActiveIndexAt fails rnow indexKey i (now + ttlSeconds) db)"

definition refreshAccountActiveIndex :: "concurrencyCache \<Rightarrow> slot_failures \<Rightarrow> int \<Rightarrow> int \<Rightarrow> slot_db \<Rightarrow> slot_db" where
  "refreshAccountActiveIndex c fails rnow i =
     refreshActiveIndex c fails rnow accountActiveIndexKey i (accountSlotKey i) (accountWaitKey i)"

definition refreshUserActiveIndex :: "concurrencyCache \<Rightarrow> slot_failures \<Rightarrow> int \<Rightarrow> int \<Rightarrow> slot_db \<Rightarrow> slot_db" where
  "refreshUserActiveIndex c fails rnow i =
     refreshActiveIndex c fails rnow userActiveIndexKey i (userSlotKey i) (waitQueueKey i)"

section \<open>Slots\<close>

text \<open>\<open>None\<close> is an error of the call to Redis.\<close>

definition AcquireAccountSlot ::
    "concurrencyCache \<Rightarrow> slot_failures \<Rightarrow> int \<Rightarrow> int \<Rightarrow> int \<Rightarrow> string \<Rightarrow> slot_db \<Rightarrow> slot_db \<times> bool option" where
  "AcquireAccountSlot c fails rnow accountID maxConcurrency requestID db =
     (if fails CallScript then (db, None)
      else case acquireScript rnow (accountSlotKey accountID) (liveAccountSlotKey accountID) maxConcurrency
                  (slotTTLSeconds c) requestID db of
             (db, result, now) \<Rightarrow>
               (if result = 1
                then touchActiveIndexAt fails rnow accountActiveIndexKey accountID (now + slotTTLSeconds c) db else db,
                Some (result = 1)))"

definition ReleaseAccountSlot ::
    "concurrencyCache \<Rightarrow> slot_failures \<Rightarrow> int \<Rightarrow> int \<Rightarrow> string \<Rightarrow> slot_db \<Rightarrow> slot_db \<times> bool" where
  "ReleaseAccountSlot c fails rnow accountID requestID db =
     (if fails CallZRem then (db, False)
      else (refreshAccountActiveIndex c fails rnow accountID (ZREM rnow (accountSlotKey accountID) [requestID] db), True))"

definition GetAccountConcurrency :: "concurrencyCache \<Rightarrow> slot_failures \<Rightarrow> int \<Rightarrow> int \<Rightarrow> slot_db \<Rightarrow> slot_db \<times> int option" where
  "GetAccountConcurrency c fails rnow accountID db =
     (if fails CallScript then (db, None)
      else case getCountScript rnow (accountSlotKey accountID) (liveAccountSlotKey accountID) (slotTTLSeconds c) db of
             (db, n) \<Rightarrow> (db, Some n))"

definition AcquireUserSlot ::
    "concurrencyCache \<Rightarrow> slot_failures \<Rightarrow> int \<Rightarrow> int \<Rightarrow> int \<Rightarrow> string \<Rightarrow> slot_db \<Rightarrow> slot_db \<times> bool option" where
  "AcquireUserSlot c fails rnow userID maxConcurrency requestID db =
     (if fails CallScript then (db, None)
      else case acquireScript rnow (userSlotKey userID) (liveUserSlotKey userID) maxConcurrency
                  (slotTTLSeconds c) requestID db of
             (db, result, now) \<Rightarrow>
               (if result = 1
                then touchActiveIndexAt fails rnow userActiveIndexKey userID (now + slotTTLSeconds c) db else db,
                Some (result = 1)))"

definition ReleaseUserSlot ::
    "concurrencyCache \<Rightarrow> slot_failures \<Rightarrow> int \<Rightarrow> int \<Rightarrow> string \<Rightarrow> slot_db \<Rightarrow> slot_db \<times> bool" where
  "ReleaseUserSlot c fails rnow userID requestID db =
     (if fails CallZRem then (db, False)
      else (refreshUserActiveIndex c fails rnow userID (ZREM rnow (userSlotKey userID) [requestID] db), True))"

definition GetUserConcurrency :: "concurrencyCache \<Rightarrow> slot_failures \<Rightarrow> int \<Rightarrow> int \<Rightarrow> slot_db \<Rightarrow> slot_db \<times> int option" where
  "GetUserConcurrency c fails rnow userID db =
     (if fails CallScript then (db, None)
      else case getCountScript rnow (userSlotKey userID) (liveUserSlotKey userID) (slotTTLSeconds c) db of
             (db, n) \<Rightarrow> (db, Some n))"

definition TrackAPIKeySlot ::
    "concurrencyCache \<Rightarrow> slot_failures \<Rightarrow> int \<Rightarrow> int \<Rightarrow> string \<Rightarrow> slot_db \<Rightarrow> slot_db \<times> bool" where
  "TrackAPIKeySlot c fails rnow apiKeyID requestID db =
     (if fails CallScript then (db, False)
      else (trackSlotScript rnow (apiKeySlotKey apiKeyID) (slotTTLSeconds c) requestID db, True))"

definition ReleaseAPIKeySlot :: "slot_failures \<Rightarrow> int \<Rightarrow> int \<Rightarrow> string \<Rightarrow> slot_db \<Rightarrow> slot_db \<times> bool" where
  "ReleaseAPIKeySlot fails rnow apiKeyID requestID db =
     (if fails CallZRem then (db, False) else (ZREM rnow (apiKeySlotKey apiKeyID) [requestID] db, True))"

section \<open>Leases\<close>

definition AcquireOpenAIWSIngressLease ::
    "slot_failures \<Rightarrow> int \<Rightarrow> int \<Rightarrow> int \<Rightarrow> string \<Rightarrow> slot_db \<Rightarrow> slot_db \<times> bool option" where
  "AcquireOpenAIWSIngressLease fails rnow apiKeyID maxConnections leaseID db =
     (if apiKeyID \<le> 0 \<or> maxConnections \<le> 0 \<or> leaseID = [] then (db, Some False)
      else if fails CallScript then (db, None)
      else case acquireOpenAIWSIngressLeaseScript rnow (openAIWSIngressLeaseKey apiKeyID) maxConnections
                  openAIWSIngressLeaseTTLSeconds leaseID db of
             (db, result) \<Rightarrow> (db, Some (result = 1)))"

definition RefreshOpenAIWSIngressLease ::
    "slot_failures \<Rightarrow> int \<Rightarrow> int \<Rightarrow> string \<Rightarrow> slot_db \<Rightarrow> slot_db \<times> bool option" where
  "RefreshOpenAIWSIngressLease fails rnow apiKeyID leaseID db =
     (if apiKeyID \<le> 0 \<or> leaseID = [] then (db, Some False)
      else if fails CallScript then (db, None)
      else case refreshOpenAIWSIngressLeaseScript rnow (openAIWSIngressLeaseKey apiKeyID) openAIWSIngressLeaseTTLSeconds leaseID db of
             (db, result) \<Rightarrow> (db, Some (result = 1)))"

definition ReleaseOpenAIWSIngressLease :: "slot_failures \<Rightarrow> int \<Rightarrow> int \<Rightarrow> string \<Rightarrow> slot_db \<Rightarrow> slot_db \<times> bool" where
  "ReleaseOpenAIWSIngressLease fails rnow apiKeyID leaseID db =
     (if apiKeyID \<le> 0 \<or> leaseID = [] then (db, True)
      else if fails CallZRem then (db, False)
      else (ZREM rnow (openAIWSIngressLeaseKey apiKeyID) [leaseID] db, True))"

definition AcquireLiveLease ::
    "slot_failures \<Rightarrow> int \<Rightarrow> int \<Rightarrow> int \<Rightarrow> int \<Rightarrow> int \<Rightarrow> int \<Rightarrow> string \<Rightarrow> bool \<Rightarrow> slot_db \<Rightarrow> slot_db \<times> bool option" where
  "AcquireLiveLease fails rnow accountID accountMax userID userMax apiKeyID leaseID replacingRegularSlots db =
     (if accountID \<le> 0 \<or> userID \<le> 0 \<or> apiKeyID \<le> 0 \<or> leaseID = [] then (db, Some False)
      else if fails CallScript then (db, None)
      else case acquireLiveLeaseScript rnow (accountSlotKey accountID) (liveAccountSlotKey accountID) (userSlotKey userID)
                  (liveUserSlotKey userID) (liveAPIKeySlotKey apiKeyID) accountMax userMax liveLeaseTTLSeconds leaseID
                  (if replacingRegularSlots then 1 else 0) db of
             (db, result) \<Rightarrow> (db, Some (result = 1)))"

definition RefreshLiveLease ::
    "slot_failures \<Rightarrow> int \<Rightarrow> int \<Rightarrow> int \<Rightarrow> int \<Rightarrow> string \<Rightarrow> slot_db \<Rightarrow> slot_db \<times> bool option" where
  "RefreshLiveLease fails rnow accountID userID apiKeyID leaseID db =
     (if leaseID = [] then (db, Some False)
      else if fails CallScript then (db, None)
      else case refreshLiveLeaseScript rnow
                  [liveAccountSlotKey accountID, liveUserSlotKey userID, liveAPIKeySlotKey apiKeyID] liveLeaseTTLSeconds leaseID db of
             (db, result) \<Rightarrow> (db, Some (result = 1)))"

definition ReleaseLiveLease :: "slot_failures \<Rightarrow> int \<Rightarrow> int \<Rightarrow> int \<Rightarrow> int \<Rightarrow> string \<Rightarrow> slot_db \<Rightarrow> slot_db \<times> bool" where
  "ReleaseLiveLease fails rnow accountID userID apiKeyID leaseID db =
     (if leaseID = [] then (db, True)
      else if fails CallZRem then (db, False)
      else let db = ZREM rnow (liveAccountSlotKey accountID) [leaseID] db;
               db = ZREM rnow (liveUserSlotKey userID) [leaseID] db
           in (ZREM rnow (liveAPIKeySlotKey apiKeyID) [leaseID] db, True))"

section \<open>Waiting requests\<close>

definition IncrementWaitCount :: "concurrencyCache \<Rightarrow> slot_failures \<Rightarrow> int \<Rightarrow> int \<Rightarrow> int \<Rightarrow> slot_db \<Rightarrow> slot_db \<times> bool option" where
  "IncrementWaitCount c fails rnow userID maxWait db =
     (if fails CallScript then (db, None)
      else case incrementWaitScript rnow (waitQueueKey userID) maxWait (waitQueueTTLSeconds c) db of
             (db, result, now) \<Rightarrow>
               (if result = 1 then touchActiveIndexAt fails rnow userActiveIndexKey userID (now + waitQueueTTLSeconds c) db else db,
                Some (result = 1)))"

definition DecrementWaitCount :: "concurrencyCache \<Rightarrow> slot_failures \<Rightarrow> int \<Rightarrow> int \<Rightarrow> slot_db \<Rightarrow> slot_db \<times> bool" where
  "DecrementWaitCount c fails rnow userID db =
     (if fails CallScript then (db, False)
      else (refreshUserActiveIndex c fails rnow userID (decrementWaitScript rnow (waitQueueKey userID) db), True))"

definition IncrementAccountWaitCount :: "concurrencyCache \<Rightarrow> slot_failures \<Rightarrow> int \<Rightarrow> int \<Rightarrow> int \<Rightarrow> slot_db \<Rightarrow> slot_db \<times> bool option" where
  "IncrementAccountWaitCount c fails rnow accountID maxWait db =
     (if fails CallScript then (db, None)
      else case incrementAccountWaitScript rnow (accountWaitKey accountID) maxWait (waitQueueTTLSeconds c) db of
             (db, result, now) \<Rightarrow>
               (if result = 1 then touchActiveIndexAt fails rnow accountActiveIndexKey accountID (now + waitQueueTTLSeconds c) db else db,
                Some (result = 1)))"

definition DecrementAccountWaitCount :: "concurrencyCache \<Rightarrow> slot_failures \<Rightarrow> int \<Rightarrow> int \<Rightarrow> slot_db \<Rightarrow> slot_db \<times> bool" where
  "DecrementAccountWaitCount c fails rnow accountID db =
     (if fails CallScript then (db, False)
      else (refreshAccountActiveIndex c fails rnow accountID (decrementWaitScript rnow (accountWaitKey accountID) db), True))"

definition GetAccountWaitingCount :: "slot_failures \<Rightarrow> int \<Rightarrow> int \<Rightarrow> slot_db \<Rightarrow> int option" where
  "GetAccountWaitingCount fails rnow accountID db =
     (if fails CallGet then None
      else Some (case GET rnow (accountWaitKey accountID) db of None \<Rightarrow> 0 | Some v \<Rightarrow> v))"

section \<open>Load\<close>

record AccountLoadInfo =
  AccountID :: int
  CurrentConcurrency :: int
  WaitingCount :: int
  LoadRate :: int

text \<open>The purge, counts and load of one account or user in the pipeline.\<close>

definition load_info ::
    "concurrencyCache \<Rightarrow> int \<Rightarrow> (int \<Rightarrow> string) \<Rightarrow> (int \<Rightarrow> string) \<Rightarrow> (int \<Rightarrow> string) \<Rightarrow> int \<times> int \<Rightarrow> slot_db \<Rightarrow> slot_db \<times> AccountLoadInfo" where
  "load_info c rnow slots lives waits acc db =
     (let (i, maxConcurrency) = acc;
          now = TIME rnow;
          db = ZREMRANGEBYSCORE rnow (slots i) (now - slotTTLSeconds c) db;
          db = ZREMRANGEBYSCORE rnow (lives i) (now - liveLeaseTTLSeconds) db;
          currentConcurrency = ZCARD rnow (slots i) db + ZCARD rnow (lives i) db;
          waitingCount = (case GET rnow (waits i) db of None \<Rightarrow> 0 | Some v \<Rightarrow> v);
          loadRate = (if maxConcurrency > 0 then ((currentConcurrency + waitingCount) * 100) sdiv maxConcurrency else 0)
      in (db, \<lparr>AccountID = i, CurrentConcurrency = currentConcurrency, WaitingCount = waitingCount, LoadRate = loadRate\<rparr>))"

fun loads_of :: "('a \<Rightarrow> slot_db \<Rightarrow> slot_db \<times> 'b) \<Rightarrow> 'a list \<Rightarrow> slot_db \<Rightarrow> slot_db \<times> 'b list" where
  "loads_of f [] db = (db, [])"
| "loads_of f (x # xs) db = (let (db, l) = f x db; (db, ls) = loads_of f xs db in (db, l # ls))"

definition GetAccountsLoadBatch ::
    "concurrencyCache \<Rightarrow> slot_failures \<Rightarrow> int \<Rightarrow> (int \<times> int) list \<Rightarrow> slot_db \<Rightarrow> slot_db \<times> AccountLoadInfo list option" where
  "GetAccountsLoadBatch c fails rnow accounts db =
     (if accounts = [] then (db, Some [])
      else if fails CallTime \<or> fails CallLoad then (db, None)
      else case loads_of (load_info c rnow accountSlotKey liveAccountSlotKey accountWaitKey) accounts db of (db, ls) \<Rightarrow> (db, Some ls))"

definition GetUsersLoadBatch ::
    "concurrencyCache \<Rightarrow> slot_failures \<Rightarrow> int \<Rightarrow> (int \<times> int) list \<Rightarrow> slot_db \<Rightarrow> slot_db \<times> AccountLoadInfo list option" where
  "GetUsersLoadBatch c fails rnow users db =
     (if users = [] then (db, Some [])
      else if fails CallTime \<or> fails CallLoad then (db, None)
      else case loads_of (load_info c rnow userSlotKey liveUserSlotKey waitQueueKey) users db of (db, ls) \<Rightarrow> (db, Some ls))"

definition concurrency_of ::
    "concurrencyCache \<Rightarrow> int \<Rightarrow> (int \<Rightarrow> string) \<Rightarrow> (int \<Rightarrow> string) \<Rightarrow> int \<Rightarrow> slot_db \<Rightarrow> slot_db \<times> int \<times> int" where
  "concurrency_of c rnow slots lives i db =
     (let now = TIME rnow;
          db = ZREMRANGEBYSCORE rnow (slots i) (now - slotTTLSeconds c) db;
          db = ZREMRANGEBYSCORE rnow (lives i) (now - liveLeaseTTLSeconds) db
      in (db, i, ZCARD rnow (slots i) db + ZCARD rnow (lives i) db))"

definition GetAccountConcurrencyBatch ::
    "concurrencyCache \<Rightarrow> slot_failures \<Rightarrow> int \<Rightarrow> int list \<Rightarrow> slot_db \<Rightarrow> slot_db \<times> (int \<times> int) list option" where
  "GetAccountConcurrencyBatch c fails rnow accountIDs db =
     (if accountIDs = [] then (db, Some [])
      else if fails CallTime \<or> fails CallLoad then (db, None)
      else case loads_of (concurrency_of c rnow accountSlotKey liveAccountSlotKey) accountIDs db of (db, ls) \<Rightarrow> (db, Some ls))"

definition GetAPIKeyConcurrencyBatch ::
    "concurrencyCache \<Rightarrow> slot_failures \<Rightarrow> int \<Rightarrow> int list \<Rightarrow> slot_db \<Rightarrow> slot_db \<times> (int \<times> int) list option" where
  "GetAPIKeyConcurrencyBatch c fails rnow apiKeyIDs db =
     (if apiKeyIDs = [] then (db, Some [])
      else if fails CallTime \<or> fails CallLoad then (db, None)
      else case loads_of (concurrency_of c rnow apiKeySlotKey liveAPIKeySlotKey) apiKeyIDs db of (db, ls) \<Rightarrow> (db, Some ls))"

section \<open>Cleaning\<close>

definition CleanupExpiredAccountSlots :: "concurrencyCache \<Rightarrow> slot_failures \<Rightarrow> int \<Rightarrow> int \<Rightarrow> slot_db \<Rightarrow> slot_db \<times> bool" where
  "CleanupExpiredAccountSlots c fails rnow accountID db =
     (if fails CallScript then (db, False)
      else (refreshAccountActiveIndex c fails rnow accountID
              (cleanupExpiredSlotsScript rnow (accountSlotKey accountID) (slotTTLSeconds c) db), True))"

record slotIndexSpec =
  indexKey :: string
  slotKey :: "int \<Rightarrow> string"
  waitKey :: "int \<Rightarrow> string"

definition accountSlotIndex :: slotIndexSpec where
  "accountSlotIndex = \<lparr>indexKey = accountActiveIndexKey, slotKey = accountSlotKey, waitKey = accountWaitKey\<rparr>"

definition userSlotIndex :: slotIndexSpec where
  "userSlotIndex = \<lparr>indexKey = userActiveIndexKey, slotKey = userSlotKey, waitKey = waitQueueKey\<rparr>"

text \<open>A member that is not a positive number is stale.\<close>

definition index_id :: "string \<Rightarrow> int option" where
  "index_id m = (case ParseInt64 m of None \<Rightarrow> None | Some i \<Rightarrow> if i > 0 then Some i else None)"

definition readIndexLoads ::
    "concurrencyCache \<Rightarrow> int \<Rightarrow> slotIndexSpec \<Rightarrow> string list \<Rightarrow> int \<Rightarrow> slot_db \<Rightarrow> slot_db \<times> activeIndexLoad list \<times> string list" where
  "readIndexLoads c rnow spec ms now db =
     (let staleMembers = filter (\<lambda>m. index_id m = None) ms;
          candidates = filter (\<lambda>m. index_id m \<noteq> None) ms;
          (db, loads) = loads_of (\<lambda>m db.
            let i = the (index_id m); (db, load) = readActiveLoadForKey c rnow i (slotKey spec i) (waitKey spec i) now db
            in (db, load\<lparr>load_member := m\<rparr>)) candidates db
      in (db, loads, staleMembers))"

definition removeActiveIndexMembers :: "slot_failures \<Rightarrow> int \<Rightarrow> string \<Rightarrow> string list \<Rightarrow> slot_db \<Rightarrow> slot_db" where
  "removeActiveIndexMembers fails rnow key ms db = (if ms = [] \<or> fails CallIndexRem then db else ZREM rnow key ms db)"

definition add_index_members :: "slot_failures \<Rightarrow> int \<Rightarrow> string \<Rightarrow> (string \<times> int) list \<Rightarrow> slot_db \<Rightarrow> slot_db" where
  "add_index_members fails rnow key refreshed db =
     (if refreshed = [] \<or> fails CallIndexAdd then db else fold (\<lambda>(m, s). ZADD rnow key s m) refreshed db)"

definition reconcileExpiredIndexCandidates ::
    "concurrencyCache \<Rightarrow> slot_failures \<Rightarrow> int \<Rightarrow> slotIndexSpec \<Rightarrow> slot_db \<Rightarrow> slot_db \<times> bool" where
  "reconcileExpiredIndexCandidates c fails rnow spec db =
     (if fails CallTime \<or> fails CallIndexRead then (db, False)
      else let now = TIME rnow;
               ms = ZRANGEBYSCORE rnow (indexKey spec) now activeIndexCleanupBatchSize db
           in if fails CallLoad then (db, False)
              else let (db, loads, staleMembers) = readIndexLoads c rnow spec ms now db;
                       empty = (\<lambda>l. slotCount l = 0 \<and> waitCount l \<le> 0);
                       staleMembers = staleMembers @ map load_member (filter empty loads);
                       refreshed = map (\<lambda>l. (load_member l, now + activeIndexTTL c (slotCount l) (waitCount l)))
                                     (filter (\<lambda>l. \<not> empty l) loads);
                       db = add_index_members fails rnow (indexKey spec) refreshed db
                   in (removeActiveIndexMembers fails rnow (indexKey spec) staleMembers db, True))"

definition CleanupExpiredAccountSlotKeys :: "concurrencyCache \<Rightarrow> slot_failures \<Rightarrow> int \<Rightarrow> slot_db \<Rightarrow> slot_db \<times> bool" where
  "CleanupExpiredAccountSlotKeys c fails rnow db =
     (case reconcileExpiredIndexCandidates c fails rnow accountSlotIndex db of
        (db, False) \<Rightarrow> (db, False)
      | (db, True) \<Rightarrow> reconcileExpiredIndexCandidates c fails rnow userSlotIndex db)"

text \<open>The scan for old counters, run once in the life of the database.\<close>

definition sweepLegacyWaitKeysOnce :: "slot_failures \<Rightarrow> int \<Rightarrow> slot_db \<Rightarrow> slot_db \<times> bool" where
  "sweepLegacyWaitKeysOnce fails rnow db =
     (if fails CallSweep then (db, False)
      else if GET rnow legacyWaitSweepMarkerKey db \<noteq> None then (db, True)
      else (SET legacyWaitSweepMarkerKey 1 None
              (db\<lparr>counters := (\<lambda>k. if HasPrefix k accountWaitKeyPrefix \<or> HasPrefix k waitQueueKeyPrefix then None else counters db k)\<rparr>),
            True))"

fun cleanup_members ::
    "concurrencyCache \<Rightarrow> int \<Rightarrow> slotIndexSpec \<Rightarrow> string \<Rightarrow> int \<Rightarrow> string list \<Rightarrow> slot_db \<Rightarrow> slot_db \<times> (string \<times> int) list \<times> string list" where
  "cleanup_members c rnow spec activePrefix now [] db = (db, [], [])"
| "cleanup_members c rnow spec activePrefix now (m # ms) db =
     (case index_id m of
        None \<Rightarrow> (case cleanup_members c rnow spec activePrefix now ms db of (db, refreshed, stale) \<Rightarrow> (db, refreshed, m # stale))
      | Some i \<Rightarrow>
          (case startupCleanupSlotScript rnow (slotKey spec i) activePrefix (slotTTLSeconds c) db of
             (db, _, remaining) \<Rightarrow>
               (case cleanup_members c rnow spec activePrefix now ms (CDEL (waitKey spec i) db) of
                  (db, refreshed, stale) \<Rightarrow>
                    if remaining > 0 then (db, (m, now + slotTTLSeconds c) # refreshed, stale) else (db, refreshed, m # stale))))"

definition cleanupStaleProcessSlotsForIndex ::
    "concurrencyCache \<Rightarrow> slot_failures \<Rightarrow> int \<Rightarrow> slotIndexSpec \<Rightarrow> string list \<Rightarrow> string \<Rightarrow> slot_db \<Rightarrow> slot_db" where
  "cleanupStaleProcessSlotsForIndex c fails rnow spec ms activePrefix db =
     (case cleanup_members c rnow spec activePrefix (TIME rnow) ms db of
        (db, refreshed, stale) \<Rightarrow>
          removeActiveIndexMembers fails rnow (indexKey spec) stale (add_index_members fails rnow (indexKey spec) refreshed db))"

text \<open>The calls inside the loops are taken to succeed.\<close>

definition CleanupStaleProcessSlots :: "concurrencyCache \<Rightarrow> slot_failures \<Rightarrow> int \<Rightarrow> string \<Rightarrow> slot_db \<Rightarrow> slot_db \<times> bool" where
  "CleanupStaleProcessSlots c fails rnow activeRequestPrefix db =
     (if activeRequestPrefix = [] then (db, True)
      else case sweepLegacyWaitKeysOnce fails rnow db of
        (db, False) \<Rightarrow> (db, False)
      | (db, True) \<Rightarrow>
          if fails CallTime \<or> fails CallIndexRead then (db, False)
          else let db = cleanupStaleProcessSlotsForIndex c fails rnow accountSlotIndex (ZRANGE rnow accountActiveIndexKey db)
                          activeRequestPrefix db
               in (cleanupStaleProcessSlotsForIndex c fails rnow userSlotIndex (ZRANGE rnow userActiveIndexKey db)
                     activeRequestPrefix db, True))"

section \<open>The service\<close>

definition defaultExtraWaitSlots :: int where "defaultExtraWaitSlots = 20"

definition CalculateMaxWait :: "int \<Rightarrow> int" where
  "CalculateMaxWait userConcurrency = (if userConcurrency \<le> 0 then 1 else userConcurrency) + defaultExtraWaitSlots"

text \<open>A limit that is not positive is none. The slot to release is \<open>None\<close> when there is nothing to release.\<close>

definition service_AcquireAccountSlot ::
    "concurrencyCache \<Rightarrow> slot_failures \<Rightarrow> int \<Rightarrow> int \<Rightarrow> int \<Rightarrow> string \<Rightarrow> slot_db \<Rightarrow> slot_db \<times> (bool \<times> string option) option" where
  "service_AcquireAccountSlot c fails rnow accountID maxConcurrency requestID db =
     (if maxConcurrency \<le> 0 then (db, Some (True, None))
      else case AcquireAccountSlot c fails rnow accountID maxConcurrency requestID db of
             (db, None) \<Rightarrow> (db, None)
           | (db, Some True) \<Rightarrow> (db, Some (True, Some requestID))
           | (db, Some False) \<Rightarrow> (db, Some (False, None)))"

definition service_IncrementWaitCount ::
    "concurrencyCache \<Rightarrow> slot_failures \<Rightarrow> int \<Rightarrow> int \<Rightarrow> int \<Rightarrow> slot_db \<Rightarrow> slot_db \<times> bool" where
  "service_IncrementWaitCount c fails rnow userID maxWait db =
     (case IncrementWaitCount c fails rnow userID maxWait db of
        (db, None) \<Rightarrow> (db, True)
      | (db, Some ok) \<Rightarrow> (db, ok))"

text \<open>One tick of \<open>refreshLoop\<close>: the instant of the last confirmation, and whether the lease is lost. \<open>now\<close> is the
  clock after the call.\<close>

definition openAIWSIngressLeaseTTL :: duration where "openAIWSIngressLeaseTTL = 60 * Second"

definition lease_refresh ::
    "slot_failures \<Rightarrow> int \<Rightarrow> gotime \<Rightarrow> int \<Rightarrow> string \<Rightarrow> gotime \<Rightarrow> slot_db \<Rightarrow> slot_db \<times> gotime \<times> bool" where
  "lease_refresh fails rnow now apiKeyID leaseID lastConfirmedAt db =
     (case RefreshOpenAIWSIngressLease fails rnow apiKeyID leaseID db of
        (db, Some True) \<Rightarrow> (db, now, False)
      | (db, Some False) \<Rightarrow> (db, lastConfirmedAt, True)
      | (db, None) \<Rightarrow> (db, lastConfirmedAt, time_sub now lastConfirmedAt \<ge> openAIWSIngressLeaseTTL))"

end
