(* ===== verification/ConcurrencyLimit.thy ===== *)
theory ConcurrencyLimit
  imports ConcurrencyCache
begin

text \<open>
  What the slots guarantee. A key that holds slots or leases has a life (\<open>life\<close>): the seconds after which a member
  counts as abandoned. All scripts and methods keep to one discipline on such keys, and what a key holds at an
  instant (\<open>held\<close>) changes only by grants and releases. On that rest the limit of concurrent requests and the
  promise that a granted slot is kept.
\<close>

section \<open>The keys and their lives\<close>

lemma Itoa_eq [simp]: "Itoa i = Itoa j \<longleftrightarrow> i = j"
  by (metis option.inject parse_int_Itoa)

lemma Itoa_not_word [simp]: "Itoa i \<noteq> ''active_index''"
proof
  assume "Itoa i = ''active_index''"
  then have "parse_int ''active_index'' = Some i" by (metis parse_int_Itoa)
  moreover have "parse_int ''active_index'' = None" by code_simp
  ultimately show False by simp
qed

definition slot_range :: "string set" where
  "slot_range = range accountSlotKey \<union> range userSlotKey \<union> range apiKeySlotKey"

definition lease_range :: "string set" where
  "lease_range = range liveAccountSlotKey \<union> range liveUserSlotKey \<union> range liveAPIKeySlotKey \<union> range openAIWSIngressLeaseKey"

definition life :: "int \<Rightarrow> string \<Rightarrow> int option" where
  "life ttl k = (if k \<in> slot_range then Some ttl else if k \<in> lease_range then Some 60 else None)"

lemma slot_not_lease: "k \<in> slot_range \<Longrightarrow> k \<notin> lease_range"
  by (auto simp: slot_range_def lease_range_def slot_key_defs slot_prefix_defs)

lemma life_keys [simp]:
  "life ttl (accountSlotKey i) = Some ttl" "life ttl (userSlotKey i) = Some ttl" "life ttl (apiKeySlotKey i) = Some ttl"
  "life ttl (liveAccountSlotKey i) = Some 60" "life ttl (liveUserSlotKey i) = Some 60"
  "life ttl (liveAPIKeySlotKey i) = Some 60" "life ttl (openAIWSIngressLeaseKey i) = Some 60"
proof -
  have s: "accountSlotKey i \<in> slot_range" "userSlotKey i \<in> slot_range" "apiKeySlotKey i \<in> slot_range"
    by (simp_all add: slot_range_def)
  have l: "liveAccountSlotKey i \<in> lease_range" "liveUserSlotKey i \<in> lease_range" "liveAPIKeySlotKey i \<in> lease_range"
    "openAIWSIngressLeaseKey i \<in> lease_range" by (simp_all add: lease_range_def)
  show "life ttl (accountSlotKey i) = Some ttl" "life ttl (userSlotKey i) = Some ttl" "life ttl (apiKeySlotKey i) = Some ttl"
    using s by (simp_all add: life_def)
  show "life ttl (liveAccountSlotKey i) = Some 60" "life ttl (liveUserSlotKey i) = Some 60"
    "life ttl (liveAPIKeySlotKey i) = Some 60" "life ttl (openAIWSIngressLeaseKey i) = Some 60"
    using l slot_not_lease by (auto simp: life_def)
qed

lemma life_index [simp]: "life ttl accountActiveIndexKey = None" "life ttl userActiveIndexKey = None"
  by (auto simp: life_def slot_range_def lease_range_def slot_key_defs slot_prefix_defs Itoa_not_word[symmetric]
      simp del: Itoa_not_word)

lemma key_eq [simp]:
  "accountSlotKey i = accountSlotKey j \<longleftrightarrow> i = j" "userSlotKey i = userSlotKey j \<longleftrightarrow> i = j"
  "liveAccountSlotKey i = liveAccountSlotKey j \<longleftrightarrow> i = j" "liveUserSlotKey i = liveUserSlotKey j \<longleftrightarrow> i = j"
  "accountSlotKey i \<noteq> userSlotKey j" "userSlotKey i \<noteq> accountSlotKey j"
  "accountSlotKey i \<noteq> apiKeySlotKey j" "userSlotKey i \<noteq> apiKeySlotKey j"
  "liveAccountSlotKey i \<noteq> liveUserSlotKey j" "liveUserSlotKey i \<noteq> liveAccountSlotKey j"
  "liveAccountSlotKey i \<noteq> liveAPIKeySlotKey j" "liveUserSlotKey i \<noteq> liveAPIKeySlotKey j"
  "liveAccountSlotKey i \<noteq> openAIWSIngressLeaseKey j" "liveUserSlotKey i \<noteq> openAIWSIngressLeaseKey j"
  by (simp_all add: slot_key_defs slot_prefix_defs)

lemma slot_lease_key [simp]:
  "accountSlotKey i \<noteq> liveAccountSlotKey j" "accountSlotKey i \<noteq> liveUserSlotKey j" "accountSlotKey i \<noteq> liveAPIKeySlotKey j"
  "accountSlotKey i \<noteq> openAIWSIngressLeaseKey j"
  "userSlotKey i \<noteq> liveAccountSlotKey j" "userSlotKey i \<noteq> liveUserSlotKey j" "userSlotKey i \<noteq> liveAPIKeySlotKey j"
  "userSlotKey i \<noteq> openAIWSIngressLeaseKey j"
  "liveAccountSlotKey i \<noteq> accountSlotKey j" "liveAccountSlotKey i \<noteq> userSlotKey j" "liveAccountSlotKey i \<noteq> apiKeySlotKey j"
  "liveUserSlotKey i \<noteq> accountSlotKey j" "liveUserSlotKey i \<noteq> userSlotKey j" "liveUserSlotKey i \<noteq> apiKeySlotKey j"
  by (simp_all add: slot_key_defs slot_prefix_defs)

section \<open>What a key holds\<close>

definition held :: "int \<Rightarrow> int \<Rightarrow> slot_db \<Rightarrow> string \<Rightarrow> string set" where
  "held L rnow db k = fst ` {p \<in> set (zmembers rnow db k). TIME rnow - L < snd p}"

text \<open>Members are distinct, no score is in the future, and the key lives as long as its members.\<close>

definition key_ok :: "int \<Rightarrow> int \<Rightarrow> slot_db \<Rightarrow> string \<Rightarrow> bool" where
  "key_ok L rnow db k \<longleftrightarrow>
     (case zsets db k of None \<Rightarrow> True
      | Some (ms, e) \<Rightarrow> distinct (map fst ms) \<and> (\<forall>p \<in> set ms. snd p \<le> TIME rnow) \<and>
          (case e of None \<Rightarrow> True | Some e \<Rightarrow> \<forall>p \<in> set ms. (snd p + L) * 1000 \<le> e))"

definition slots_ok :: "int \<Rightarrow> int \<Rightarrow> slot_db \<Rightarrow> bool" where
  "slots_ok ttl rnow db \<longleftrightarrow> (\<forall>k L. life ttl k = Some L \<longrightarrow> key_ok L rnow db k)"

text \<open>A step at one instant that keeps the discipline and changes what keys hold by \<open>U\<close>. What a key holds is also
  looked at with a shorter life \<open>n\<close>: these are the members of the last \<open>n\<close> seconds.\<close>

definition steps_to :: "int \<Rightarrow> int \<Rightarrow> slot_db \<Rightarrow> (string \<Rightarrow> string set \<Rightarrow> string set) \<Rightarrow> slot_db \<Rightarrow> bool" where
  "steps_to ttl rnow db U db' \<longleftrightarrow>
     (slots_ok ttl rnow db \<longrightarrow>
        slots_ok ttl rnow db' \<and>
        (\<forall>k L. \<forall>n \<in> {0<..L}. life ttl k = Some L \<longrightarrow> held n rnow db' k = U k (held n rnow db k)))"

lemma steps_to_refl [simp]: "steps_to ttl rnow db (\<lambda>_ X. X) db"
  by (simp add: steps_to_def)

lemma steps_to_trans:
  assumes "steps_to ttl rnow db U db1" "steps_to ttl rnow db1 V db2"
  shows "steps_to ttl rnow db (\<lambda>k X. V k (U k X)) db2"
  using assms by (simp add: steps_to_def)

lemma steps_quiet_trans [trans]:
  assumes "steps_to ttl rnow db (\<lambda>_ X. X) db1" "steps_to ttl rnow db1 U db2"
  shows "steps_to ttl rnow db U db2"
  using assms by (simp add: steps_to_def)

lemma steps_trans_quiet [trans]:
  assumes "steps_to ttl rnow db U db1" "steps_to ttl rnow db1 (\<lambda>_ X. X) db2"
  shows "steps_to ttl rnow db U db2"
  using assms by (simp add: steps_to_def)

lemma steps_to_slots_ok: "steps_to ttl rnow db U db' \<Longrightarrow> slots_ok ttl rnow db \<Longrightarrow> slots_ok ttl rnow db'"
  by (simp add: steps_to_def)

lemma steps_to_held:
  "steps_to ttl rnow db U db' \<Longrightarrow> slots_ok ttl rnow db \<Longrightarrow> life ttl k = Some L \<Longrightarrow> n \<in> {0<..L} \<Longrightarrow>
   held n rnow db' k = U k (held n rnow db k)"
  by (simp add: steps_to_def)

lemma held_cong: "zsets db' k = zsets db k \<Longrightarrow> held L rnow db' k = held L rnow db k"
  by (simp add: held_def zmembers_def)

lemma key_ok_cong: "zsets db' k = zsets db k \<Longrightarrow> key_ok L rnow db' k = key_ok L rnow db k"
  by (simp add: key_ok_def)

text \<open>A command that writes one key.\<close>

lemma steps_to_write:
  assumes other: "\<And>k'. k' \<noteq> k \<Longrightarrow> zsets db' k' = zsets db k'"
    and ok: "\<And>L. life ttl k = Some L \<Longrightarrow> key_ok L rnow db k \<Longrightarrow> key_ok L rnow db' k"
    and here: "\<And>L n. life ttl k = Some L \<Longrightarrow> key_ok L rnow db k \<Longrightarrow> n \<in> {0<..L} \<Longrightarrow> held n rnow db' k = f (held n rnow db k)"
  shows "steps_to ttl rnow db (\<lambda>k' X. if k' = k then f X else X) db'"
  unfolding steps_to_def slots_ok_def
proof (intro impI conjI allI ballI)
  fix k' L assume oks: "\<forall>k L. life ttl k = Some L \<longrightarrow> key_ok L rnow db k" and L: "life ttl k' = Some L"
  then show "key_ok L rnow db' k'"
    using ok key_ok_cong[OF other, of k'] by (cases "k' = k") auto
next
  fix k' L n assume oks: "\<forall>k L. life ttl k = Some L \<longrightarrow> key_ok L rnow db k" and n: "n \<in> {0<..L}" and L: "life ttl k' = Some L"
  then show "held n rnow db' k' = (if k' = k then f (held n rnow db k') else held n rnow db k')"
    using here oks held_cong[OF other, of k'] by (cases "k' = k") auto
qed

lemma steps_to_id: "steps_to ttl rnow db (\<lambda>k' X. if k' = k then X else X) db' = steps_to ttl rnow db (\<lambda>_ X. X) db'"
  by (simp add: if_split)

text \<open>What a valid key looks like to the commands.\<close>

lemma key_view:
  assumes "key_ok L rnow db k"
  shows "distinct (map fst (zmembers rnow db k))" "\<And>p. p \<in> set (zmembers rnow db k) \<Longrightarrow> snd p \<le> TIME rnow"
    "\<And>p e. p \<in> set (zmembers rnow db k) \<Longrightarrow> zexpiry rnow db k = Some e \<Longrightarrow> (snd p + L) * 1000 \<le> e"
  using assms by (auto simp: key_ok_def zmembers_def zexpiry_def split: option.splits if_splits)

lemma key_ok_zput:
  assumes "distinct (map fst ms)" "\<And>p. p \<in> set ms \<Longrightarrow> snd p \<le> TIME rnow"
    "\<And>p e. p \<in> set ms \<Longrightarrow> x = Some e \<Longrightarrow> (snd p + L) * 1000 \<le> e"
  shows "key_ok L rnow (zput k ms x db) k"
  using assms by (auto simp: key_ok_def split: option.split)

lemma held_zput: "held L rnow (zput k ms x db) k = (if alive rnow x then fst ` {p \<in> set ms. TIME rnow - L < snd p} else {})"
  by (simp add: held_def)

lemma steps_purge:
  assumes "\<And>L. life ttl k = Some L \<Longrightarrow> score = TIME rnow - L"
  shows "steps_to ttl rnow db (\<lambda>_ X. X) (ZREMRANGEBYSCORE rnow k score db)"
proof -
  have "steps_to ttl rnow db (\<lambda>k' X. if k' = k then X else X) (ZREMRANGEBYSCORE rnow k score db)"
  proof (rule steps_to_write[where f = "\<lambda>X. X"])
    fix L assume L: "life ttl k = Some L" and ok: "key_ok L rnow db k"
    note v = key_view[OF ok]
    show "key_ok L rnow (ZREMRANGEBYSCORE rnow k score db) k"
      unfolding ZREMRANGEBYSCORE_def by (rule key_ok_zput) (use v in \<open>auto simp: distinct_map_filter\<close>)
    show "held n rnow (ZREMRANGEBYSCORE rnow k score db) k = held n rnow db k" if "n \<in> {0<..L}" for n
      using that by (auto simp: held_def assms[OF L])
  qed (simp add: ZREMRANGEBYSCORE_def)
  then show ?thesis by simp
qed

lemma steps_ZREM:
  "steps_to ttl rnow db (\<lambda>k' X. if k' = k then X - set xs else X) (ZREM rnow k xs db)"
proof (rule steps_to_write)
  fix L assume ok: "key_ok L rnow db k"
  note v = key_view[OF ok]
  show "key_ok L rnow (ZREM rnow k xs db) k"
    unfolding ZREM_def by (rule key_ok_zput) (use v in \<open>auto simp: distinct_map_filter\<close>)
  show "held n rnow (ZREM rnow k xs db) k = held n rnow db k - set xs" for n
    by (auto simp: held_def)
qed (simp add: ZREM_def)

lemma steps_index:
  assumes "life ttl k = None" "\<And>k'. k' \<noteq> k \<Longrightarrow> zsets db' k' = zsets db k'"
  shows "steps_to ttl rnow db (\<lambda>_ X. X) db'"
  using steps_to_write[of k db' db ttl rnow "\<lambda>X. X", OF assms(2)] assms(1) by simp

lemma steps_counters: "zsets db' = zsets db \<Longrightarrow> steps_to ttl rnow db (\<lambda>_ X. X) db'"
  by (simp add: steps_to_def slots_ok_def key_ok_def held_def zmembers_def)

lemma second_of: "s \<le> TIME rnow \<Longrightarrow> (s + L) * 1000 \<le> rnow + L * 1000"
  by (simp add: TIME_def)

lemma zadd_member: "p \<in> set (AList.update m v xs) \<Longrightarrow> snd p = v \<or> p \<in> set xs"
  by (induction xs) (auto split: if_splits)

lemma held_map:
  assumes "distinct (map fst (zmembers rnow db k))"
  shows "held L rnow db k = {m. \<exists>s. map_of (zmembers rnow db k) m = Some s \<and> TIME rnow - L < s}"
  using assms by (force simp: held_def map_of_eq_Some_iff)

lemma steps_grant:
  assumes "life ttl k = Some L" "0 < L"
  shows "steps_to ttl rnow db (\<lambda>k' X. if k' = k then insert m X else X) (ZEXPIRE rnow k L (ZADD rnow k (TIME rnow) m db))"
proof (rule steps_to_write)
  fix L' assume "life ttl k = Some L'" and ok: "key_ok L' rnow db k"
  then have L': "L' = L" using assms(1) by simp
  let ?ms = "AList.update m (TIME rnow) (zmembers rnow db k)"
  note v = key_view[OF ok]
  have in_ms: "snd p \<le> TIME rnow" if "p \<in> set ?ms" for p
    using zadd_member[OF that] v(2)[of p] by auto
  have db': "ZEXPIRE rnow k L (ZADD rnow k (TIME rnow) m db) = zput k ?ms (Some (rnow + L * 1000)) (zput k ?ms (zexpiry rnow db k) db)"
    by (simp add: ZEXPIRE_def ZADD_def)
  show "key_ok L' rnow (ZEXPIRE rnow k L (ZADD rnow k (TIME rnow) m db)) k"
    unfolding db' L'
    by (rule key_ok_zput) (use in_ms second_of v(1) in \<open>auto simp: distinct_update\<close>)
  show "held n rnow (ZEXPIRE rnow k L (ZADD rnow k (TIME rnow) m db)) k = insert m (held n rnow db k)" if "n \<in> {0<..L'}" for n
    using assms(2) v(1) that by (auto simp: held_map distinct_update update_conv' L')
qed (simp add: ZEXPIRE_def ZADD_def)

section \<open>The scripts\<close>

lemma ZCARD_held:
  assumes "key_ok L rnow db k"
  shows "int (card (held L rnow db k)) \<le> ZCARD rnow k db"
proof -
  have "held L rnow db k \<subseteq> set (map fst (zmembers rnow db k))" by (auto simp: held_def)
  then have "card (held L rnow db k) \<le> card (set (map fst (zmembers rnow db k)))" by (rule card_mono[rotated]) simp
  also have "\<dots> \<le> length (zmembers rnow db k)" using card_length[of "map fst (zmembers rnow db k)"] by simp
  finally show ?thesis by (simp add: ZCARD_def)
qed

lemma ZCARD_purged:
  assumes "key_ok L rnow db k" "\<And>p. p \<in> set (zmembers rnow db k) \<Longrightarrow> TIME rnow - L < snd p"
  shows "ZCARD rnow k db = int (card (held L rnow db k))"
proof -
  have "{p \<in> set (zmembers rnow db k). TIME rnow - L < snd p} = set (zmembers rnow db k)" using assms(2) by blast
  then have "held L rnow db k = set (map fst (zmembers rnow db k))" by (simp add: held_def)
  then show ?thesis using distinct_card[OF key_view(1)[OF assms(1)]] by (simp add: ZCARD_def)
qed

lemma ZSCORE_purged:
  assumes "\<And>p. p \<in> set (zmembers rnow db k) \<Longrightarrow> TIME rnow - L < snd p"
  shows "ZSCORE rnow k m db \<noteq> None \<longleftrightarrow> m \<in> held L rnow db k"
proof -
  have "{p \<in> set (zmembers rnow db k). TIME rnow - L < snd p} = set (zmembers rnow db k)" using assms by blast
  then show ?thesis using map_of_eq_None_iff[of "zmembers rnow db k" m] by (simp add: ZSCORE_def held_def)
qed

lemma slots_ok_key: "slots_ok ttl rnow db \<Longrightarrow> life ttl k = Some L \<Longrightarrow> key_ok L rnow db k"
  by (simp add: slots_ok_def)

text \<open>The purge that opens most scripts.\<close>

definition purge2 :: "int \<Rightarrow> int \<Rightarrow> string \<Rightarrow> string \<Rightarrow> slot_db \<Rightarrow> slot_db" where
  "purge2 rnow ttl key liveKey db =
     ZREMRANGEBYSCORE rnow liveKey (TIME rnow - 60) (ZREMRANGEBYSCORE rnow key (TIME rnow - ttl) db)"

lemma purge2_steps:
  assumes "life ttl key = Some ttl" "life ttl liveKey = Some 60"
  shows "steps_to ttl rnow db (\<lambda>_ X. X) (purge2 rnow ttl key liveKey db)"
  unfolding purge2_def using steps_purge[of ttl key "TIME rnow - ttl" rnow db] steps_purge[of ttl liveKey "TIME rnow - 60" rnow]
    assms steps_quiet_trans by simp

lemma purge2_members:
  assumes "key \<noteq> liveKey"
  shows "p \<in> set (zmembers rnow (purge2 rnow ttl key liveKey db) key) \<Longrightarrow> TIME rnow - ttl < snd p"
    "p \<in> set (zmembers rnow (purge2 rnow ttl key liveKey db) liveKey) \<Longrightarrow> TIME rnow - 60 < snd p"
  using assms by (simp_all add: purge2_def)

definition in_use :: "int \<Rightarrow> int \<Rightarrow> slot_db \<Rightarrow> string \<Rightarrow> string \<Rightarrow> int" where
  "in_use ttl rnow db key liveKey = int (card (held ttl rnow db key)) + int (card (held 60 rnow db liveKey))"

lemma finite_held [simp]: "finite (held L rnow db k)"
  by (simp add: held_def)

lemma purge2_count:
  assumes k: "life ttl key = Some ttl" "life ttl liveKey = Some 60" "key \<noteq> liveKey" "0 < ttl" and ok: "slots_ok ttl rnow db"
  shows "ZCARD rnow key (purge2 rnow ttl key liveKey db) + ZCARD rnow liveKey (purge2 rnow ttl key liveKey db) = in_use ttl rnow db key liveKey"
    "ZSCORE rnow key m (purge2 rnow ttl key liveKey db) \<noteq> None \<longleftrightarrow> m \<in> held ttl rnow db key"
proof -
  note st = purge2_steps[OF k(1,2), of rnow db]
  note ok' = steps_to_slots_ok[OF st ok]
  have h: "held ttl rnow (purge2 rnow ttl key liveKey db) key = held ttl rnow db key"
    "held 60 rnow (purge2 rnow ttl key liveKey db) liveKey = held 60 rnow db liveKey"
    using steps_to_held[OF st ok k(1), of ttl] steps_to_held[OF st ok k(2), of 60] k(4) by simp_all
  show "ZCARD rnow key (purge2 rnow ttl key liveKey db) + ZCARD rnow liveKey (purge2 rnow ttl key liveKey db) = in_use ttl rnow db key liveKey"
    using ZCARD_purged[OF slots_ok_key[OF ok' k(1)] purge2_members(1)[OF k(3)]]
      ZCARD_purged[OF slots_ok_key[OF ok' k(2)] purge2_members(2)[OF k(3)]] h by (simp add: in_use_def)
  show "ZSCORE rnow key m (purge2 rnow ttl key liveKey db) \<noteq> None \<longleftrightarrow> m \<in> held ttl rnow db key"
    using ZSCORE_purged[OF purge2_members(1)[OF k(3)]] h(1) by simp
qed

lemma acquireScript_spec:
  fixes mx :: int and r :: string
  assumes k: "life ttl key = Some ttl" "life ttl liveKey = Some 60" "key \<noteq> liveKey" "0 < ttl" and ok: "slots_ok ttl rnow db"
  defines "granted \<equiv> r \<in> held ttl rnow db key \<or> in_use ttl rnow db key liveKey < mx"
  shows "\<exists>db'. acquireScript rnow key liveKey mx ttl r db = (db', if granted then 1 else 0, TIME rnow) \<and>
    steps_to ttl rnow db (\<lambda>k X. if k = key \<and> granted then insert r X else X) db'"
proof -
  let ?p = "purge2 rnow ttl key liveKey db"
  note st = purge2_steps[OF k(1,2), of rnow db]
  note c = purge2_count[OF k ok]
  have eq: "acquireScript rnow key liveKey mx ttl r db =
    (if granted then (ZEXPIRE rnow key ttl (ZADD rnow key (TIME rnow) r ?p), 1, TIME rnow) else (?p, 0, TIME rnow))"
    unfolding acquireScript_def Let_def purge2_def[symmetric] c granted_def by simp
  show ?thesis
  proof (cases granted)
    case True
    have "steps_to ttl rnow db (\<lambda>k X. if k = key then insert r X else X) (ZEXPIRE rnow key ttl (ZADD rnow key (TIME rnow) r ?p))"
      by (rule steps_quiet_trans[OF st steps_grant[OF k(1,4)]])
    then show ?thesis using True eq by simp
  next
    case False
    then show ?thesis using st eq by simp
  qed
qed

lemma getCountScript_spec:
  assumes k: "life ttl key = Some ttl" "life ttl liveKey = Some 60" "key \<noteq> liveKey" "0 < ttl" and ok: "slots_ok ttl rnow db"
  shows "\<exists>db'. getCountScript rnow key liveKey ttl db = (db', in_use ttl rnow db key liveKey) \<and> steps_to ttl rnow db (\<lambda>_ X. X) db'"
  using purge2_steps[OF k(1,2), of rnow db] purge2_count(1)[OF k ok]
  by (simp add: getCountScript_def Let_def flip: purge2_def)

lemma trackSlotScript_steps:
  assumes "life ttl key = Some ttl" "0 < ttl"
  shows "steps_to ttl rnow db (\<lambda>k X. if k = key then insert r X else X) (trackSlotScript rnow key ttl r db)"
  unfolding trackSlotScript_def Let_def
  by (rule steps_quiet_trans[OF steps_purge steps_grant[OF assms]]) (simp add: assms)

lemma purge_or_grant_steps:
  assumes "life ttl key = Some L" "0 < L"
    and "db' = ZREMRANGEBYSCORE rnow key (TIME rnow - L) db \<or>
      db' = ZEXPIRE rnow key L (ZADD rnow key (TIME rnow) l (ZREMRANGEBYSCORE rnow key (TIME rnow - L) db))"
  shows "\<exists>Y. steps_to ttl rnow db (\<lambda>k X. if k = key then Y \<union> X else X) db'"
proof -
  let ?p = "ZREMRANGEBYSCORE rnow key (TIME rnow - L) db"
  have p: "steps_to ttl rnow db (\<lambda>_ X. X) ?p" by (rule steps_purge) (simp add: assms)
  have g: "steps_to ttl rnow db (\<lambda>k X. if k = key then insert l X else X) (ZEXPIRE rnow key L (ZADD rnow key (TIME rnow) l ?p))"
    by (rule steps_quiet_trans[OF p steps_grant[OF assms(1,2)]])
  from assms(3) show ?thesis
  proof
    assume "db' = ?p"
    then show ?thesis using p by (intro exI[of _ "{}"]) (auto simp: steps_to_def)
  next
    assume "db' = ZEXPIRE rnow key L (ZADD rnow key (TIME rnow) l ?p)"
    then show ?thesis using g by (intro exI[of _ "{l}"]) (auto simp: steps_to_def)
  qed
qed

lemma ingress_acquire_steps:
  assumes "life ttl key = Some L" "0 < L" "acquireOpenAIWSIngressLeaseScript rnow key mx L l db = (db', n)"
  shows "\<exists>Y. steps_to ttl rnow db (\<lambda>k X. if k = key then Y \<union> X else X) db'"
  by (rule purge_or_grant_steps[OF assms(1,2), where l = l])
    (use assms(3) in \<open>auto simp: acquireOpenAIWSIngressLeaseScript_def Let_def split: if_splits\<close>)

lemma ingress_refresh_steps:
  assumes "life ttl key = Some L" "0 < L" "refreshOpenAIWSIngressLeaseScript rnow key L l db = (db', n)"
  shows "\<exists>Y. steps_to ttl rnow db (\<lambda>k X. if k = key then Y \<union> X else X) db'"
  by (rule purge_or_grant_steps[OF assms(1,2), where l = l])
    (use assms(3) in \<open>auto simp: refreshOpenAIWSIngressLeaseScript_def Let_def split: if_splits\<close>)

lemma refresh_look_steps:
  assumes "slots_ok ttl rnow db" "list_all (\<lambda>k. life ttl k = Some L) keys" "0 < L"
  shows "steps_to ttl rnow db (\<lambda>_ X. X) (fst (refresh_look rnow (TIME rnow - L) l keys db)) \<and>
    (snd (refresh_look rnow (TIME rnow - L) l keys db) \<longrightarrow> (\<forall>k \<in> set keys. l \<in> held L rnow db k))"
  using assms
proof (induction keys arbitrary: db)
  case (Cons k keys)
  let ?p = "ZREMRANGEBYSCORE rnow k (TIME rnow - L) db"
  have k: "life ttl k = Some L" and ks: "list_all (\<lambda>k. life ttl k = Some L) keys" using Cons.prems(2) by simp_all
  have p: "steps_to ttl rnow db (\<lambda>_ X. X) ?p" by (rule steps_purge) (simp add: k)
  note IH = Cons.IH[OF steps_to_slots_ok[OF p Cons.prems(1)] ks Cons.prems(3)]
  have q: "steps_to ttl rnow db (\<lambda>_ X. X) (fst (refresh_look rnow (TIME rnow - L) l keys ?p))"
    using steps_quiet_trans[OF p] IH by blast
  have h: "held L rnow ?p k' = held L rnow db k'" if "life ttl k' = Some L" for k'
    using steps_to_held[OF p Cons.prems(1) that, of L] Cons.prems(3) by simp
  have found: "ZSCORE rnow k l ?p \<noteq> None \<longleftrightarrow> l \<in> held L rnow db k"
    using ZSCORE_purged[of rnow ?p k L l] h[OF k] by simp
  show ?case
  proof (cases "ZSCORE rnow k l ?p = None")
    case True
    then show ?thesis using p by (simp add: Let_def)
  next
    case False
    then show ?thesis using q IH found h ks by (auto simp: Let_def list_all_iff)
  qed
qed simp

lemma grant_all_steps:
  assumes "list_all (\<lambda>k. life ttl k = Some L) keys" "0 < L"
  shows "steps_to ttl rnow db (\<lambda>k X. if k \<in> set keys then insert l X else X)
    (fold (\<lambda>key db. ZEXPIRE rnow key L (ZADD rnow key (TIME rnow) l db)) keys db)"
  using assms(1)
proof (induction keys arbitrary: db)
  case (Cons k keys)
  have k: "life ttl k = Some L" using Cons.prems by simp
  have "steps_to ttl rnow db
      (\<lambda>k' X. if k' \<in> set keys then insert l (if k' = k then insert l X else X) else if k' = k then insert l X else X)
      (fold (\<lambda>key db. ZEXPIRE rnow key L (ZADD rnow key (TIME rnow) l db)) keys (ZEXPIRE rnow k L (ZADD rnow k (TIME rnow) l db)))"
    using steps_to_trans[OF steps_grant[OF k assms(2)] Cons.IH] Cons.prems by simp
  moreover have "(\<lambda>k' X. if k' \<in> set keys then insert l (if k' = k then insert l X else X) else if k' = k then insert l X else X) =
      (\<lambda>k' X. if k' \<in> set (k # keys) then insert l X else X)" by (auto simp: fun_eq_iff)
  ultimately show ?case by simp
qed simp

lemma refreshLiveLeaseScript_steps:
  assumes ok: "slots_ok ttl rnow db" and keys: "list_all (\<lambda>k. life ttl k = Some L) keys" "0 < L"
    and r: "refreshLiveLeaseScript rnow keys L l db = (db', n)"
  shows "steps_to ttl rnow db (\<lambda>k X. if n = 1 \<and> k \<in> set keys then insert l X else X) db' \<and>
    (n = 1 \<longrightarrow> (\<forall>k \<in> set keys. l \<in> held L rnow db k))"
proof -
  obtain d b where d: "refresh_look rnow (TIME rnow - L) l keys db = (d, b)" by fastforce
  have look: "steps_to ttl rnow db (\<lambda>_ X. X) d" "b \<longrightarrow> (\<forall>k \<in> set keys. l \<in> held L rnow db k)"
    using refresh_look_steps[OF ok keys, of l] d by simp_all
  show ?thesis
  proof (cases b)
    case True
    have n: "n = 1" and db': "db' = fold (\<lambda>key db. ZEXPIRE rnow key L (ZADD rnow key (TIME rnow) l db)) keys d"
      using r d True by (simp_all add: refreshLiveLeaseScript_def Let_def)
    have "steps_to ttl rnow db (\<lambda>k X. if k \<in> set keys then insert l X else X) db'"
      unfolding db' by (rule steps_quiet_trans[OF look(1) grant_all_steps[OF keys]])
    then show ?thesis using look(2) True n by simp
  next
    case False
    then show ?thesis using r d look(1) by (auto simp: refreshLiveLeaseScript_def Let_def)
  qed
qed

section \<open>Live leases\<close>

lemma zput_twist: "k1 \<noteq> k2 \<Longrightarrow> zput k1 m1 e1 (zput k2 m2 e2 db) = zput k2 m2 e2 (zput k1 m1 e1 db)"
  by (simp add: zput_def fun_upd_twist)

lemma ZEXPIRE_ZADD_swap:
  assumes "k1 \<noteq> k2"
  shows "ZEXPIRE rnow k1 ttl (ZADD rnow k2 s m db) = ZADD rnow k2 s m (ZEXPIRE rnow k1 ttl db)"
  using assms by (simp add: ZEXPIRE_def ZADD_def zput_twist[of k1 k2])

definition lease_all :: "int \<Rightarrow> int \<Rightarrow> string \<Rightarrow> string list \<Rightarrow> slot_db \<Rightarrow> slot_db" where
  "lease_all rnow ttl leaseID keys db = fold (\<lambda>key db. ZEXPIRE rnow key ttl (ZADD rnow key (TIME rnow) leaseID db)) keys db"

definition purge3 :: "int \<Rightarrow> int \<Rightarrow> string \<Rightarrow> string \<Rightarrow> string \<Rightarrow> slot_db \<Rightarrow> slot_db" where
  "purge3 rnow ttl a u k db =
     ZREMRANGEBYSCORE rnow k (TIME rnow - ttl) (ZREMRANGEBYSCORE rnow u (TIME rnow - ttl) (ZREMRANGEBYSCORE rnow a (TIME rnow - ttl) db))"

lemma lease_order:
  assumes "a \<noteq> u" "a \<noteq> k" "u \<noteq> k"
  shows "ZEXPIRE rnow k L (ZEXPIRE rnow u L (ZEXPIRE rnow a L
      (ZADD rnow k (TIME rnow) l (ZADD rnow u (TIME rnow) l (ZADD rnow a (TIME rnow) l db))))) = lease_all rnow L l [a, u, k] db"
  unfolding lease_all_def fold_simps
  by (simp only: ZEXPIRE_ZADD_swap[OF assms(1)] ZEXPIRE_ZADD_swap[OF assms(2)] ZEXPIRE_ZADD_swap[OF assms(3)])

lemma acquireLiveLeaseScript_eq:
  assumes "a \<noteq> u" "a \<noteq> k" "u \<noteq> k"
  shows "acquireLiveLeaseScript rnow aR a uR u k amax umax L l replacing db =
    (let db = purge3 rnow L a u k db; allowance = (if replacing = 1 then 1 else 0)
     in if ZSCORE rnow a l db \<noteq> None then (db, 1)
        else if amax > 0 \<and> ZCARD rnow aR db + ZCARD rnow a db \<ge> amax + allowance then (db, 0)
        else if umax > 0 \<and> ZCARD rnow uR db + ZCARD rnow u db \<ge> umax + allowance then (db, 0)
        else (lease_all rnow L l [a, u, k] db, 1))"
  unfolding acquireLiveLeaseScript_def Let_def purge3_def[symmetric] lease_order[OF assms] ..

lemma purge3_steps:
  assumes "life ttl a = Some L" "life ttl u = Some L" "life ttl k = Some L"
  shows "steps_to ttl rnow db (\<lambda>_ X. X) (purge3 rnow L a u k db)"
proof -
  have p: "steps_to ttl rnow d (\<lambda>_ X. X) (ZREMRANGEBYSCORE rnow x (TIME rnow - L) d)" if "x \<in> {a, u, k}" for d x
    by (rule steps_purge) (use assms that in auto)
  show ?thesis unfolding purge3_def
    by (rule steps_quiet_trans[OF steps_quiet_trans[OF p p] p]) simp_all
qed

text \<open>Either nothing changes, or the lease is new and both counts were below their limits.\<close>

lemma acquireLiveLease_spec:
  assumes lifes: "life ttl aR = Some ttl" "life ttl uR = Some ttl" "life ttl a = Some 60" "life ttl u = Some 60" "life ttl k = Some 60"
    and ne: "a \<noteq> u" "a \<noteq> k" "u \<noteq> k" and ttl: "0 < ttl" and ok: "slots_ok ttl rnow db"
    and r: "acquireLiveLeaseScript rnow aR a uR u k amax umax 60 l replacing db = (db', n)"
  defines "allowance \<equiv> if replacing = 1 then 1 else 0"
  shows "steps_to ttl rnow db (\<lambda>_ X. X) db' \<or>
    steps_to ttl rnow db (\<lambda>k' X. if k' \<in> {a, u, k} then insert l X else X) db' \<and>
    (amax > 0 \<longrightarrow> in_use ttl rnow db aR a < amax + allowance) \<and> (umax > 0 \<longrightarrow> in_use ttl rnow db uR u < umax + allowance)"
proof -
  let ?p = "purge3 rnow 60 a u k db"
  note st = purge3_steps[OF lifes(3-5), of rnow db]
  note ok' = steps_to_slots_ok[OF st ok]
  have count: "in_use ttl rnow db R x \<le> ZCARD rnow R ?p + ZCARD rnow x ?p"
    if "life ttl R = Some ttl" "life ttl x = Some 60" for R x
    using ZCARD_held[OF slots_ok_key[OF ok' that(1)]] ZCARD_held[OF slots_ok_key[OF ok' that(2)]]
      steps_to_held[OF st ok that(1), of ttl] steps_to_held[OF st ok that(2), of 60] ttl
    by (simp add: in_use_def)
  show ?thesis
  proof (cases "db' = ?p")
    case True
    then show ?thesis using st by simp
  next
    case False
    then have db': "db' = lease_all rnow 60 l [a, u, k] ?p"
      and lim: "amax > 0 \<longrightarrow> ZCARD rnow aR ?p + ZCARD rnow a ?p < amax + allowance"
        "umax > 0 \<longrightarrow> ZCARD rnow uR ?p + ZCARD rnow u ?p < umax + allowance"
      using r unfolding acquireLiveLeaseScript_eq[OF ne] Let_def by (auto simp: allowance_def split: if_splits)
    have "steps_to ttl rnow db (\<lambda>k' X. if k' \<in> set [a, u, k] then insert l X else X) db'"
      unfolding db' lease_all_def by (rule steps_quiet_trans[OF st grant_all_steps]) (use lifes in simp_all)
    then have "steps_to ttl rnow db (\<lambda>k' X. if k' \<in> {a, u, k} then insert l X else X) db'" by simp
    moreover have "amax > 0 \<longrightarrow> in_use ttl rnow db aR a < amax + allowance" "umax > 0 \<longrightarrow> in_use ttl rnow db uR u < umax + allowance"
      using lim count[OF lifes(1,3)] count[OF lifes(2,4)] by linarith+
    ultimately show ?thesis by blast
  qed
qed

section \<open>Cleaning removes nothing that is held\<close>

lemma steps_ZEXPIRE:
  assumes "life ttl k = Some L" "0 < L"
  shows "steps_to ttl rnow db (\<lambda>_ X. X) (ZEXPIRE rnow k L db)"
proof -
  have "steps_to ttl rnow db (\<lambda>k' X. if k' = k then X else X) (ZEXPIRE rnow k L db)"
  proof (rule steps_to_write[where f = "\<lambda>X. X"])
    fix L' assume "life ttl k = Some L'" and ok: "key_ok L' rnow db k"
    then have L': "L' = L" using assms(1) by simp
    note v = key_view[OF ok]
    show "key_ok L' rnow (ZEXPIRE rnow k L db) k"
      unfolding ZEXPIRE_def L' by (rule key_ok_zput) (use v(1,2) second_of in auto)
  qed (use assms(2) in \<open>simp_all add: held_def\<close>, simp add: ZEXPIRE_def)
  then show ?thesis by simp
qed

lemma steps_ZDEL:
  assumes "ZCARD rnow k db = 0"
  shows "steps_to ttl rnow db (\<lambda>_ X. X) (ZDEL k db)"
proof -
  have "steps_to ttl rnow db (\<lambda>k' X. if k' = k then X else X) (ZDEL k db)"
    by (rule steps_to_write[where f = "\<lambda>X. X"])
      (use assms in \<open>simp_all add: key_ok_def held_def ZCARD_def\<close>, simp_all add: ZDEL_def)
  then show ?thesis by simp
qed

lemma cleanupExpiredSlots_steps:
  assumes "life ttl key = Some ttl" "0 < ttl"
  shows "steps_to ttl rnow db (\<lambda>_ X. X) (cleanupExpiredSlotsScript rnow key ttl db)"
proof -
  let ?p = "ZREMRANGEBYSCORE rnow key (TIME rnow - ttl) db"
  have "steps_to ttl rnow db (\<lambda>_ X. X) ?p" by (rule steps_purge) (simp add: assms)
  then show ?thesis
    using steps_ZDEL[of rnow key ?p ttl] steps_ZEXPIRE[OF assms, of rnow ?p] steps_quiet_trans
    by (auto simp: cleanupExpiredSlotsScript_def Let_def)
qed

end
