(* ===== verification/ConcurrencySteps.thy ===== *)
theory ConcurrencySteps
  imports ConcurrencyLimit
begin

text \<open>
  What every method does to the slots and leases (\<open>slot_step\<close>): it keeps the discipline, adds at most \<open>A\<close> to what a
  key holds and removes at most \<open>R\<close>. The members a method keeps are also kept in the eyes of a shorter life: a method
  never makes a member look older.
\<close>

definition slot_step ::
    "int \<Rightarrow> int \<Rightarrow> (string \<Rightarrow> string set) \<Rightarrow> (string \<Rightarrow> string set) \<Rightarrow> slot_db \<Rightarrow> slot_db \<Rightarrow> bool" where
  "slot_step ttl rnow A R db db' \<longleftrightarrow>
     (slots_ok ttl rnow db \<longrightarrow>
        slots_ok ttl rnow db' \<and>
        (\<forall>k L. life ttl k = Some L \<and> 0 < L \<longrightarrow>
           held L rnow db' k \<subseteq> held L rnow db k \<union> A k \<and> (\<forall>n \<in> {0<..L}. held n rnow db k - R k \<subseteq> held n rnow db' k)))"

abbreviation nothing :: "string \<Rightarrow> string set" where
  "nothing \<equiv> (\<lambda>_. {})"

abbreviation quiet :: "int \<Rightarrow> int \<Rightarrow> slot_db \<Rightarrow> slot_db \<Rightarrow> bool" where
  "quiet ttl rnow db db' \<equiv> slot_step ttl rnow nothing nothing db db'"

section \<open>Composition\<close>

lemma slot_step_ok: "slot_step ttl rnow A R db db' \<Longrightarrow> slots_ok ttl rnow db \<Longrightarrow> slots_ok ttl rnow db'"
  by (simp add: slot_step_def)

lemma slot_step_adds:
  "slot_step ttl rnow A R db db' \<Longrightarrow> slots_ok ttl rnow db \<Longrightarrow> life ttl k = Some L \<Longrightarrow> 0 < L \<Longrightarrow>
   held L rnow db' k \<subseteq> held L rnow db k \<union> A k"
  by (simp add: slot_step_def)

lemma slot_step_keeps:
  "slot_step ttl rnow A R db db' \<Longrightarrow> slots_ok ttl rnow db \<Longrightarrow> life ttl k = Some L \<Longrightarrow> n \<in> {0<..L} \<Longrightarrow>
   m \<in> held n rnow db k \<Longrightarrow> m \<notin> R k \<Longrightarrow> m \<in> held n rnow db' k"
  unfolding slot_step_def by (drule mp, assumption) (force simp del: greaterThanAtMost_iff simp: greaterThanAtMost_def)

lemma slot_step_refl [simp]: "slot_step ttl rnow A R db db"
  by (auto simp: slot_step_def)

lemma slot_step_trans:
  assumes "slot_step ttl rnow A R db db1" "slot_step ttl rnow A R db1 db2"
  shows "slot_step ttl rnow A R db db2"
  unfolding slot_step_def
proof (intro impI conjI allI ballI)
  assume ok: "slots_ok ttl rnow db"
  then have ok1: "slots_ok ttl rnow db1" by (rule slot_step_ok[OF assms(1)])
  then show "slots_ok ttl rnow db2" by (rule slot_step_ok[OF assms(2)])
  fix k L assume L: "life ttl k = Some L \<and> 0 < L"
  show "held L rnow db2 k \<subseteq> held L rnow db k \<union> A k"
    using slot_step_adds[OF assms(1) ok] slot_step_adds[OF assms(2) ok1] L by blast
  show "held n rnow db k - R k \<subseteq> held n rnow db2 k" if n: "n \<in> {0<..L}" for n
    using slot_step_keeps[OF assms(1) ok] slot_step_keeps[OF assms(2) ok1] L n by blast
qed

lemma slot_step_mono:
  assumes "slot_step ttl rnow A R db db'" "\<And>k. A k \<subseteq> A' k" "\<And>k. R k \<subseteq> R' k"
  shows "slot_step ttl rnow A' R' db db'"
  using assms unfolding slot_step_def by (meson Diff_mono Un_mono order_refl subset_trans)

lemma slot_step_then_quiet:
  "slot_step ttl rnow A R db db1 \<Longrightarrow> quiet ttl rnow db1 db2 \<Longrightarrow> slot_step ttl rnow A R db db2"
  by (rule slot_step_trans, assumption, erule slot_step_mono) simp_all

lemma steps_to_step:
  assumes "steps_to ttl rnow db U db'" "\<And>k X. U k X \<subseteq> X \<union> A k" "\<And>k X. X - R k \<subseteq> U k X"
  shows "slot_step ttl rnow A R db db'"
  using assms by (simp add: steps_to_def slot_step_def)

lemma quietI: "steps_to ttl rnow db (\<lambda>_ X. X) db' \<Longrightarrow> slot_step ttl rnow A R db db'"
  by (erule steps_to_step) auto

section \<open>The index and the counters\<close>

lemma quiet_counters: "zsets db' = zsets db \<Longrightarrow> slot_step ttl rnow A R db db'"
  by (rule quietI) (rule steps_counters)

lemma quiet_index:
  assumes "life ttl k = None" "\<And>k'. k' \<noteq> k \<Longrightarrow> zsets db' k' = zsets db k'"
  shows "slot_step ttl rnow A R db db'"
  by (rule quietI) (rule steps_index[OF assms])

lemma touch_quiet:
  assumes "life ttl idx = None"
  shows "slot_step ttl rnow A R db (touchActiveIndexAt fails rnow idx i e db)"
  by (rule quiet_index[OF assms]) (simp add: touchActiveIndexAt_def ZADD_def)

lemma readActiveLoad_quiet:
  assumes "life (slotTTLSeconds c) key = Some (slotTTLSeconds c)"
  shows "slot_step (slotTTLSeconds c) rnow A R db (fst (readActiveLoadForKey c rnow i key wait (TIME rnow) db))"
  unfolding readActiveLoadForKey_def Let_def fst_conv
  by (rule quietI) (rule steps_purge, simp add: assms)

lemma ZREM_index_quiet: "life ttl k = None \<Longrightarrow> slot_step ttl rnow A R db (ZREM rnow k xs db)"
  by (rule quiet_index, assumption) (simp add: ZREM_def)

lemma refreshActiveIndex_quiet:
  assumes "life (slotTTLSeconds c) key = Some (slotTTLSeconds c)" "life (slotTTLSeconds c) idx = None"
  shows "slot_step (slotTTLSeconds c) rnow A R db (refreshActiveIndex c fails rnow idx i key wait db)"
proof (cases "i \<le> 0 \<or> fails CallTime \<or> fails CallLoad")
  case True
  then show ?thesis by (auto simp: refreshActiveIndex_def)
next
  case False
  obtain d l where r: "readActiveLoadForKey c rnow i key wait (TIME rnow) db = (d, l)" by fastforce
  have d: "slot_step (slotTTLSeconds c) rnow A R db d"
    using readActiveLoad_quiet[OF assms(1), of rnow A R db i wait] r by simp
  note then_step = slot_step_trans[OF d]
  have 1: "slot_step (slotTTLSeconds c) rnow A R db (ZREM rnow idx [Itoa i] d)"
    by (rule then_step[OF ZREM_index_quiet[OF assms(2)]])
  have 2: "slot_step (slotTTLSeconds c) rnow A R db (touchActiveIndexAt fails rnow idx i e d)" for e
    by (rule then_step[OF touch_quiet[OF assms(2)]])
  show ?thesis using False d 1 2 unfolding refreshActiveIndex_def r Let_def prod.case by simp
qed

lemma refresh_index_quiet:
  "slot_step (slotTTLSeconds c) rnow A R db (refreshAccountActiveIndex c fails rnow i db)"
  "slot_step (slotTTLSeconds c) rnow A R db (refreshUserActiveIndex c fails rnow i db)"
  unfolding refreshAccountActiveIndex_def refreshUserActiveIndex_def by (simp_all add: refreshActiveIndex_quiet)

lemma loads_of_step:
  assumes "\<And>x db. slot_step ttl rnow A R db (fst (f x db))"
  shows "slot_step ttl rnow A R db (fst (loads_of f xs db))"
proof (induction xs arbitrary: db)
  case (Cons x xs)
  have "fst (loads_of f (x # xs) db) = fst (loads_of f xs (fst (f x db)))" by (simp add: case_prod_beta)
  then show ?case using slot_step_trans[OF assms[of db x] Cons.IH] by simp
qed simp

lemma purge_both_quiet:
  assumes "life (slotTTLSeconds c) key = Some (slotTTLSeconds c)" "life (slotTTLSeconds c) liveKey = Some 60"
  shows "slot_step (slotTTLSeconds c) rnow A R db
    (ZREMRANGEBYSCORE rnow liveKey (TIME rnow - liveLeaseTTLSeconds) (ZREMRANGEBYSCORE rnow key (TIME rnow - slotTTLSeconds c) db))"
  using purge2_steps[OF assms, of rnow db] by (simp add: purge2_def liveLeaseTTLSeconds_def quietI)

lemma load_info_quiet:
  assumes "\<And>i. life (slotTTLSeconds c) (slots i) = Some (slotTTLSeconds c)" "\<And>i. life (slotTTLSeconds c) (lives i) = Some 60"
  shows "slot_step (slotTTLSeconds c) rnow A R db (fst (load_info c rnow slots lives waits x db))"
  by (cases x) (simp add: load_info_def Let_def purge_both_quiet assms)

lemma concurrency_of_quiet:
  assumes "\<And>i. life (slotTTLSeconds c) (slots i) = Some (slotTTLSeconds c)" "\<And>i. life (slotTTLSeconds c) (lives i) = Some 60"
  shows "slot_step (slotTTLSeconds c) rnow A R db (fst (concurrency_of c rnow slots lives i db))"
  by (simp add: concurrency_of_def Let_def purge_both_quiet assms)

section \<open>Cleaning\<close>

definition index_ok :: "concurrencyCache \<Rightarrow> slotIndexSpec \<Rightarrow> bool" where
  "index_ok c spec \<longleftrightarrow>
     life (slotTTLSeconds c) (indexKey spec) = None \<and> (\<forall>i. life (slotTTLSeconds c) (slotKey spec i) = Some (slotTTLSeconds c))"

lemma index_ok_specs [simp]: "index_ok c accountSlotIndex" "index_ok c userSlotIndex"
  by (simp_all add: index_ok_def accountSlotIndex_def userSlotIndex_def)

lemma fold_ZADD_other: "k' \<noteq> k \<Longrightarrow> zsets (fold (\<lambda>(m, s). ZADD rnow k s m) xs db) k' = zsets db k'"
  by (induction xs arbitrary: db) (auto simp: ZADD_def)

lemma index_members_quiet:
  assumes "life ttl idx = None"
  shows "slot_step ttl rnow A R db (add_index_members fails rnow idx xs db)"
    "slot_step ttl rnow A R db (removeActiveIndexMembers fails rnow idx ys db)"
proof -
  show "slot_step ttl rnow A R db (add_index_members fails rnow idx xs db)"
    by (rule quiet_index[OF assms]) (simp add: add_index_members_def fold_ZADD_other)
  show "slot_step ttl rnow A R db (removeActiveIndexMembers fails rnow idx ys db)"
    using ZREM_index_quiet[OF assms] by (simp add: removeActiveIndexMembers_def)
qed

lemma readIndexLoads_quiet:
  assumes "index_ok c spec"
  shows "slot_step (slotTTLSeconds c) rnow A R db (fst (readIndexLoads c rnow spec ms (TIME rnow) db))"
proof -
  have "slot_step (slotTTLSeconds c) rnow A R d
      (fst (let i = the (index_id m); (d, load) = readActiveLoadForKey c rnow i (slotKey spec i) (waitKey spec i) (TIME rnow) d
            in (d, load\<lparr>load_member := m\<rparr>)))" for m d
    using readActiveLoad_quiet[of c "slotKey spec (the (index_id m))" rnow A R d] assms
    by (simp add: index_ok_def case_prod_beta Let_def)
  from loads_of_step[where f = "\<lambda>m d. let i = the (index_id m);
        (d, load) = readActiveLoadForKey c rnow i (slotKey spec i) (waitKey spec i) (TIME rnow) d in (d, load\<lparr>load_member := m\<rparr>)",
      OF this]
  show ?thesis by (simp add: readIndexLoads_def Let_def case_prod_beta)
qed

lemma reconcile_quiet:
  assumes "index_ok c spec"
  shows "slot_step (slotTTLSeconds c) rnow A R db (fst (reconcileExpiredIndexCandidates c fails rnow spec db))"
proof -
  have idx: "life (slotTTLSeconds c) (indexKey spec) = None" using assms by (simp add: index_ok_def)
  define ms where "ms = ZRANGEBYSCORE rnow (indexKey spec) (TIME rnow) activeIndexCleanupBatchSize db"
  obtain d l s where r: "readIndexLoads c rnow spec ms (TIME rnow) db = (d, l, s)" by (metis prod_cases3)
  have "slot_step (slotTTLSeconds c) rnow A R db d" using readIndexLoads_quiet[OF assms, of rnow A R db ms] r by simp
  note d = slot_step_trans[OF slot_step_trans[OF this index_members_quiet(1)[OF idx]] index_members_quiet(2)[OF idx]]
  show ?thesis unfolding reconcileExpiredIndexCandidates_def Let_def ms_def[symmetric] r prod.case
    using d by simp
qed

lemma sweep_quiet: "slot_step ttl rnow A R db (fst (sweepLegacyWaitKeysOnce fails rnow db))"
  by (rule quiet_counters) (simp add: sweepLegacyWaitKeysOnce_def SET_def)

text \<open>The start of a process keeps the slots with its own prefix.\<close>

definition foreign :: "string \<Rightarrow> string \<Rightarrow> string set" where
  "foreign p k = {m. take (length p) m \<noteq> p}"

lemma startup_step:
  assumes "life ttl key = Some ttl" "0 < ttl"
  shows "slot_step ttl rnow nothing (foreign p) db (fst (startupCleanupSlotScript rnow key p ttl db))"
proof -
  define xs where "xs = filter (\<lambda>m. take (length p) m \<noteq> p) (ZRANGE rnow key db)"
  define z where "z = ZREM rnow key xs db"
  have z: "slot_step ttl rnow nothing (foreign p) db z"
    unfolding z_def by (rule steps_to_step[OF steps_ZREM]) (auto simp: xs_def foreign_def)
  have "fst (startupCleanupSlotScript rnow key p ttl db) = (if ZCARD rnow key z = 0 then ZDEL key z else ZEXPIRE rnow key ttl z)"
    unfolding startupCleanupSlotScript_def Let_def z_def xs_def by simp
  then show ?thesis
    using slot_step_trans[OF z quietI[OF steps_ZDEL]] slot_step_trans[OF z quietI[OF steps_ZEXPIRE[OF assms]]] by simp
qed

lemma cleanup_members_step:
  assumes "index_ok c spec" "0 < slotTTLSeconds c"
  shows "slot_step (slotTTLSeconds c) rnow nothing (foreign p) db (fst (cleanup_members c rnow spec p now ms db))"
proof (induction ms arbitrary: db)
  case (Cons m ms)
  show ?case
  proof (cases "index_id m")
    case None
    then show ?thesis using Cons.IH[of db] by (simp add: case_prod_beta)
  next
    case (Some i)
    have life: "life (slotTTLSeconds c) (slotKey spec i) = Some (slotTTLSeconds c)" using assms(1) by (simp add: index_ok_def)
    let ?d = "fst (startupCleanupSlotScript rnow (slotKey spec i) p (slotTTLSeconds c) db)"
    have "slot_step (slotTTLSeconds c) rnow nothing (foreign p) db (CDEL (waitKey spec i) ?d)"
      by (rule slot_step_trans[OF startup_step[OF life assms(2)]]) (rule quiet_counters, simp add: CDEL_def)
    from slot_step_trans[OF this Cons.IH]
    have "slot_step (slotTTLSeconds c) rnow nothing (foreign p) db (fst (cleanup_members c rnow spec p now ms (CDEL (waitKey spec i) ?d)))" .
    moreover have "fst (cleanup_members c rnow spec p now (m # ms) db) = fst (cleanup_members c rnow spec p now ms (CDEL (waitKey spec i) ?d))"
      using Some by (simp add: case_prod_beta)
    ultimately show ?thesis by simp
  qed
qed simp

lemma cleanupForIndex_step:
  assumes "index_ok c spec" "0 < slotTTLSeconds c"
  shows "slot_step (slotTTLSeconds c) rnow nothing (foreign p) db (cleanupStaleProcessSlotsForIndex c fails rnow spec ms p db)"
proof -
  have idx: "life (slotTTLSeconds c) (indexKey spec) = None" using assms(1) by (simp add: index_ok_def)
  note d = slot_step_trans[OF slot_step_trans[OF cleanup_members_step[OF assms] index_members_quiet(1)[OF idx]]
      index_members_quiet(2)[OF idx]]
  show ?thesis unfolding cleanupStaleProcessSlotsForIndex_def case_prod_beta by (rule d)
qed

lemma CleanupStale_step:
  assumes "0 < slotTTLSeconds c"
  shows "slot_step (slotTTLSeconds c) rnow nothing (foreign p) db (fst (CleanupStaleProcessSlots c fails rnow p db))"
proof -
  obtain d b where s: "sweepLegacyWaitKeysOnce fails rnow db = (d, b)" by fastforce
  have d: "slot_step (slotTTLSeconds c) rnow nothing (foreign p) db d" using sweep_quiet[of _ rnow _ _ db fails] s by simp
  note e = slot_step_trans[OF slot_step_trans[OF d cleanupForIndex_step[OF index_ok_specs(1) assms]]
      cleanupForIndex_step[OF index_ok_specs(2) assms]]
  show ?thesis
    using d e unfolding CleanupStaleProcessSlots_def s prod.case Let_def by (cases b) simp_all
qed

end
