(* ===== verification/ConcurrencyRun.thy ===== *)
theory ConcurrencyRun
  imports ConcurrencySteps
begin

text \<open>
  Runs of the concurrency slots: any sequence of the methods, called by any instances at readings of the clock that
  do not go back, with any calls failing. The parts of a method that are calls of their own (the refresh of the
  index after a release) are operations too, so a run has every interleaving of the methods of several instances:
  the first part of a method with its later calls failing, operations of others, and then the later calls.
\<close>

datatype slot_op =
    OpAcquireAccount int int string
  | OpReleaseAccount int string
  | OpGetAccount int
  | OpAcquireUser int int string
  | OpReleaseUser int string
  | OpGetUser int
  | OpTrackAPIKey int string
  | OpReleaseAPIKey int string
  | OpAcquireIngress int int string
  | OpRefreshIngress int string
  | OpReleaseIngress int string
  | OpAcquireLive int int int int int string bool
  | OpRefreshLive int int int string
  | OpReleaseLive int int int string
  | OpIncrementWait int int
  | OpDecrementWait int
  | OpIncrementAccountWait int int
  | OpDecrementAccountWait int
  | OpAccountsLoad "(int \<times> int) list"
  | OpUsersLoad "(int \<times> int) list"
  | OpAccountConcurrency "int list"
  | OpAPIKeyConcurrency "int list"
  | OpCleanupAccount int
  | OpCleanupKeys
  | OpCleanupStale string
  | OpTouchAccount int int
  | OpTouchUser int int
  | OpRefreshAccountIndex int
  | OpRefreshUserIndex int

fun slot_exec :: "concurrencyCache \<Rightarrow> slot_failures \<Rightarrow> int \<Rightarrow> slot_op \<Rightarrow> slot_db \<Rightarrow> slot_db" where
  "slot_exec c fails rnow (OpAcquireAccount a mx r) db = fst (AcquireAccountSlot c fails rnow a mx r db)"
| "slot_exec c fails rnow (OpReleaseAccount a r) db = fst (ReleaseAccountSlot c fails rnow a r db)"
| "slot_exec c fails rnow (OpGetAccount a) db = fst (GetAccountConcurrency c fails rnow a db)"
| "slot_exec c fails rnow (OpAcquireUser u mx r) db = fst (AcquireUserSlot c fails rnow u mx r db)"
| "slot_exec c fails rnow (OpReleaseUser u r) db = fst (ReleaseUserSlot c fails rnow u r db)"
| "slot_exec c fails rnow (OpGetUser u) db = fst (GetUserConcurrency c fails rnow u db)"
| "slot_exec c fails rnow (OpTrackAPIKey k r) db = fst (TrackAPIKeySlot c fails rnow k r db)"
| "slot_exec c fails rnow (OpReleaseAPIKey k r) db = fst (ReleaseAPIKeySlot fails rnow k r db)"
| "slot_exec c fails rnow (OpAcquireIngress k mx l) db = fst (AcquireOpenAIWSIngressLease fails rnow k mx l db)"
| "slot_exec c fails rnow (OpRefreshIngress k l) db = fst (RefreshOpenAIWSIngressLease fails rnow k l db)"
| "slot_exec c fails rnow (OpReleaseIngress k l) db = fst (ReleaseOpenAIWSIngressLease fails rnow k l db)"
| "slot_exec c fails rnow (OpAcquireLive a amax u umax k l replacing) db =
    fst (AcquireLiveLease fails rnow a amax u umax k l replacing db)"
| "slot_exec c fails rnow (OpRefreshLive a u k l) db = fst (RefreshLiveLease fails rnow a u k l db)"
| "slot_exec c fails rnow (OpReleaseLive a u k l) db = fst (ReleaseLiveLease fails rnow a u k l db)"
| "slot_exec c fails rnow (OpIncrementWait u mx) db = fst (IncrementWaitCount c fails rnow u mx db)"
| "slot_exec c fails rnow (OpDecrementWait u) db = fst (DecrementWaitCount c fails rnow u db)"
| "slot_exec c fails rnow (OpIncrementAccountWait a mx) db = fst (IncrementAccountWaitCount c fails rnow a mx db)"
| "slot_exec c fails rnow (OpDecrementAccountWait a) db = fst (DecrementAccountWaitCount c fails rnow a db)"
| "slot_exec c fails rnow (OpAccountsLoad xs) db = fst (GetAccountsLoadBatch c fails rnow xs db)"
| "slot_exec c fails rnow (OpUsersLoad xs) db = fst (GetUsersLoadBatch c fails rnow xs db)"
| "slot_exec c fails rnow (OpAccountConcurrency xs) db = fst (GetAccountConcurrencyBatch c fails rnow xs db)"
| "slot_exec c fails rnow (OpAPIKeyConcurrency xs) db = fst (GetAPIKeyConcurrencyBatch c fails rnow xs db)"
| "slot_exec c fails rnow (OpCleanupAccount a) db = fst (CleanupExpiredAccountSlots c fails rnow a db)"
| "slot_exec c fails rnow OpCleanupKeys db = fst (CleanupExpiredAccountSlotKeys c fails rnow db)"
| "slot_exec c fails rnow (OpCleanupStale p) db = fst (CleanupStaleProcessSlots c fails rnow p db)"
| "slot_exec c fails rnow (OpTouchAccount a e) db = touchActiveIndexAt fails rnow accountActiveIndexKey a e db"
| "slot_exec c fails rnow (OpTouchUser u e) db = touchActiveIndexAt fails rnow userActiveIndexKey u e db"
| "slot_exec c fails rnow (OpRefreshAccountIndex a) db = refreshAccountActiveIndex c fails rnow a db"
| "slot_exec c fails rnow (OpRefreshUserIndex u) db = refreshUserActiveIndex c fails rnow u db"

text \<open>What an operation may add to a key, and what it may remove.\<close>

fun op_adds :: "slot_op \<Rightarrow> string \<Rightarrow> string set" where
  "op_adds (OpAcquireAccount a mx r) = (\<lambda>k. if k = accountSlotKey a then {r} else {})"
| "op_adds (OpAcquireUser u mx r) = (\<lambda>k. if k = userSlotKey u then {r} else {})"
| "op_adds (OpTrackAPIKey i r) = (\<lambda>k. if k = apiKeySlotKey i then {r} else {})"
| "op_adds (OpAcquireIngress i mx l) = (\<lambda>k. if k = openAIWSIngressLeaseKey i then UNIV else {})"
| "op_adds (OpRefreshIngress i l) = (\<lambda>k. if k = openAIWSIngressLeaseKey i then UNIV else {})"
| "op_adds (OpAcquireLive a amax u umax i l rep) = (\<lambda>k. if k \<in> {liveAccountSlotKey a, liveUserSlotKey u, liveAPIKeySlotKey i} then {l} else {})"
| "op_adds op = (\<lambda>_. {})"

fun op_drops :: "slot_op \<Rightarrow> string \<Rightarrow> string set" where
  "op_drops (OpReleaseAccount a r) = (\<lambda>k. if k = accountSlotKey a then {r} else {})"
| "op_drops (OpReleaseUser u r) = (\<lambda>k. if k = userSlotKey u then {r} else {})"
| "op_drops (OpReleaseAPIKey i r) = (\<lambda>k. if k = apiKeySlotKey i then {r} else {})"
| "op_drops (OpReleaseIngress i l) = (\<lambda>k. if k = openAIWSIngressLeaseKey i then {l} else {})"
| "op_drops (OpReleaseLive a u i l) = (\<lambda>k. if k \<in> {liveAccountSlotKey a, liveUserSlotKey u, liveAPIKeySlotKey i} then {l} else {})"
| "op_drops (OpCleanupStale p) = foreign p"
| "op_drops op = (\<lambda>_. {})"

lemma acquire_steps:
  assumes "life ttl key = Some ttl" "life ttl liveKey = Some 60" "key \<noteq> liveKey" "0 < ttl" "slots_ok ttl rnow db"
    and "acquireScript rnow key liveKey mx ttl r db = (db', x)"
  shows "slot_step ttl rnow (\<lambda>k. if k = key then {r} else {}) nothing db db'"
proof -
  have "steps_to ttl rnow db (\<lambda>k X. if k = key \<and> (r \<in> held ttl rnow db key \<or> in_use ttl rnow db key liveKey < mx) then insert r X else X) db'"
    using acquireScript_spec[OF assms(1-5), of mx r] assms(6) by auto
  then show ?thesis by (rule steps_to_step) auto
qed

lemma slot_step_cases: "(slots_ok ttl rnow db \<Longrightarrow> slot_step ttl rnow A R db db') \<Longrightarrow> slot_step ttl rnow A R db db'"
  unfolding slot_step_def by iprover

lemma refreshLive_step:
  assumes "list_all (\<lambda>k. life ttl k = Some L) keys" "0 < L" "refreshLiveLeaseScript rnow keys L l db = (db', n)"
  shows "quiet ttl rnow db db'"
proof (rule slot_step_cases)
  assume ok: "slots_ok ttl rnow db"
  note r = refreshLiveLeaseScript_steps[OF ok assms]
  have b: "slots_ok ttl rnow db'" using r steps_to_slots_ok ok by blast
  have h: "held m rnow db' k = (if n = 1 \<and> k \<in> set keys then insert l (held m rnow db k) else held m rnow db k)"
    if "life ttl k = Some L'" "m \<in> {0<..L'}" for k L' m
    using steps_to_held[OF conjunct1[OF r] ok that] .
  show "quiet ttl rnow db db'"
    unfolding slot_step_def
  proof (intro impI conjI allI ballI)
    fix k L' assume L': "life ttl k = Some L' \<and> 0 < L'"
    have "L' = L" if "k \<in> set keys" using that assms(1) L' by (auto simp: list_all_iff)
    then show "held L' rnow db' k \<subseteq> held L' rnow db k \<union> {}" using h[of k L' L'] L' r by auto
    show "held m rnow db k - {} \<subseteq> held m rnow db' k" if "m \<in> {0<..L'}" for m using h[of k L' m] L' that by auto
  qed (rule b)
qed

lemma step_UNIV:
  assumes "\<exists>Y. steps_to ttl rnow db (\<lambda>k X. if k = key then Y \<union> X else X) db'"
  shows "slot_step ttl rnow (\<lambda>k. if k = key then UNIV else {}) nothing db db'"
  using assms by (auto elim!: steps_to_step split: if_splits)

lemma ZREM_step: "slot_step ttl rnow nothing (\<lambda>k'. if k' = k then {m} else {}) db (ZREM rnow k [m] db)"
  by (rule steps_to_step[OF steps_ZREM]) auto

lemma fst_case: "fst (case p of (d, x) \<Rightarrow> (f d x, g d x)) = f (fst p) (snd p)"
  by (cases p) simp

section \<open>Every method\<close>

lemma acquire_exec:
  assumes "0 < slotTTLSeconds c" "life (slotTTLSeconds c) key = Some (slotTTLSeconds c)"
    "life (slotTTLSeconds c) liveKey = Some 60" "key \<noteq> liveKey" "life (slotTTLSeconds c) idx = None"
  shows "slot_step (slotTTLSeconds c) rnow (\<lambda>k. if k = key then {r} else {}) nothing db
    (fst (case acquireScript rnow key liveKey mx (slotTTLSeconds c) r db of
       (db, result, now) \<Rightarrow> (if result = 1 then touchActiveIndexAt fails rnow idx i (now + slotTTLSeconds c) db else db, b result)))"
proof (rule slot_step_cases)
  assume ok: "slots_ok (slotTTLSeconds c) rnow db"
  obtain d n t where e: "acquireScript rnow key liveKey mx (slotTTLSeconds c) r db = (d, n, t)" by (metis prod_cases3)
  note s = acquire_steps[OF assms(2-4,1) ok e]
  show "slot_step (slotTTLSeconds c) rnow (\<lambda>k. if k = key then {r} else {}) nothing db
    (fst (case acquireScript rnow key liveKey mx (slotTTLSeconds c) r db of
       (db, result, now) \<Rightarrow> (if result = 1 then touchActiveIndexAt fails rnow idx i (now + slotTTLSeconds c) db else db, b result)))"
    using s slot_step_trans[OF s touch_quiet[OF assms(5)]] unfolding e prod.case by simp
qed

lemma release_exec:
  assumes "life (slotTTLSeconds c) key = Some (slotTTLSeconds c)" "life (slotTTLSeconds c) idx = None"
  shows "slot_step (slotTTLSeconds c) rnow nothing (\<lambda>k. if k = key then {r} else {}) db
    (refreshActiveIndex c fails rnow idx i key wait (ZREM rnow key [r] db))"
  using slot_step_trans[OF ZREM_step refreshActiveIndex_quiet[OF assms]] .

lemma waiting_exec:
  fixes out :: "slot_db \<times> int \<times> int"
  assumes "life ttl idx = None" "zsets (fst (out)) = zsets db"
  shows "slot_step ttl rnow A R db
    (fst (case out of (db, result, now) \<Rightarrow>
       (if result = 1 then touchActiveIndexAt fails rnow idx i (now + w) db else db, b result)))"
proof -
  obtain d n t where e: "out = (d, n, t)" by (metis prod_cases3)
  have s: "slot_step ttl rnow A R db d" by (rule quiet_counters) (use assms(2) e in simp)
  show ?thesis using s slot_step_trans[OF s touch_quiet[OF assms(1)]] unfolding e prod.case by simp
qed

lemma wait_scripts_zsets [simp]:
  "zsets (fst (incrementWaitScript rnow key mx ttl db)) = zsets db"
  "zsets (fst (incrementAccountWaitScript rnow key mx ttl db)) = zsets db"
  "zsets (decrementWaitScript rnow key db) = zsets db"
  by (simp_all add: incrementWaitScript_def incrementAccountWaitScript_def decrementWaitScript_def Let_def
      CEXPIRE_def INCRBY_def SET_def split: option.split)

lemma batch_exec:
  fixes c :: concurrencyCache
  assumes "\<And>i. life (slotTTLSeconds c) (slots i) = Some (slotTTLSeconds c)" "\<And>i. life (slotTTLSeconds c) (lives i) = Some 60"
  shows "slot_step (slotTTLSeconds c) rnow A R db
      (fst (case loads_of (load_info c rnow slots lives waits) xs db of (db, ls) \<Rightarrow> (db, Some ls)))"
    "slot_step (slotTTLSeconds c) rnow A R db
      (fst (case loads_of (concurrency_of c rnow slots lives) ys db of (db, ls) \<Rightarrow> (db, Some ls)))"
proof -
  show "slot_step (slotTTLSeconds c) rnow A R db
      (fst (case loads_of (load_info c rnow slots lives waits) xs db of (db, ls) \<Rightarrow> (db, Some ls)))"
    using loads_of_step[where f = "load_info c rnow slots lives waits", OF load_info_quiet[OF assms]] by (simp add: case_prod_beta)
  show "slot_step (slotTTLSeconds c) rnow A R db
      (fst (case loads_of (concurrency_of c rnow slots lives) ys db of (db, ls) \<Rightarrow> (db, Some ls)))"
    using loads_of_step[where f = "concurrency_of c rnow slots lives", OF concurrency_of_quiet[OF assms]] by (simp add: case_prod_beta)
qed

lemma acquireLive_exec:
  assumes "0 < slotTTLSeconds c"
  shows "slot_step (slotTTLSeconds c) rnow (op_adds (OpAcquireLive a amax u umax i l rep)) nothing db
    (slot_exec c fails rnow (OpAcquireLive a amax u umax i l rep) db)"
proof (rule slot_step_cases)
  assume ok: "slots_ok (slotTTLSeconds c) rnow db"
  let ?r = "if rep then 1 else 0 :: int"
  obtain d n where e: "acquireLiveLeaseScript rnow (accountSlotKey a) (liveAccountSlotKey a) (userSlotKey u) (liveUserSlotKey u)
      (liveAPIKeySlotKey i) amax umax 60 l ?r db = (d, n)" by fastforce
  have "slot_step (slotTTLSeconds c) rnow (op_adds (OpAcquireLive a amax u umax i l rep)) nothing db d"
    using acquireLiveLease_spec[OF life_keys(1,2,4,5,6) _ _ _ assms ok e]
    by (auto elim!: steps_to_step split: if_splits)
  then show "slot_step (slotTTLSeconds c) rnow (op_adds (OpAcquireLive a amax u umax i l rep)) nothing db
    (slot_exec c fails rnow (OpAcquireLive a amax u umax i l rep) db)"
    using e by (simp add: AcquireLiveLease_def liveLeaseTTLSeconds_def)
qed

lemma releaseLive_exec:
  "slot_step ttl rnow nothing (op_drops (OpReleaseLive a u i l)) db
     (ZREM rnow (liveAPIKeySlotKey i) [l] (ZREM rnow (liveUserSlotKey u) [l] (ZREM rnow (liveAccountSlotKey a) [l] db)))"
proof -
  have z: "slot_step ttl rnow nothing (op_drops (OpReleaseLive a u i l)) d (ZREM rnow k [l] d)"
    if "k \<in> {liveAccountSlotKey a, liveUserSlotKey u, liveAPIKeySlotKey i}" for d k
    by (rule slot_step_mono[OF ZREM_step]) (use that in auto)
  show ?thesis by (rule slot_step_trans[OF slot_step_trans[OF z z] z]) simp_all
qed

text \<open>Every method keeps the discipline and adds and removes no more than \<open>op_adds\<close> and \<open>op_drops\<close> say.\<close>

lemma slot_exec_step:
  assumes "0 < slotTTLSeconds c"
  shows "slot_step (slotTTLSeconds c) rnow (op_adds op) (op_drops op) db (slot_exec c fails rnow op db)"
proof (cases op)
  case (OpAcquireAccount a mx r)
  then show ?thesis
    using acquire_exec[OF assms life_keys(1) life_keys(4) _ life_index(1), where b = "\<lambda>n. Some (n = 1)"] by (simp add: AcquireAccountSlot_def)
next
  case (OpAcquireUser a mx r)
  then show ?thesis
    using acquire_exec[OF assms life_keys(2) life_keys(5) _ life_index(2), where b = "\<lambda>n. Some (n = 1)"] by (simp add: AcquireUserSlot_def)
next
  case (OpReleaseAccount a r)
  then show ?thesis
    using release_exec[OF life_keys(1) life_index(1)] by (simp add: ReleaseAccountSlot_def refreshAccountActiveIndex_def)
next
  case (OpReleaseUser a r)
  then show ?thesis
    using release_exec[OF life_keys(2) life_index(2)] by (simp add: ReleaseUserSlot_def refreshUserActiveIndex_def)
next
  case (OpGetAccount a)
  then show ?thesis using purge_both_quiet[where c = c, OF life_keys(1) life_keys(4)]
    by (simp add: GetAccountConcurrency_def getCountScript_def liveLeaseTTLSeconds_def Let_def)
next
  case (OpGetUser a)
  then show ?thesis using purge_both_quiet[where c = c, OF life_keys(2) life_keys(5)]
    by (simp add: GetUserConcurrency_def getCountScript_def liveLeaseTTLSeconds_def Let_def)
next
  case (OpTrackAPIKey k r)
  have "slot_step (slotTTLSeconds c) rnow (op_adds op) nothing db (trackSlotScript rnow (apiKeySlotKey k) (slotTTLSeconds c) r db)"
    by (rule steps_to_step[OF trackSlotScript_steps[OF life_keys(3) assms]]) (auto simp: OpTrackAPIKey)
  then show ?thesis using OpTrackAPIKey by (simp add: TrackAPIKeySlot_def)
next
  case (OpReleaseAPIKey k r)
  then show ?thesis by (simp add: ReleaseAPIKeySlot_def ZREM_step)
next
  case (OpAcquireIngress k mx l)
  obtain d n where e: "acquireOpenAIWSIngressLeaseScript rnow (openAIWSIngressLeaseKey k) mx 60 l db = (d, n)" by fastforce
  show ?thesis using step_UNIV[OF ingress_acquire_steps[OF life_keys(7) _ e]] e OpAcquireIngress
    by (simp add: AcquireOpenAIWSIngressLease_def openAIWSIngressLeaseTTLSeconds_def)
next
  case (OpRefreshIngress k l)
  obtain d n where e: "refreshOpenAIWSIngressLeaseScript rnow (openAIWSIngressLeaseKey k) 60 l db = (d, n)" by fastforce
  show ?thesis using step_UNIV[OF ingress_refresh_steps[OF life_keys(7) _ e]] e OpRefreshIngress
    by (simp add: RefreshOpenAIWSIngressLease_def openAIWSIngressLeaseTTLSeconds_def)
next
  case (OpReleaseIngress k l)
  then show ?thesis by (simp add: ReleaseOpenAIWSIngressLease_def ZREM_step)
next
  case (OpAcquireLive a amax u umax k l rep)
  then show ?thesis using acquireLive_exec[OF assms] by simp
next
  case (OpRefreshLive a u k l)
  obtain d n where e: "refreshLiveLeaseScript rnow [liveAccountSlotKey a, liveUserSlotKey u, liveAPIKeySlotKey k] 60 l db = (d, n)"
    by fastforce
  have "quiet (slotTTLSeconds c) rnow db d" by (rule refreshLive_step[OF _ _ e]) simp_all
  then show ?thesis using e OpRefreshLive by (simp add: RefreshLiveLease_def liveLeaseTTLSeconds_def)
next
  case (OpReleaseLive a u k l)
  then show ?thesis using releaseLive_exec[of _ rnow a u k l db] by (simp add: ReleaseLiveLease_def Let_def)
next
  case (OpIncrementWait u mx)
  then show ?thesis using waiting_exec[OF life_index(2), where b = "\<lambda>n. Some (n = 1)"] by (simp add: IncrementWaitCount_def)
next
  case (OpIncrementAccountWait u mx)
  then show ?thesis using waiting_exec[OF life_index(1), where b = "\<lambda>n. Some (n = 1)"] by (simp add: IncrementAccountWaitCount_def)
next
  case (OpDecrementWait u)
  then show ?thesis using slot_step_trans[OF quiet_counters refresh_index_quiet(2)] by (simp add: DecrementWaitCount_def)
next
  case (OpDecrementAccountWait a)
  then show ?thesis using slot_step_trans[OF quiet_counters refresh_index_quiet(1)] by (simp add: DecrementAccountWaitCount_def)
next
  case (OpAccountsLoad xs)
  then show ?thesis using batch_exec(1)[OF life_keys(1) life_keys(4)] by (simp add: GetAccountsLoadBatch_def)
next
  case (OpUsersLoad xs)
  then show ?thesis using batch_exec(1)[OF life_keys(2) life_keys(5)] by (simp add: GetUsersLoadBatch_def)
next
  case (OpAccountConcurrency xs)
  then show ?thesis using batch_exec(2)[OF life_keys(1) life_keys(4)] by (simp add: GetAccountConcurrencyBatch_def)
next
  case (OpAPIKeyConcurrency xs)
  then show ?thesis using batch_exec(2)[OF life_keys(3) life_keys(6)] by (simp add: GetAPIKeyConcurrencyBatch_def)
next
  case (OpCleanupAccount a)
  then show ?thesis
    using slot_step_trans[OF quietI[OF cleanupExpiredSlots_steps[OF life_keys(1) assms]] refresh_index_quiet(1)]
    by (simp add: CleanupExpiredAccountSlots_def)
next
  case OpCleanupKeys
  obtain d b where e: "reconcileExpiredIndexCandidates c fails rnow accountSlotIndex db = (d, b)" by fastforce
  have "quiet (slotTTLSeconds c) rnow db d" using reconcile_quiet[OF index_ok_specs(1), of c rnow nothing nothing db fails] e by simp
  then show ?thesis using OpCleanupKeys e slot_step_trans[OF _ reconcile_quiet[OF index_ok_specs(2)]]
    by (cases b) (simp_all add: CleanupExpiredAccountSlotKeys_def)
next
  case (OpCleanupStale p)
  then show ?thesis using CleanupStale_step[OF assms] by simp
qed (simp_all add: touch_quiet refresh_index_quiet)

end
