(* ===== verification/ConcurrencyPromises.thy ===== *)
theory ConcurrencyPromises
  imports ConcurrencyRun
begin

text \<open>
  What the concurrency slots promise over any run: the limit of an account or user is never exceeded by the slots
  and leases that have not run out, a slot is granted exactly when its request holds it already or there is room,
  and a granted slot counts until it is released or its life is over.
\<close>

section \<open>Time passes\<close>

lemma TIME_mono: "t \<le> t' \<Longrightarrow> TIME t \<le> TIME t'"
  by (simp add: TIME_def zdiv_mono1)

lemma zmembers_later:
  assumes "t \<le> t'"
  shows "set (zmembers t' db k) \<subseteq> set (zmembers t db k)"
  using assms by (cases "zsets db k") (auto simp: zmembers_def alive_def split: option.splits if_splits)

lemma held_later:
  assumes "t \<le> t'"
  shows "held L t' db k \<subseteq> held L t db k"
  using zmembers_later[OF assms, of db k] TIME_mono[OF assms] by (force simp: held_def)

lemma slots_ok_later:
  assumes "t \<le> t'" "slots_ok ttl t db"
  shows "slots_ok ttl t' db"
proof -
  have "key_ok L t' db k" if "key_ok L t db k" for L k
    using that TIME_mono[OF assms(1)] unfolding key_ok_def by (auto split: option.splits intro: order_trans)
  then show ?thesis using assms(2) by (simp add: slots_ok_def)
qed

text \<open>A member younger than the life of its key is there, however the expiry of the key was last set.\<close>

lemma held_kept:
  assumes ok: "key_ok L t db k" and m: "m \<in> held n t db k" and t: "t \<le> t'" and n: "n + (TIME t' - TIME t) \<le> L"
  shows "m \<in> held (n + (TIME t' - TIME t)) t' db k"
proof -
  obtain s where s: "(m, s) \<in> set (zmembers t db k)" "TIME t - n < s" using m by (auto simp: held_def)
  then obtain ms e where z: "zsets db k = Some (ms, e)" "(m, s) \<in> set ms"
    by (cases "zsets db k") (auto simp: zmembers_def split: if_splits)
  have "alive t' e"
  proof (cases e)
    case (Some x)
    then have "(s + L) * 1000 \<le> x" using ok z by (auto simp: key_ok_def)
    moreover have "TIME t' + 1 \<le> s + L" using s(2) n by linarith
    then have "t' < (s + L) * 1000" by (simp add: TIME_def)
    ultimately show ?thesis using Some by simp
  qed simp
  then have "(m, s) \<in> set (zmembers t' db k)" using z by (simp add: zmembers_def)
  then show ?thesis using s(2) by (force simp: held_def)
qed

section \<open>Runs\<close>

type_synonym slot_event = "int \<times> slot_failures \<times> slot_op"

definition slot_run :: "concurrencyCache \<Rightarrow> slot_event list \<Rightarrow> slot_db \<Rightarrow> slot_db" where
  "slot_run c evs db = fold (\<lambda>(t, fails, op) db. slot_exec c fails t op db) evs db"

definition empty_slots :: slot_db where
  "empty_slots = \<lparr>zsets = (\<lambda>_. None), counters = (\<lambda>_. None)\<rparr>"

text \<open>The events are in the order of their instants, the first is not before \<open>t0\<close> and the last not after \<open>now\<close>.\<close>

fun timed :: "int \<Rightarrow> slot_event list \<Rightarrow> int \<Rightarrow> bool" where
  "timed t0 [] now = (t0 \<le> now)"
| "timed t0 ((t, e) # evs) now = (t0 \<le> t \<and> timed t evs now)"

lemma slot_run_simps [simp]:
  "slot_run c [] db = db" "slot_run c ((t, fails, op) # evs) db = slot_run c evs (slot_exec c fails t op db)"
  by (simp_all add: slot_run_def)

lemma slot_run_append: "slot_run c (evs @ evs') db = slot_run c evs' (slot_run c evs db)"
  by (simp add: slot_run_def)

lemma timed_le: "timed t0 evs now \<Longrightarrow> t0 \<le> now"
  by (induction t0 evs now rule: timed.induct) auto

lemma timed_append: "timed t0 (evs @ (t, x) # evs') now \<longleftrightarrow> timed t0 evs t \<and> timed t evs' now"
  by (induction t0 evs now rule: timed.induct) auto

lemma slots_ok_empty: "slots_ok ttl t empty_slots"
  by (simp add: slots_ok_def key_ok_def empty_slots_def)

lemma slot_run_ok:
  assumes "0 < slotTTLSeconds c"
  shows "timed t0 evs now \<Longrightarrow> slots_ok (slotTTLSeconds c) t0 db \<Longrightarrow> slots_ok (slotTTLSeconds c) now (slot_run c evs db)"
proof (induction evs arbitrary: t0 db)
  case Nil
  then show ?case using slots_ok_later by simp
next
  case (Cons e evs)
  obtain t fails op where e: "e = (t, fails, op)" by (cases e)
  have "slots_ok (slotTTLSeconds c) t db" by (rule slots_ok_later[OF _ Cons.prems(2)]) (use Cons.prems(1) e in simp)
  then have "slots_ok (slotTTLSeconds c) t (slot_exec c fails t op db)" by (rule slot_step_ok[OF slot_exec_step[OF assms]])
  then show ?case using Cons.IH[of t] Cons.prems(1) e by simp
qed

lemma slot_run_keeps:
  assumes ttl: "0 < slotTTLSeconds c" and life: "life (slotTTLSeconds c) k = Some L"
  shows "timed t0 evs now \<Longrightarrow> slots_ok (slotTTLSeconds c) t0 db \<Longrightarrow> r \<in> held n t0 db k \<Longrightarrow> 0 < n \<Longrightarrow>
    n + (TIME now - TIME t0) \<le> L \<Longrightarrow> list_all (\<lambda>(t, fails, op). r \<notin> op_drops op k) evs \<Longrightarrow>
    r \<in> held (n + (TIME now - TIME t0)) now (slot_run c evs db) k"
proof (induction evs arbitrary: t0 db n)
  case Nil
  then show ?case using held_kept[OF slots_ok_key[OF _ life]] by simp
next
  case (Cons e evs)
  obtain t fails op where e: "e = (t, fails, op)" by (cases e)
  let ?d = "slot_exec c fails t op db" and ?n = "n + (TIME t - TIME t0)"
  have t: "t0 \<le> t" "timed t evs now" using Cons.prems(1) e by simp_all
  have "t \<le> now" using t(2) by (rule timed_le)
  note T = TIME_mono[OF t(1)] TIME_mono[OF this]
  note ok = slots_ok_later[OF t(1) Cons.prems(2)]
  note step = slot_exec_step[OF ttl, of t op db fails]
  have n: "?n \<in> {0<..L}" using Cons.prems(4,5) T by simp
  have "r \<in> held ?n t db k" using held_kept[OF slots_ok_key[OF Cons.prems(2) life] Cons.prems(3) t(1)] n by simp
  then have r: "r \<in> held ?n t ?d k" using slot_step_keeps[OF step ok life n] Cons.prems(6) e by simp
  have "r \<in> held (?n + (TIME now - TIME t)) now (slot_run c evs ?d) k"
    by (rule Cons.IH[OF t(2) slot_step_ok[OF step ok] r]) (use Cons.prems(5,6) n e in simp_all)
  then show ?case using e by simp
qed

section \<open>The limit\<close>

text \<open>What a client relies on, of a count \<open>used\<close> of members that have not run out: no operation that keeps to the
  limit \<open>m\<close> brings it above \<open>m\<close>, and time only lowers it.\<close>

locale limited_slots =
  fixes c :: concurrencyCache and used :: "int \<Rightarrow> slot_db \<Rightarrow> int" and within :: "int \<Rightarrow> slot_op \<Rightarrow> bool"
  assumes ttl: "0 < slotTTLSeconds c"
    and used_later: "t \<le> t' \<Longrightarrow> used t' db \<le> used t db"
    and used_empty: "used t empty_slots = 0"
    and exec_limit: "slots_ok (slotTTLSeconds c) t db \<Longrightarrow> within m op \<Longrightarrow> used t db \<le> m \<Longrightarrow> used t (slot_exec c fails t op db) \<le> m"
begin

lemma run_limit:
  "timed t0 evs now \<Longrightarrow> slots_ok (slotTTLSeconds c) t0 db \<Longrightarrow> list_all (\<lambda>(t, fails, op). within m op) evs \<Longrightarrow>
   used t0 db \<le> m \<Longrightarrow> used now (slot_run c evs db) \<le> m"
proof (induction evs arbitrary: t0 db)
  case Nil
  then show ?case using used_later[of t0 now db] by simp
next
  case (Cons e evs)
  obtain t fails op where e: "e = (t, fails, op)" by (cases e)
  have t: "t0 \<le> t" "timed t evs now" and op: "within m op" using Cons.prems(1,3) e by simp_all
  note ok = slots_ok_later[OF t(1) Cons.prems(2)]
  have "used t (slot_exec c fails t op db) \<le> m"
    by (rule exec_limit[OF ok op]) (use used_later[OF t(1), of db] Cons.prems(4) in simp)
  then show ?case using Cons.IH[OF t(2) slot_step_ok[OF slot_exec_step[OF ttl] ok]] Cons.prems(3) e by simp
qed

lemma limit_from_empty:
  "timed t0 evs now \<Longrightarrow> list_all (\<lambda>(t, fails, op). within m op) evs \<Longrightarrow> 0 \<le> m \<Longrightarrow> used now (slot_run c evs empty_slots) \<le> m"
  by (rule run_limit[OF _ slots_ok_empty]) (simp_all add: used_empty)

end

section \<open>Accounts and users keep to their limits\<close>

lemma in_use_later: "t \<le> t' \<Longrightarrow> in_use ttl t' db slots leases \<le> in_use ttl t db slots leases"
  using card_mono[OF finite_held held_later, of t t'] by (force simp: in_use_def intro: add_mono)

lemma held_empty [simp]: "held L t empty_slots k = {}"
  by (simp add: held_def zmembers_def empty_slots_def)

text \<open>An operation names at most the limit \<open>m\<close> for an account when the limit of its slot, or the positive limit of its
  live lease, is at most \<open>m\<close>; a lease whose limit is not positive is not counted against any. A lease that replaces a
  regular slot is granted while the limit it names is just reached.\<close>

fun account_within :: "int \<Rightarrow> int \<Rightarrow> slot_op \<Rightarrow> bool" where
  "account_within a m (OpAcquireAccount b mx r) = (b = a \<longrightarrow> mx \<le> m)"
| "account_within a m (OpAcquireLive b amax u umax k l replacing) = (b = a \<longrightarrow> 0 < amax \<and> amax \<le> m)"
| "account_within a m op = True"

fun account_replaces :: "int \<Rightarrow> slot_op \<Rightarrow> bool" where
  "account_replaces a (OpAcquireLive b amax u umax k l replacing) = (b = a \<and> replacing)"
| "account_replaces a op = False"

fun user_within :: "int \<Rightarrow> int \<Rightarrow> slot_op \<Rightarrow> bool" where
  "user_within u m (OpAcquireUser v mx r) = (v = u \<longrightarrow> mx \<le> m)"
| "user_within u m (OpAcquireLive a amax v umax k l replacing) = (v = u \<longrightarrow> 0 < umax \<and> umax \<le> m)"
| "user_within u m op = True"

fun user_replaces :: "int \<Rightarrow> slot_op \<Rightarrow> bool" where
  "user_replaces u (OpAcquireLive a amax v umax k l replacing) = (v = u \<and> replacing)"
| "user_replaces u op = False"

text \<open>What an operation can bring the count up to: the limit it names, and one more for a replacing lease.\<close>

definition account_capped :: "int \<Rightarrow> int \<Rightarrow> slot_op \<Rightarrow> bool" where
  "account_capped a m op \<longleftrightarrow> account_within a (m - (if account_replaces a op then 1 else 0)) op"

definition user_capped :: "int \<Rightarrow> int \<Rightarrow> slot_op \<Rightarrow> bool" where
  "user_capped u m op \<longleftrightarrow> user_within u (m - (if user_replaces u op then 1 else 0)) op"

lemma account_within_mono: "m \<le> n \<Longrightarrow> account_within a m op \<Longrightarrow> account_within a n op" "m \<le> n \<Longrightarrow> user_within u m op \<Longrightarrow> user_within u n op"
  by (cases op; force)+

lemma account_run_capped:
  assumes "list_all (\<lambda>(t, fails, op). account_within a m op) evs"
  shows "list_all (\<lambda>(t, fails, op). account_capped a (m + (if list_ex (\<lambda>(t, fails, op). account_replaces a op) evs then 1 else 0)) op) evs"
  using assms by (fastforce simp: list_all_iff list_ex_iff account_capped_def elim: account_within_mono[rotated])

lemma user_run_capped:
  assumes "list_all (\<lambda>(t, fails, op). user_within u m op) evs"
  shows "list_all (\<lambda>(t, fails, op). user_capped u (m + (if list_ex (\<lambda>(t, fails, op). user_replaces u op) evs then 1 else 0)) op) evs"
  using assms by (fastforce simp: list_all_iff list_ex_iff user_capped_def elim: account_within_mono[rotated])

lemma in_use_steps:
  assumes "steps_to ttl t db U db'" "slots_ok ttl t db" "life ttl key = Some ttl" "life ttl leaseKey = Some 60" "0 < ttl"
  shows "in_use ttl t db' key leaseKey = int (card (U key (held ttl t db key))) + int (card (U leaseKey (held 60 t db leaseKey)))"
  using steps_to_held[OF assms(1,2,3), of ttl] steps_to_held[OF assms(1,2,4), of 60] assms(5) by (simp add: in_use_def)

lemma in_use_step:
  assumes "slot_step ttl t A R db db'" "slots_ok ttl t db" "life ttl key = Some ttl" "life ttl leaseKey = Some 60" "0 < ttl"
    and "A key = {}" "A leaseKey = {}"
  shows "in_use ttl t db' key leaseKey \<le> in_use ttl t db key leaseKey"
proof -
  have "held ttl t db' key \<subseteq> held ttl t db key" "held 60 t db' leaseKey \<subseteq> held 60 t db leaseKey"
    using slot_step_adds[OF assms(1,2,3,5)] slot_step_adds[OF assms(1,2,4)] assms(6,7) by auto
  from this[THEN card_mono[OF finite_held]] show ?thesis by (simp add: in_use_def)
qed

lemma acquire_limit:
  assumes c: "0 < slotTTLSeconds c" and life: "life (slotTTLSeconds c) key = Some (slotTTLSeconds c)"
    "life (slotTTLSeconds c) liveKey = Some 60" "key \<noteq> liveKey" "life (slotTTLSeconds c) idx = None"
    and ok: "slots_ok (slotTTLSeconds c) t db" and mx: "mx \<le> m" and use_m: "in_use (slotTTLSeconds c) t db key liveKey \<le> m"
  shows "in_use (slotTTLSeconds c) t (fst (case acquireScript t key liveKey mx (slotTTLSeconds c) r db of
       (db, result, now) \<Rightarrow> (if result = 1 then touchActiveIndexAt fails t idx i (now + slotTTLSeconds c) db else db, b result)))
     key liveKey \<le> m"
proof -
  let ?ttl = "slotTTLSeconds c"
  let ?granted = "r \<in> held ?ttl t db key \<or> in_use ?ttl t db key liveKey < mx"
  obtain d where d: "acquireScript t key liveKey mx ?ttl r db = (d, if ?granted then 1 else 0, TIME t)"
      "steps_to ?ttl t db (\<lambda>k X. if k = key \<and> ?granted then insert r X else X) d"
    using acquireScript_spec[OF life(1,2,3) c ok] by blast
  note ok_d = steps_to_slots_ok[OF d(2) ok]
  have "in_use ?ttl t d key liveKey =
      int (card (if ?granted then insert r (held ?ttl t db key) else held ?ttl t db key)) + int (card (held 60 t db liveKey))"
    using in_use_steps[OF d(2) ok life(1,2) c] life(3) by simp
  then have d_m: "in_use ?ttl t d key liveKey \<le> m"
    using mx use_m card_insert_le_m1[of 1] by (auto simp: in_use_def card_insert_if split: if_splits)
  have "in_use ?ttl t (touchActiveIndexAt fails t idx i e d) key liveKey \<le> m" for e
    using in_use_step[OF touch_quiet[OF life(4)] ok_d life(1,2) c, of nothing] d_m by (meson order_trans)
  then show ?thesis unfolding d(1) prod.case using d_m by simp
qed

lemma lease_limit:
  assumes c: "0 < ttl" and ok: "slots_ok ttl t db" and life: "life ttl key = Some ttl" "life ttl leaseKey = Some 60"
    and spec: "steps_to ttl t db (\<lambda>_ X. X) d \<or>
      steps_to ttl t db (\<lambda>k X. if k \<in> S then insert l X else X) d \<and> (leaseKey \<in> S \<longrightarrow> in_use ttl t db key leaseKey < m)"
    and "key \<notin> S" and use_m: "in_use ttl t db key leaseKey \<le> m"
  shows "in_use ttl t d key leaseKey \<le> m"
  using spec
proof
  assume "steps_to ttl t db (\<lambda>_ X. X) d"
  from in_use_steps[OF this ok life c] show ?thesis using use_m by (simp add: in_use_def)
next
  assume s: "steps_to ttl t db (\<lambda>k X. if k \<in> S then insert l X else X) d \<and> (leaseKey \<in> S \<longrightarrow> in_use ttl t db key leaseKey < m)"
  have "int (card (insert l (held 60 t db leaseKey))) \<le> int (card (held 60 t db leaseKey)) + 1" by (simp add: card_insert_if)
  then show ?thesis
    using in_use_steps[OF conjunct1[OF s] ok life c] s use_m assms(6) by (cases "leaseKey \<in> S") (simp_all add: in_use_def)
qed

lemma live_limit:
  assumes c: "0 < slotTTLSeconds c" and ok: "slots_ok (slotTTLSeconds c) t db"
  shows "account_capped a m (OpAcquireLive b amax v umax k l rep) \<Longrightarrow> in_use (slotTTLSeconds c) t db (accountSlotKey a) (liveAccountSlotKey a) \<le> m \<Longrightarrow>
      in_use (slotTTLSeconds c) t (slot_exec c fails t (OpAcquireLive b amax v umax k l rep) db) (accountSlotKey a) (liveAccountSlotKey a) \<le> m"
    "user_capped u m (OpAcquireLive b amax v umax k l rep) \<Longrightarrow> in_use (slotTTLSeconds c) t db (userSlotKey u) (liveUserSlotKey u) \<le> m \<Longrightarrow>
      in_use (slotTTLSeconds c) t (slot_exec c fails t (OpAcquireLive b amax v umax k l rep) db) (userSlotKey u) (liveUserSlotKey u) \<le> m"
proof -
  let ?ttl = "slotTTLSeconds c" and ?r = "if rep then 1 else 0 :: int"
    and ?S = "{liveAccountSlotKey b, liveUserSlotKey v, liveAPIKeySlotKey k}"
  obtain d n where e: "acquireLiveLeaseScript t (accountSlotKey b) (liveAccountSlotKey b) (userSlotKey v) (liveUserSlotKey v)
      (liveAPIKeySlotKey k) amax umax 60 l ?r db = (d, n)" by fastforce
  have spec: "steps_to ?ttl t db (\<lambda>_ X. X) d \<or>
      steps_to ?ttl t db (\<lambda>k' X. if k' \<in> ?S then insert l X else X) d \<and>
      (amax > 0 \<longrightarrow> in_use ?ttl t db (accountSlotKey b) (liveAccountSlotKey b) < amax + ?r) \<and>
      (umax > 0 \<longrightarrow> in_use ?ttl t db (userSlotKey v) (liveUserSlotKey v) < umax + ?r)"
    using acquireLiveLease_spec[OF life_keys(1,2,4,5,6) _ _ _ c ok e] by (simp split: if_splits)
  have exec: "slot_exec c fails t (OpAcquireLive b amax v umax k l rep) db \<in> {db, d}"
    using e by (simp add: AcquireLiveLease_def liveLeaseTTLSeconds_def)
  show "in_use ?ttl t (slot_exec c fails t (OpAcquireLive b amax v umax k l rep) db) (accountSlotKey a) (liveAccountSlotKey a) \<le> m"
    if w: "account_capped a m (OpAcquireLive b amax v umax k l rep)" "in_use ?ttl t db (accountSlotKey a) (liveAccountSlotKey a) \<le> m"
  proof -
    have "in_use ?ttl t d (accountSlotKey a) (liveAccountSlotKey a) \<le> m"
      by (rule lease_limit[OF c ok life_keys(1,4), where S = ?S and l = l]) (use spec w in \<open>auto simp: account_capped_def user_capped_def split: if_splits\<close>)
    then show ?thesis using exec w(2) by auto
  qed
  show "in_use ?ttl t (slot_exec c fails t (OpAcquireLive b amax v umax k l rep) db) (userSlotKey u) (liveUserSlotKey u) \<le> m"
    if w: "user_capped u m (OpAcquireLive b amax v umax k l rep)" "in_use ?ttl t db (userSlotKey u) (liveUserSlotKey u) \<le> m"
  proof -
    have "in_use ?ttl t d (userSlotKey u) (liveUserSlotKey u) \<le> m"
      by (rule lease_limit[OF c ok life_keys(2,5), where S = ?S and l = l]) (use spec w in \<open>auto simp: account_capped_def user_capped_def split: if_splits\<close>)
    then show ?thesis using exec w(2) by auto
  qed
qed

lemma exec_limit_account:
  assumes c: "0 < slotTTLSeconds c" and ok: "slots_ok (slotTTLSeconds c) t db" and w: "account_capped a m op"
    and u: "in_use (slotTTLSeconds c) t db (accountSlotKey a) (liveAccountSlotKey a) \<le> m"
  shows "in_use (slotTTLSeconds c) t (slot_exec c fails t op db) (accountSlotKey a) (liveAccountSlotKey a) \<le> m"
proof (cases "(\<exists>mx r. op = OpAcquireAccount a mx r) \<or> (\<exists>b amax v umax k l rep. op = OpAcquireLive b amax v umax k l rep)")
  case True
  then show ?thesis
  proof (elim disjE exE)
    fix mx r assume op: "op = OpAcquireAccount a mx r"
    show ?thesis
      using acquire_limit[OF c life_keys(1) life_keys(4) _ life_index(1) ok _ u, where b = "\<lambda>n. Some (n = 1)" and mx = mx] w u
      by (simp add: op AcquireAccountSlot_def account_capped_def)
  next
    fix b amax v umax k l rep assume "op = OpAcquireLive b amax v umax k l rep"
    then show ?thesis using live_limit(1)[OF c ok] w u by blast
  qed
next
  case False
  then have "op_adds op (accountSlotKey a) = {}" "op_adds op (liveAccountSlotKey a) = {}" by (cases op; auto)+
  from in_use_step[OF slot_exec_step[OF c] ok life_keys(1) life_keys(4) c this] show ?thesis using u by (meson order_trans)
qed

lemma exec_limit_user:
  assumes c: "0 < slotTTLSeconds c" and ok: "slots_ok (slotTTLSeconds c) t db" and w: "user_capped i m op"
    and u: "in_use (slotTTLSeconds c) t db (userSlotKey i) (liveUserSlotKey i) \<le> m"
  shows "in_use (slotTTLSeconds c) t (slot_exec c fails t op db) (userSlotKey i) (liveUserSlotKey i) \<le> m"
proof (cases "(\<exists>mx r. op = OpAcquireUser i mx r) \<or> (\<exists>b amax v umax k l rep. op = OpAcquireLive b amax v umax k l rep)")
  case True
  then show ?thesis
  proof (elim disjE exE)
    fix mx r assume op: "op = OpAcquireUser i mx r"
    show ?thesis
      using acquire_limit[OF c life_keys(2) life_keys(5) _ life_index(2) ok _ u, where b = "\<lambda>n. Some (n = 1)" and mx = mx] w u
      by (simp add: op AcquireUserSlot_def user_capped_def)
  next
    fix b amax v umax k l rep assume "op = OpAcquireLive b amax v umax k l rep"
    then show ?thesis using live_limit(2)[OF c ok] w u by blast
  qed
next
  case False
  then have "op_adds op (userSlotKey i) = {}" "op_adds op (liveUserSlotKey i) = {}" by (cases op; auto)+
  from in_use_step[OF slot_exec_step[OF c] ok life_keys(2) life_keys(5) c this] show ?thesis using u by (meson order_trans)
qed

lemma NewConcurrencyCache_ttl: "0 < slotTTLSeconds (NewConcurrencyCache mins waits)"
  by (simp add: NewConcurrencyCache_def defaultSlotTTLMinutes_def Let_def)

text \<open>The regular slots alone: only the request for a slot adds to them.\<close>

definition regular_capped :: "int \<Rightarrow> int \<Rightarrow> slot_op \<Rightarrow> bool" where
  "regular_capped a m op = (case op of OpAcquireAccount b mx r \<Rightarrow> b = a \<longrightarrow> mx \<le> m | _ \<Rightarrow> True)"

lemma regular_limit:
  assumes c: "0 < slotTTLSeconds c" and ok: "slots_ok (slotTTLSeconds c) t db" and w: "regular_capped a m op"
    and u: "int (card (held (slotTTLSeconds c) t db (accountSlotKey a))) \<le> m"
  shows "int (card (held (slotTTLSeconds c) t (slot_exec c fails t op db) (accountSlotKey a))) \<le> m"
proof (cases "\<exists>mx r. op = OpAcquireAccount a mx r")
  case True
  then obtain mx r where op: "op = OpAcquireAccount a mx r" by blast
  let ?ttl = "slotTTLSeconds c" and ?key = "accountSlotKey a"
  let ?granted = "r \<in> held ?ttl t db ?key \<or> in_use ?ttl t db ?key (liveAccountSlotKey a) < mx"
  obtain d where d: "acquireScript t ?key (liveAccountSlotKey a) mx ?ttl r db = (d, if ?granted then 1 else 0, TIME t)"
      "steps_to ?ttl t db (\<lambda>k X. if k = ?key \<and> ?granted then insert r X else X) d"
    using acquireScript_spec[OF life_keys(1) life_keys(4) _ c ok] by fastforce
  have "held ?ttl t d ?key = (if ?granted then insert r (held ?ttl t db ?key) else held ?ttl t db ?key)"
    using steps_to_held[OF d(2) ok life_keys(1), of ?ttl] c by simp
  then have d_m: "int (card (held ?ttl t d ?key)) \<le> m"
    using u w by (auto simp: op regular_capped_def in_use_def card_insert_if split: if_splits)
  have "held ?ttl t (touchActiveIndexAt fails t idx i e d) ?key \<subseteq> held ?ttl t d ?key" if "life ?ttl idx = None" for idx i e
    using slot_step_adds[OF touch_quiet[OF that, where A = nothing] steps_to_slots_ok[OF d(2) ok] life_keys(1) c] by simp
  from card_mono[OF finite_held this] have "int (card (held ?ttl t (touchActiveIndexAt fails t idx i e d) ?key)) \<le> m"
    if "life ?ttl idx = None" for idx i e using d_m that by (meson of_nat_le_iff order_trans)
  then show ?thesis using d_m u d(1) life_index(1) by (simp add: op AcquireAccountSlot_def)
next
  case False
  then have "op_adds op (accountSlotKey a) = {}" by (cases op) auto
  then have "held (slotTTLSeconds c) t (slot_exec c fails t op db) (accountSlotKey a) \<subseteq> held (slotTTLSeconds c) t db (accountSlotKey a)"
    using slot_step_adds[OF slot_exec_step[OF c, of t op db fails] ok life_keys(1)[of _ a] c] by simp
  from card_mono[OF finite_held this] show ?thesis using u by linarith
qed

interpretation account_slots: limited_slots "NewConcurrencyCache mins waits"
    "\<lambda>t db. in_use (slotTTLSeconds (NewConcurrencyCache mins waits)) t db (accountSlotKey a) (liveAccountSlotKey a)" "account_capped a"
  for mins waits a
  by unfold_locales (simp_all add: NewConcurrencyCache_ttl exec_limit_account in_use_later in_use_def[of _ _ empty_slots])

interpretation user_slots: limited_slots "NewConcurrencyCache mins waits"
    "\<lambda>t db. in_use (slotTTLSeconds (NewConcurrencyCache mins waits)) t db (userSlotKey u) (liveUserSlotKey u)" "user_capped u"
  for mins waits u
  by unfold_locales (simp_all add: NewConcurrencyCache_ttl exec_limit_user in_use_later in_use_def[of _ _ empty_slots])

interpretation regular_slots: limited_slots "NewConcurrencyCache mins waits"
    "\<lambda>t db. int (card (held (slotTTLSeconds (NewConcurrencyCache mins waits)) t db (accountSlotKey a)))" "regular_capped a"
  for mins waits a
  by unfold_locales (simp_all add: NewConcurrencyCache_ttl regular_limit card_mono[OF finite_held held_later])

lemma account_regular_capped: "account_within a m op \<Longrightarrow> regular_capped a m op"
  by (cases op) (simp_all add: regular_capped_def)

section \<open>The properties\<close>

text \<open>\<open>in_use\<close> and \<open>held\<close> for the keys of an account.\<close>

definition account_in_use :: "concurrencyCache \<Rightarrow> int \<Rightarrow> slot_db \<Rightarrow> int \<Rightarrow> int" where
  "account_in_use c now db a = in_use (slotTTLSeconds c) now db (accountSlotKey a) (liveAccountSlotKey a)"

definition account_holds :: "concurrencyCache \<Rightarrow> int \<Rightarrow> slot_db \<Rightarrow> int \<Rightarrow> string \<Rightarrow> bool" where
  "account_holds c now db a r \<longleftrightarrow> r \<in> held (slotTTLSeconds c) now db (accountSlotKey a)"

text \<open>C38. However the methods of any instances interleave and whichever calls fail: when every limit the callers name
  for an account is at most \<open>m\<close>, and no lease is asked for without a positive limit, the regular slots that have not run
  out never number more than \<open>m\<close>, and with the leases that have not run out never more than \<open>m\<close> either, or \<open>m + 1\<close> when
  some lease was asked for in replacement of a regular slot.\<close>

theorem slots_never_exceed_limit:
  fixes mins waits :: int and evs :: "slot_event list"
  defines "c \<equiv> NewConcurrencyCache mins waits"
  assumes "timed t0 evs now" "list_all (\<lambda>(t, fails, op). account_within a m op) evs" "0 \<le> m"
  shows "int (card {r. account_holds c now (slot_run c evs empty_slots) a r}) \<le> m \<and>
    account_in_use c now (slot_run c evs empty_slots) a
      \<le> m + (if list_ex (\<lambda>(t, fails, op). account_replaces a op) evs then 1 else 0)"
proof
  have "list_all (\<lambda>(t, fails, op). regular_capped a m op) evs"
    using assms(3) account_regular_capped by (fastforce simp: list_all_iff)
  from regular_slots.limit_from_empty[OF assms(2) this assms(4)]
  show "int (card {r. account_holds c now (slot_run c evs empty_slots) a r}) \<le> m"
    by (simp add: c_def account_holds_def)
  show "account_in_use c now (slot_run c evs empty_slots) a
      \<le> m + (if list_ex (\<lambda>(t, fails, op). account_replaces a op) evs then 1 else 0)"
    unfolding account_in_use_def c_def
    by (rule account_slots.limit_from_empty[OF assms(2) account_run_capped[OF assms(3)]]) (use assms(4) in simp)
qed

theorem user_slots_never_exceed_limit:
  assumes "timed t0 evs now" "list_all (\<lambda>(t, fails, op). user_within u m op) evs" "0 \<le> m"
  shows "in_use (slotTTLSeconds (NewConcurrencyCache mins waits)) now (slot_run (NewConcurrencyCache mins waits) evs empty_slots)
    (userSlotKey u) (liveUserSlotKey u) \<le> m + (if list_ex (\<lambda>(t, fails, op). user_replaces u op) evs then 1 else 0)"
  by (rule user_slots.limit_from_empty[OF assms(1) user_run_capped[OF assms(2)]]) (use assms(3) in simp)

text \<open>C40. After any run, a request for a slot is granted exactly when the request holds a slot already or the slots and
  leases that have not run out number less than the limit.\<close>

theorem slot_granted_iff_room:
  fixes mins waits :: int and evs :: "slot_event list"
  defines "c \<equiv> NewConcurrencyCache mins waits"
  defines "db \<equiv> slot_run c evs empty_slots"
  assumes "timed t0 evs now" "\<not> fails CallScript"
  shows "snd (AcquireAccountSlot c fails now a mx r db) = Some (account_holds c now db a r \<or> account_in_use c now db a < mx)"
proof -
  have c: "0 < slotTTLSeconds c" by (simp add: c_def NewConcurrencyCache_ttl)
  have ok: "slots_ok (slotTTLSeconds c) now db" unfolding db_def by (rule slot_run_ok[OF c assms(3) slots_ok_empty])
  show ?thesis
    using acquireScript_spec[OF life_keys(1) life_keys(4) _ c ok, of a a mx r] assms(4)
    by (auto simp: AcquireAccountSlot_def account_holds_def account_in_use_def)
qed

text \<open>C39. A slot that was granted counts for its whole life, to the last second, whatever happens meanwhile short of its
  own release and the start of a process with another prefix; in particular no purge or expiry of the key, and no
  failure of a call, drops it early.\<close>

theorem granted_slot_is_kept:
  fixes mins waits :: int and evs evs' :: "slot_event list"
  defines "c \<equiv> NewConcurrencyCache mins waits"
  assumes timed: "timed t0 (evs @ (t, fails, OpAcquireAccount a mx r) # evs') now"
    and granted: "snd (AcquireAccountSlot c fails t a mx r (slot_run c evs empty_slots)) = Some True"
    and kept: "list_all (\<lambda>(t, fails, op). r \<notin> op_drops op (accountSlotKey a)) evs'"
    and young: "TIME now < TIME t + slotTTLSeconds c"
  shows "account_holds c now (slot_run c (evs @ (t, fails, OpAcquireAccount a mx r) # evs') empty_slots) a r"
proof -
  let ?db = "slot_run c evs empty_slots" and ?ttl = "slotTTLSeconds c"
  have c: "0 < ?ttl" by (simp add: c_def NewConcurrencyCache_ttl)
  have t: "timed t0 evs t" "timed t evs' now" using timed by (simp_all add: timed_append)
  have ok: "slots_ok ?ttl t ?db" by (rule slot_run_ok[OF c t(1) slots_ok_empty])
  let ?granted = "r \<in> held ?ttl t ?db (accountSlotKey a) \<or> in_use ?ttl t ?db (accountSlotKey a) (liveAccountSlotKey a) < mx"
  obtain d where d: "acquireScript t (accountSlotKey a) (liveAccountSlotKey a) mx ?ttl r ?db = (d, if ?granted then 1 else 0, TIME t)"
      "steps_to ?ttl t ?db (\<lambda>k X. if k = accountSlotKey a \<and> ?granted then insert r X else X) d"
    using acquireScript_spec[OF life_keys(1) life_keys(4) _ c ok] by fastforce
  have g: ?granted "\<not> fails CallScript" using granted d(1) by (auto simp: AcquireAccountSlot_def split: if_splits)
  have "r \<in> held 1 t d (accountSlotKey a)"
    using steps_to_held[OF d(2) ok life_keys(1), of 1] g(1) c by simp
  moreover have "slot_step ?ttl t nothing nothing d (slot_exec c fails t (OpAcquireAccount a mx r) ?db)"
    using d(1) g touch_quiet[OF life_index(1)] by (simp add: AcquireAccountSlot_def)
  ultimately have r: "r \<in> held 1 t (slot_exec c fails t (OpAcquireAccount a mx r) ?db) (accountSlotKey a)"
    using slot_step_keeps[OF _ steps_to_slots_ok[OF d(2) ok] life_keys(1)] c by simp
  have ok': "slots_ok ?ttl t (slot_exec c fails t (OpAcquireAccount a mx r) ?db)" by (rule slot_step_ok[OF slot_exec_step[OF c] ok])
  have "r \<in> held (1 + (TIME now - TIME t)) now (slot_run c evs' (slot_exec c fails t (OpAcquireAccount a mx r) ?db)) (accountSlotKey a)"
    by (rule slot_run_keeps[OF c life_keys(1) t(2) ok' r _ _ kept]) (use young in simp_all)
  then have "r \<in> held ?ttl now (slot_run c (evs @ (t, fails, OpAcquireAccount a mx r) # evs') empty_slots) (accountSlotKey a)"
    using young by (auto simp: slot_run_append held_def)
  then show ?thesis by (simp add: account_holds_def)
qed

section \<open>Witnesses\<close>

definition calls_ok :: slot_failures where
  "calls_ok = (\<lambda>_. False)"

text \<open>A run: a slot, a lease that may replace it, and a request that finds no room.\<close>

definition busy_run :: "slot_event list" where
  "busy_run = [(0, calls_ok, OpAcquireAccount 7 2 ''p-1''), (1000, calls_ok, OpAcquireLive 7 1 3 0 9 ''lease'' True),
     (2000, calls_ok, OpAcquireAccount 7 2 ''p-2'')]"

lemma slots_never_exceed_limit_witness:
  "account_in_use (NewConcurrencyCache 15 0) 3000 (slot_run (NewConcurrencyCache 15 0) busy_run empty_slots) 7 = 2 \<and>
   account_in_use (NewConcurrencyCache 15 0) 3000 (slot_run (NewConcurrencyCache 15 0) busy_run empty_slots) 7
     \<le> 2 + (if list_ex (\<lambda>(t, fails, op). account_replaces 7 op) busy_run then 1 else 0)"
proof
  show "account_in_use (NewConcurrencyCache 15 0) 3000 (slot_run (NewConcurrencyCache 15 0) busy_run empty_slots) 7 = 2"
    by code_simp
  have "timed 0 busy_run 3000" "list_all (\<lambda>(t, fails, op). account_within 7 2 op) busy_run" by code_simp+
  from slots_never_exceed_limit[OF this]
  show "account_in_use (NewConcurrencyCache 15 0) 3000 (slot_run (NewConcurrencyCache 15 0) busy_run empty_slots) 7
     \<le> 2 + (if list_ex (\<lambda>(t, fails, op). account_replaces 7 op) busy_run then 1 else 0)" by simp
qed

text \<open>The bound with a replacing lease is reached: the live call takes a slot and then a lease naming the same limit of
  one, and both are in use until the slot is released. While the lease is held no further slot is granted.\<close>

lemma replacing_lease_exceeds_limit:
  "account_in_use (NewConcurrencyCache 15 0) 2000 (slot_run (NewConcurrencyCache 15 0)
     [(0, calls_ok, OpAcquireAccount 7 1 ''p-1''), (1000, calls_ok, OpAcquireLive 7 1 3 1 9 ''lease'' True)] empty_slots) 7 = 2"
  "snd (AcquireAccountSlot (NewConcurrencyCache 15 0) calls_ok 3000 7 1 ''p-2'' (slot_run (NewConcurrencyCache 15 0)
     [(0, calls_ok, OpAcquireAccount 7 1 ''p-1''), (1000, calls_ok, OpAcquireLive 7 1 3 1 9 ''lease'' True),
      (2000, calls_ok, OpReleaseAccount 7 ''p-1'')] empty_slots)) = Some False"
  by code_simp+

text \<open>Two live calls within a limit of two, each with its slot: the lease of the first uses the allowance until its slot
  is released, and the lease that would replace the slot of the second is refused.\<close>

lemma concurrent_replacement_refused:
  "snd (AcquireLiveLease calls_ok 3000 7 2 4 2 9 ''lease-2'' True (slot_run (NewConcurrencyCache 15 0)
     [(0, calls_ok, OpAcquireAccount 7 2 ''p-1''), (1000, calls_ok, OpAcquireAccount 7 2 ''p-2''),
      (2000, calls_ok, OpAcquireLive 7 2 3 2 9 ''lease-1'' True)] empty_slots)) = Some False"
  by code_simp

lemma slot_granted_iff_room_witness:
  "snd (AcquireAccountSlot (NewConcurrencyCache 15 0) calls_ok 3000 7 2 ''p-3''
     (slot_run (NewConcurrencyCache 15 0) busy_run empty_slots)) = Some False"
proof -
  have "timed 0 busy_run 3000" "\<not> calls_ok CallScript" by code_simp+
  note g = slot_granted_iff_room[where fails = calls_ok and mins = 15 and waits = 0 and a = 7 and mx = 2 and r = "''p-3''", OF this]
  have "\<not> account_holds (NewConcurrencyCache 15 0) 3000 (slot_run (NewConcurrencyCache 15 0) busy_run empty_slots) 7 ''p-3''"
    "account_in_use (NewConcurrencyCache 15 0) 3000 (slot_run (NewConcurrencyCache 15 0) busy_run empty_slots) 7 = 2"
    by code_simp+
  then show ?thesis unfolding g by simp
qed

text \<open>Just before the end of its life the slot counts, through a release of another request and the start of another
  process with the same prefix.\<close>

lemma granted_slot_is_kept_witness:
  "account_holds (NewConcurrencyCache 15 0) 899999
     (slot_run (NewConcurrencyCache 15 0)
        ([] @ (0, calls_ok, OpAcquireAccount 7 2 ''p-1'') #
         [(1000, calls_ok, OpReleaseAccount 7 ''p-2''), (2000, calls_ok, OpCleanupStale ''p-''), (800000, calls_ok, OpGetAccount 7)])
        empty_slots) 7 ''p-1''"
proof (rule granted_slot_is_kept[of 0])
  show "list_all (\<lambda>(t, fails, op). ''p-1'' \<notin> op_drops op (accountSlotKey 7))
      [(1000, calls_ok, OpReleaseAccount 7 ''p-2''), (2000, calls_ok, OpCleanupStale ''p-''), (800000, calls_ok, OpGetAccount 7)]"
    by (simp add: foreign_def)
qed code_simp+

text \<open>The start of an instance with another prefix frees the slots of a request that is running: a limit of one is
  then granted again.\<close>

lemma start_of_another_instance_frees_slots:
  "snd (AcquireAccountSlot (NewConcurrencyCache 15 0) calls_ok 2000 7 1 ''q-1''
     (slot_run (NewConcurrencyCache 15 0) [(0, calls_ok, OpAcquireAccount 7 1 ''p-1''), (1000, calls_ok, OpCleanupStale ''q-'')] empty_slots))
   = Some True"
  by code_simp

end
