(* ===== verification/Spec2Isabelle.thy ===== *)
theory Spec2Isabelle
  imports KiroGateway CompositeAdmin IdempotencyReplay InflightService PaymentLoadBalancer KeywordMatching ModelAllowlist ProxyCircuit
    SubscriptionCharges SubscriptionCheck SubscriptionAssign
    ConcurrencyPromises
begin

text \<open>
  sub2api is a gateway in front of the paid accounts of several AI providers (\<open>backend/\<close>, written in Go). A
  request arrives with an API key, which belongs to a user and a group; a middleware checks the subscription or
  the balance behind it (\<open>server/middleware\<close>), the gateway services (\<open>service/\<close>) decide to which provider,
  model and account it goes, reserve what it may cost, forward it and record the usage. State is kept in
  PostgreSQL (\<open>repository/\<close>) and in Redis. This development models those parts of the Go code whose
  correctness lies in their own logic rather than in the forwarding of streams. File names below are relative to
  \<open>backend/internal\<close>.

  \<^bold>\<open>How the parts interact.\<close> Before a request the middleware asks the subscription service whether the stored
  usage allows it. A request for a composite group is resolved to a platform and an upstream model by explicit
  routes, account mappings or the model name; a group's allowlist admits or refuses the model and its policy
  supplies limits, multipliers and provider settings. Slots in Redis bound how many requests an account, a user or a
  session serves at once. The billing service reserves an estimate of the cost in Redis and
  releases it when the last billing task has ended. Kiro accounts are gated by a cooldown store in Redis, proxies
  by a circuit in memory. Administrative requests run under the idempotency coordinator, top-ups choose a payment
  provider instance, and prompts are scanned by the keyword matcher.

  \<^bold>\<open>Common ground.\<close>
  \<^item> \<open>GoPrelude\<close>: strings as bytes, search and trimming, decimal numbers, instants and durations in nanoseconds
    with Go's saturation, wrap-around and truncating division. \<open>RedisStore\<close>: the Redis commands on hashes with
    expiry. \<open>Platforms\<close>: names of platforms and subscription types (\<open>domain/constants.go\<close>) and the values of \<open>float64\<close>.

  \<^bold>\<open>Components.\<close> The definitions stand in the order of the code and keep its names.
  \<^item> \<open>KiroCooldown\<close> models \<open>pkg/kirocooldown/store.go\<close>: one Redis hash per token, the four Lua scripts and every
    method of \<open>Store\<close>. Its lemmas give the exact effect of each operation on a well-formed hash (\<open>wf_db\<close>), its
    properties that a marked token is gated for exactly its backoff, how the backoff grows, which token a clearing
    releases, and that a key outlives its cooldown. A clearing is a job of three kinds of round trips (\<open>clear_next\<close>)
    between which other processes act; \<open>clearing_cuts_suspension_short\<close> shows what that costs. \<open>KiroGateway\<close> adds the wrappers of
    \<open>service/kiro_runtime_state.go\<close>; the Go interface is the locale \<open>cooldown_store\<close>, discharged for the store.
  \<^item> \<open>CompositeRouting\<close> models \<open>service/composite_model_route.go\<close>, \<open>composite_route_resolver.go\<close> and
    \<open>composite_platform.go\<close>: normal forms of routes, the order of candidates, the detection of a provider, the
    resolver. \<open>CompositeAdmin\<close> adds the table of routes (\<open>repository/composite_model_route_repo.go\<close>), the
    operations of \<open>service/admin_group.go\<close> on it and the reachable registries; the locale \<open>route_registry\<close> is
    what the resolver needs of the table.
  \<^item> \<open>IdempotencyStore\<close> models the SQL statements of \<open>repository/idempotency_repo.go\<close>, \<open>Idempotency\<close> the
    coordinator \<open>service/idempotency.go\<close> as a program over repository calls, \<open>IdempotencyConcurrent\<close> any number of
    such programs interleaved with renewals, crashes, lost replies and the cleaner (one executor per key, final
    records, each until its record first passes its expiry; \<open>late_reclaim_reopens_success\<close> shows why not longer),
    \<open>IdempotencyReplay\<close> what one request after another sees, proved in the locale
    \<open>idempotency_repository\<close>.
  \<^item> \<open>InflightCache\<close> models \<open>repository/billing_inflight_cache.go\<close> (sorted set, hash, three scripts),
    \<open>InflightLedger\<close> runs of many requests on it (locale \<open>reservation_cache\<close>; what is held exceeds the balance at
    most by what a stale read or a charge outside its reservation accounts for, the ghost \<open>gap\<close>), \<open>InflightHandle\<close> the reference count and renewal goroutine of a handle in
    \<open>service/billing_inflight_reservation.go\<close> as atomic steps of threads (released exactly when settled, every
    call ends), \<open>InflightService\<close> the rest of that file: reserving on every branch and the estimate.
  \<^item> \<open>SlotRedis\<close> has the Redis commands on sorted sets and counters that \<open>repository/concurrency_cache.go\<close> uses, and
    \<open>ConcurrencyCache\<close> its scripts and methods with the parts of \<open>service/concurrency_service.go\<close> around them.
    \<open>ConcurrencyLimit\<close> states the discipline all scripts keep (\<open>slots_ok\<close>) and what a key holds at an instant (\<open>held\<close>);
    \<open>ConcurrencySteps\<close> and \<open>ConcurrencyRun\<close> bound what each method adds and removes; \<open>ConcurrencyPromises\<close> has the
    theorems on runs: the locale \<open>limited_slots\<close>, discharged for accounts, for users and for the
    regular slots alone, and the life of a slot.
  \<^item> \<open>SubscriptionWindows\<close> models \<open>service/user_subscription.go\<close>, \<open>SubscriptionStore\<close> the table of
    \<open>repository/user_subscription_repo.go\<close>, \<open>SubscriptionService\<close> the operations of
    \<open>service/subscription_service.go\<close> and the check of \<open>server/middleware/api_key_auth.go\<close>. On them rest
    \<open>SubscriptionCharges\<close> (no charge is lost to a race of resets), \<open>SubscriptionCheck\<close> (what the check admits) and
    \<open>SubscriptionAssign\<close> (repeated assignments). The laws of a calendar are the locale \<open>calendar\<close>. The check takes any snapshot, as the service hands out copies from a cache.
  \<^item> \<open>GroupPolicy\<close> models \<open>service/group.go\<close> and the flat multipliers and prices beside it: effective Kiro settings,
    limits, model routing, peak hours, profit control. \<open>ModelAllowlist\<close> models \<open>service/group_model_allowlist.go\<close>;
    \<open>glob\<close> is the reference meaning of its patterns.
  \<^item> \<open>PaymentLoadBalancer\<close> models \<open>payment/load_balancer.go\<close>: filters, limits and strategies, with the
    round-robin counter as a 64-bit word.
  \<^item> \<open>KeywordMatcher\<close> models \<open>service/content_moderation_keyword_matcher.go\<close>, an Aho-Corasick automaton in arrays;
    \<open>KeywordTrie\<close>, \<open>KeywordLinks\<close> and \<open>KeywordMatching\<close> prove its phases and compare it with the search of each
    keyword in turn.
  \<^item> \<open>ProxyCircuit\<close> models \<open>service/openai_proxy_stream_circuit.go\<close>: entries per proxy with eviction, the counting
    of failures, the quarantine and its use by the gateway, as reachable states of the operations under the mutex.

  \<^bold>\<open>Conventions.\<close> A fallible function returns a sum or an optional error; failing calls of Redis or SQL are
  arguments, so that each property covers them. A statement of SQL or a Lua script is one step; a method that makes
  several is several steps where other processes matter. In the interleavings of the coordinator, the clearing of
  cooldowns and the reservation of a balance a lost reply differs from a call that was not sent (\<open>round_trip\<close> in the
  last two); elsewhere a failing call is one that was not executed. Clocks are arguments, one per reading where readings can differ; the
  reservation cache has one clock for Redis and the process. JSON, SHA-256, AES, redaction and other services are
  arguments and remain arbitrary unless a hypothesis states what is used. Strings are bytes: \<open>ToLower\<close>, \<open>ToUpper\<close> and
  \<open>EqualFold\<close> map ASCII letters only, as for the names of models, platforms and statuses; the keyword matcher, whose
  texts are free, takes the mapping of case as an argument. \<open>sub_IncrementUsage\<close> is the method of the repository;
  the statement of \<open>repository/usage_billing_repo.go\<close> does the same within the transaction of a charge, which is not
  modelled. The start of a process (\<open>CleanupStaleProcessSlots\<close>) is one step whose inner calls succeed.

  \<^bold>\<open>Bounds and fuel.\<close> Loops are structural recursions or folds except those that follow links in arrays of the
  keyword matcher: their fuel is the length of the array, which is enough because sibling links go to smaller
  indices and failure links to shorter strings; the breadth-first loop gets the number of nodes, each of which is
  queued once. The properties there are equalities, so running out of fuel would falsify them. Durations and counters
  that can wrap are words or are reduced explicitly; the theorems on subscriptions assume instants before the year
  2116, where subtractions do not saturate. Amounts of money are exact rationals: rounding of \<open>float64\<close> sums
  is not modelled.

  \<^bold>\<open>Not modelled.\<close> The gateways and translators (\<open>service/*gateway*\<close>, \<open>service/openai_*\<close>, \<open>service/gemini_*\<close>,
  \<open>pkg/apicompat\<close>, \<open>pkg/kiro\<close> and others) rewrite JSON and forward HTTP, SSE and WebSocket streams, which is I/O over
  third-party libraries. \<open>backend/ent\<close> is generated from schemas. The account scheduler, API keys, the health
  breaker of OpenAI keys, pricing tables, settings, users and OAuth, channels, monitoring, batch images, plugins, backup,
  the HTTP handlers beyond the check of a subscription and the web front end are left out; of the modelled files,
  caches in process memory, list queries, metrics and logging.
\<close>

end
